(* ===== verification/Prelude.thy ===== *)
theory Prelude
  imports Main "HOL-Library.Word"
begin

text \<open>
  What every component of the development shares: the machine integers of the C code, the
  result type of code that can stop the program, the loop combinator of the monitor's
  \<^verbatim>\<open>for\<close> loops, and the page arithmetic of 4096-byte pages.
\<close>

unbundle bit_operations_syntax

type_synonym u8 = "8 word"
type_synonym u32 = "32 word"
type_synonym u64 = "64 word"

named_theorems res_simps \<open>rewriting of results of code that may stop\<close>
named_theorems page_simps \<open>page numbers, page bases and alignment\<close>

section \<open>Results of code that may stop\<close>

text \<open>
  The C code has no exceptions. It stops in one of these ways: \<open>Hang\<close> is the idiom
  \<^verbatim>\<open>printf(...);while(1);\<close> of the monitor and of the window tables, \<open>Exit\<close> a call of
  \<^verbatim>\<open>exit\<close>, \<open>Assert\<close> a failed \<^verbatim>\<open>UK_ASSERT\<close>, \<open>Oob\<close> an array access outside
  its bounds and \<open>Undef\<close> any other operation the C standard leaves undefined.
\<close>

datatype stop = Hang | Exit int | Assert | Oob | Undef

type_synonym 'a res = "stop + 'a"

definition bindr :: "'a res \<Rightarrow> ('a \<Rightarrow> 'b res) \<Rightarrow> 'b res" where
  "bindr m f = (case m of Inl e \<Rightarrow> Inl e | Inr x \<Rightarrow> f x)"

lemma bindr_Inl [simp]: "bindr (Inl e) f = Inl e"
  by (simp add: bindr_def)

lemma bindr_Inr [simp]: "bindr (Inr x) f = f x"
  by (simp add: bindr_def)

lemma bindr_eq_Inr_iff [res_simps]:
  "bindr m f = Inr y \<longleftrightarrow> (\<exists>x. m = Inr x \<and> f x = Inr y)"
  by (cases m) simp_all

lemma bindr_cong: "m = n \<Longrightarrow> (\<And>x. n = Inr x \<Longrightarrow> f x = g x) \<Longrightarrow> bindr m f = bindr n g"
  by (cases n) simp_all

lemma bindr_assoc: "bindr (bindr m f) g = bindr m (\<lambda>x. bindr (f x) g)"
  by (cases m) simp_all

definition guardr :: "bool \<Rightarrow> stop \<Rightarrow> unit res" where
  "guardr b e = (if b then Inr () else Inl e)"

lemma guardr_simps [simp]:
  "guardr True e = Inr ()" "guardr False e = Inl e"
  by (simp_all add: guardr_def)

lemma guardr_eq_Inr_iff [res_simps]: "guardr b e = Inr u \<longleftrightarrow> b"
  by (simp add: guardr_def)

text \<open>A loop over a list of loop indices whose body may stop.\<close>

fun iterr :: "('a \<Rightarrow> 's \<Rightarrow> 's res) \<Rightarrow> 'a list \<Rightarrow> 's \<Rightarrow> 's res" where
  "iterr f [] s = Inr s"
| "iterr f (x # xs) s = bindr (f x s) (iterr f xs)"

lemma iterr_append: "iterr f (xs @ ys) s = bindr (iterr f xs s) (iterr f ys)"
  by (induction xs arbitrary: s) (simp_all add: bindr_assoc cong: bindr_cong)

lemma iterr_invariant:
  assumes "iterr f xs s = Inr t" and "P s"
    and "\<And>x s t. x \<in> set xs \<Longrightarrow> P s \<Longrightarrow> f x s = Inr t \<Longrightarrow> P t"
  shows "P t"
  using assms
proof (induction xs arbitrary: s)
  case Nil
  then show ?case by simp
next
  case (Cons x xs)
  from Cons.prems(1) obtain u where u: "f x s = Inr u" "iterr f xs u = Inr t"
    by (auto simp: res_simps)
  from Cons.prems(2,3) u(1) have "P u" by auto
  with Cons.IH [OF u(2)] Cons.prems(3) show ?case by auto
qed

section \<open>Integers of the C code\<close>

text \<open>
  Conversion of an \<^verbatim>\<open>int\<close> to the signed \<^verbatim>\<open>char\<close> of the x86-64 ABI, and the
  conversion of a 64-bit value to \<^verbatim>\<open>int\<close>.
\<close>

definition to_char :: "int \<Rightarrow> int" where
  "to_char i = signed_take_bit 7 i"

definition to_int :: "int \<Rightarrow> int" where
  "to_int i = signed_take_bit 31 i"

lemma to_char_id [simp]: "- 128 \<le> i \<Longrightarrow> i < 128 \<Longrightarrow> to_char i = i"
  by (simp add: to_char_def signed_take_bit_int_eq_self)

lemma to_int_id [simp]: "- 2147483648 \<le> i \<Longrightarrow> i < 2147483648 \<Longrightarrow> to_int i = i"
  by (simp add: to_int_def signed_take_bit_int_eq_self)

section \<open>Error numbers\<close>

text \<open>The values of \<^verbatim>\<open>lib/nolibc/include/errno.h\<close> that the modelled code returns.\<close>

abbreviation (input) EPERM :: int where "EPERM \<equiv> 1"
abbreviation (input) ENOENT :: int where "ENOENT \<equiv> 2"
abbreviation (input) EINTR :: int where "EINTR \<equiv> 4"
abbreviation (input) EIO :: int where "EIO \<equiv> 5"
abbreviation (input) EBADF :: int where "EBADF \<equiv> 9"
abbreviation (input) ENOMEM :: int where "ENOMEM \<equiv> 12"
abbreviation (input) EACCES :: int where "EACCES \<equiv> 13"
abbreviation (input) EFAULT :: int where "EFAULT \<equiv> 14"
abbreviation (input) EBUSY :: int where "EBUSY \<equiv> 16"
abbreviation (input) EEXIST :: int where "EEXIST \<equiv> 17"
abbreviation (input) EXDEV :: int where "EXDEV \<equiv> 18"
abbreviation (input) ENODEV :: int where "ENODEV \<equiv> 19"
abbreviation (input) ENOTDIR :: int where "ENOTDIR \<equiv> 20"
abbreviation (input) EISDIR :: int where "EISDIR \<equiv> 21"
abbreviation (input) EINVAL :: int where "EINVAL \<equiv> 22"
abbreviation (input) ENFILE :: int where "ENFILE \<equiv> 23"
abbreviation (input) EMFILE :: int where "EMFILE \<equiv> 24"
abbreviation (input) EFBIG :: int where "EFBIG \<equiv> 27"
abbreviation (input) ENOSPC :: int where "ENOSPC \<equiv> 28"
abbreviation (input) EROFS :: int where "EROFS \<equiv> 30"
abbreviation (input) EPIPE :: int where "EPIPE \<equiv> 32"
abbreviation (input) ENOTTY :: int where "ENOTTY \<equiv> 25"
abbreviation (input) ESPIPE :: int where "ESPIPE \<equiv> 29"
abbreviation (input) ERANGE :: int where "ERANGE \<equiv> 34"
abbreviation (input) EAGAIN :: int where "EAGAIN \<equiv> 35"
abbreviation (input) ENAMETOOLONG :: int where "ENAMETOOLONG \<equiv> 63"
abbreviation (input) EOPNOTSUPP :: int where "EOPNOTSUPP \<equiv> 45"
abbreviation (input) ELOOP :: int where "ELOOP \<equiv> 62"
abbreviation (input) ENOTEMPTY :: int where "ENOTEMPTY \<equiv> 66"
abbreviation (input) ENOSYS :: int where "ENOSYS \<equiv> 78"
abbreviation (input) ENOTSUP :: int where "ENOTSUP \<equiv> 97"

section \<open>Pages\<close>

definition page_of :: "u64 \<Rightarrow> nat" where
  "page_of a = unat a div 4096"

definition page_base :: "u64 \<Rightarrow> u64" where
  "page_base a = push_bit 12 (drop_bit 12 a)"

definition page_aligned :: "u64 \<Rightarrow> bool" where
  "page_aligned a \<longleftrightarrow> a AND 0xfff = 0"

lemma u64_less [simp]: "unat (a :: u64) < 18446744073709551616"
  using unsigned_less [of a] by simp

lemma unat_and_fff: "unat (a AND 0xfff :: u64) = unat a mod 4096"
proof -
  have "(0xfff :: u64) = mask 12" by (simp add: mask_eq_exp_minus_1)
  then have "a AND 0xfff = take_bit 12 a" by (simp add: take_bit_eq_mask)
  then have "unat (a AND 0xfff) = take_bit 12 (unat a)" by (simp only: unsigned_take_bit_eq)
  then show ?thesis by (simp add: take_bit_eq_mod)
qed

lemma page_aligned_iff [page_simps]: "page_aligned a \<longleftrightarrow> unat a mod 4096 = 0"
  by (simp add: page_aligned_def unat_and_fff [symmetric] unsigned_eq_0_iff)

lemma unat_page_base [page_simps]: "unat (page_base a) = 4096 * page_of a"
proof -
  have "unat a div 4096 * 4096 \<le> unat a" by simp
  then have "unat a div 4096 * 4096 < 18446744073709551616"
    using u64_less [of a] by linarith
  then show ?thesis
    by (simp add: page_base_def page_of_def push_bit_eq_mult unat_word_ariths
        unat_drop_bit_eq drop_bit_eq_div [where 'a = nat])
qed

lemma page_of_page_base [page_simps]: "page_of (page_base a) = page_of a"
  by (simp add: page_of_def unat_page_base [unfolded page_of_def])

lemma page_aligned_page_base [page_simps]: "page_aligned (page_base a)"
  by (simp add: page_aligned_iff unat_page_base)

lemma page_of_less: "page_of a < 4503599627370496"
  using u64_less [of a] unfolding page_of_def by linarith

lemma unat_eq_zero_iff: "unat (a :: u64) = 0 \<longleftrightarrow> a = 0"
  by (simp add: unsigned_eq_0_iff)

lemma unat_pages:
  assumes "n < 2 ^ 52"
  shows "unat (of_nat n * 4096 :: u64) = n * 4096"
proof -
  have "unat (of_nat n :: u64) = n" using assms by (simp add: unat_of_nat)
  with assms show ?thesis by (simp add: unat_word_ariths)
qed

lemma page_of_exists:
  assumes "p < 2 ^ 52"
  shows "page_of (of_nat p * 4096) = p"
  using unat_pages [OF assms] by (simp add: page_of_def)

section \<open>Page ranges of signed addresses\<close>

lemma sint_nonneg_uint: "0 \<le> sint (a :: u64) \<Longrightarrow> sint a = int (unat a)"
proof -
  assume a: "0 \<le> sint a"
  have "sint a < 2 ^ 63" using sint_lt [of a] by simp
  with a have "take_bit 64 (sint a) = sint a" by (simp add: take_bit_int_eq_self)
  then have "uint a = sint a" by (simp add: uint_sint)
  then show ?thesis by (simp only: uint_nat)
qed

lemma sint_small: "unat (a :: u64) < 2 ^ 63 \<Longrightarrow> sint a = int (unat a)"
proof -
  assume "unat a < 2 ^ 63"
  then have "int (unat a) < int (2 ^ 63)" by (simp only: of_nat_less_iff)
  then have "uint a < 2 ^ 63" by simp
  moreover have "- (2 ^ 63) \<le> uint a" by (rule order_trans [OF _ uint_ge_0]) simp
  ultimately have "signed_take_bit 63 (uint a) = uint a" by (intro signed_take_bit_int_eq_self)
  then have "sint a = uint a" by (simp add: sint_uint)
  then show ?thesis by (simp only: uint_nat)
qed

lemma div_shift: "(h::int) mod 4096 = 0 \<Longrightarrow> (a - h) div 4096 = a div 4096 - h div 4096"
  by (auto simp: mod_eq_0_iff_dvd elim!: dvdE)

lemma page_range_int:
  fixes S a :: int and n :: nat
  assumes "S mod 4096 = 0"
  shows "(S \<le> a \<and> a < S + 4096 * int n) \<longleftrightarrow> S div 4096 \<le> a div 4096 \<and> a div 4096 < S div 4096 + int n"
proof -
  from assms obtain k where "S = 4096 * k" by (auto simp: mod_eq_0_iff_dvd elim: dvdE)
  then show ?thesis by (simp) linarith
qed

lemma nat_range_shift:
  fixes S A H :: int and n :: nat
  assumes "H \<le> S" "H \<le> A"
  shows "nat (S - H) \<le> nat (A - H) \<and> nat (A - H) < nat (S - H) + n \<longleftrightarrow> S \<le> A \<and> A < S + int n"
  using assms by linarith

end
