(* ===== verification/Mpk.thy ===== *)
theory Mpk
  imports Prelude
begin

text \<open>
  Memory protection keys as the monitor uses them: the page table's key per page, the
  process's allocated keys and the access-disable bits of the \<^verbatim>\<open>PKRU\<close> register, with the
  Linux and glibc calls \<^verbatim>\<open>pkey_alloc\<close>, \<^verbatim>\<open>pkey_set\<close> and \<^verbatim>\<open>pkey_mprotect\<close>.
  These calls are the C library's; they are modelled after their manual pages. The monitor
  passes only the access rights 0 and \<^verbatim>\<open>PKEY_DISABLE_ACCESS\<close>, so one bit per key is kept.
  Pages are numbered (address divided by 4096); a page that is not mapped has no key.
\<close>

named_theorems mpk_simps \<open>effects of the protection-key calls\<close>

record mpk =
  page_key :: "nat \<Rightarrow> nat option"
  pkeys :: "nat list"
  pkru_ad :: "nat \<Rightarrow> bool"

definition pages_of_len :: "u64 \<Rightarrow> nat" where
  "pages_of_len len = (unat len + 4095) div 4096"

definition in_pages :: "u64 \<Rightarrow> u64 \<Rightarrow> nat \<Rightarrow> bool" where
  "in_pages start len p \<longleftrightarrow> page_of start \<le> p \<and> p < page_of start + pages_of_len len"

definition pkey_alloc :: "mpk \<Rightarrow> (nat \<times> mpk) option" where
  "pkey_alloc m =
     (case filter (\<lambda>k. k \<notin> set (pkeys m)) [1..<16] of
        [] \<Rightarrow> None
      | k # _ \<Rightarrow> Some (k, m\<lparr>pkeys := k # pkeys m, pkru_ad := (pkru_ad m)(k := False)\<rparr>))"

definition pkey_set :: "mpk \<Rightarrow> nat \<Rightarrow> bool \<Rightarrow> mpk option" where
  "pkey_set m key disable =
     (if key < 16 then Some (m\<lparr>pkru_ad := (pkru_ad m)(key := disable)\<rparr>) else None)"

definition pkey_mprotect :: "mpk \<Rightarrow> u64 \<Rightarrow> u64 \<Rightarrow> nat \<Rightarrow> mpk option" where
  "pkey_mprotect m start len key =
     (if \<not> page_aligned start then None
      else if len = 0 then Some m
      else if page_of start + pages_of_len len > 4503599627370496 then None
      else if \<not> List.member (pkeys m) key then None
      else if \<not> list_all (\<lambda>i. page_key m (page_of start + i) \<noteq> None) [0..<pages_of_len len]
      then None
      else Some (m\<lparr>page_key := (\<lambda>p. if in_pages start len p then Some key else page_key m p)\<rparr>))"

text \<open>The hardware's check of a data access: the page is mapped and its key is not disabled.\<close>

definition accessible :: "mpk \<Rightarrow> u64 \<Rightarrow> bool" where
  "accessible m a \<longleftrightarrow>
     (case page_key m (page_of a) of None \<Rightarrow> False | Some k \<Rightarrow> \<not> pkru_ad m k)"

section \<open>Effects\<close>

lemma pkey_set_Some [mpk_simps]:
  "pkey_set m key d = Some m' \<longleftrightarrow> key < 16 \<and> m' = m\<lparr>pkru_ad := (pkru_ad m)(key := d)\<rparr>"
  by (auto simp: pkey_set_def)

lemma pkey_mprotect_SomeD:
  assumes "pkey_mprotect m start len key = Some m'"
  shows "pkeys m' = pkeys m" "pkru_ad m' = pkru_ad m"
    "len \<noteq> 0 \<Longrightarrow> page_key m' = (\<lambda>p. if in_pages start len p then Some key else page_key m p)"
    "len = 0 \<Longrightarrow> m' = m"
  using assms by (auto simp: pkey_mprotect_def split: if_splits)

lemma pkey_mprotect_mapped:
  assumes "pkey_mprotect m start len key = Some m'"
  shows "page_key m' p = None \<longleftrightarrow> page_key m p = None"
proof (cases "len = 0")
  case True
  with pkey_mprotect_SomeD [OF assms] show ?thesis by simp
next
  case False
  have mapped: "page_key m p \<noteq> None" if "in_pages start len p"
  proof -
    from that obtain i where "p = page_of start + i" "i < pages_of_len len"
      by (auto simp: in_pages_def) (metis add_less_cancel_left le_Suc_ex)
    with assms False show ?thesis
      by (auto simp: pkey_mprotect_def list_all_iff split: if_splits)
  qed
  with pkey_mprotect_SomeD(3) [OF assms False] show ?thesis by auto
qed

lemma pages_of_len_4096 [simp]: "pages_of_len 4096 = 1"
  by (simp add: pages_of_len_def)

lemma pages_of_len_exact: "unat len mod 4096 = 0 \<Longrightarrow> pages_of_len len = unat len div 4096"
proof -
  assume "unat len mod 4096 = 0"
  then obtain k where k: "unat len = 4096 * k" by (auto simp: mod_eq_0_iff_dvd elim: dvdE)
  then show ?thesis unfolding pages_of_len_def k by simp
qed

lemma in_pages_one [simp]: "in_pages a 4096 p \<longleftrightarrow> p = page_of a"
  by (auto simp: in_pages_def)

text \<open>Re-keying the page of one address, the only way the fault handler changes keys.\<close>

lemma pkey_mprotect_page:
  "pkey_mprotect m (page_base a) 4096 key =
     (if page_of a + 1 \<le> 4503599627370496 \<and> key \<in> set (pkeys m) \<and> page_key m (page_of a) \<noteq> None
      then Some (m\<lparr>page_key := (page_key m)(page_of a \<mapsto> key)\<rparr>) else None)"
  by (auto simp: pkey_mprotect_def page_simps fun_upd_def)

lemma pkey_alloc_SomeD:
  assumes "pkey_alloc m = Some (k, m')"
  shows "k \<notin> set (pkeys m)" "0 < k" "k < 16" "pkeys m' = k # pkeys m"
    "page_key m' = page_key m" "pkru_ad m' = (pkru_ad m)(k := False)"
proof -
  from assms obtain ks where ks: "filter (\<lambda>k. k \<notin> set (pkeys m)) [1..<16] = k # ks"
    and m': "m' = m\<lparr>pkeys := k # pkeys m, pkru_ad := (pkru_ad m)(k := False)\<rparr>"
    by (auto simp: pkey_alloc_def split: list.splits)
  from ks have "k \<in> set (filter (\<lambda>k. k \<notin> set (pkeys m)) [1..<16])" by simp
  then show "k \<notin> set (pkeys m)" "0 < k" "k < 16" by simp_all
  show "pkeys m' = k # pkeys m" "page_key m' = page_key m"
    "pkru_ad m' = (pkru_ad m)(k := False)"
    by (simp_all add: m')
qed

lemma pkey_alloc_None: "pkey_alloc m = None \<longleftrightarrow> {1..<16} \<subseteq> set (pkeys m)"
proof -
  have "pkey_alloc m = None \<longleftrightarrow> filter (\<lambda>k. k \<notin> set (pkeys m)) [1..<16] = []"
    by (simp add: pkey_alloc_def split: list.split)
  also have "\<dots> \<longleftrightarrow> {1..<16} \<subseteq> set (pkeys m)"
    by (simp add: filter_empty_conv) auto
  finally show ?thesis .
qed

end
