(* ===== verification/Modules.thy ===== *)
theory Modules
  imports Prelude
begin

text \<open>
  The static tables of the interface generator \<^verbatim>\<open>kernel/fig.py\<close>: the enumeration of the
  modules (cubicles), their file names, which modules are isolated (\<^verbatim>\<open>must\<close>) and which
  are shared, the friend lists of the three build flavours, and the look-up functions the
  generator writes into \<^verbatim>\<open>gen_hooks.h\<close>.
\<close>

section \<open>The module enumeration\<close>

text \<open>
  \<^verbatim>\<open>enum modules\<close> is \<^verbatim>\<open>E_APP\<close> followed by one constant per entry of
  \<^verbatim>\<open>liblist\<close>; \<^verbatim>\<open>modnames\<close> lists the file names in the same order.
\<close>

definition modnames :: "string list" where
  "modnames =
    [''app.so'',
     ''libuksched.so'', ''libramfs.so'', ''libposix_sysinfo.so'', ''libukswrand.so'',
     ''libuktimeconv.so'', ''libukalloc.so'', ''libuklibparam.so'', ''libposix_libdl.so'',
     ''libukbus.so'', ''libukschedcoop.so'', ''libuknetdev.so'', ''libd9pfs.so'', ''libfdt.so'',
     ''libukmpi.so'', ''libukargparse.so'', ''libuktime.so'', ''liblwip.so'', ''libuksglist.so'',
     ''liblinuxuplat.so'', ''libuklock.so'', ''libvfscore.so'', ''libukallocbbuddy.so'',
     ''libukblkdev.so'', ''libdevfs.so'', ''libukboot.so'']"

definition E_APP :: int where "E_APP = 0"
definition E_RAMFS :: int where "E_RAMFS = 2"
definition E_UKALLOC :: int where "E_UKALLOC = 6"
definition E_LWIP :: int where "E_LWIP = 17"
definition E_LINUXUPLAT :: int where "E_LINUXUPLAT = 19"
definition E_VFSCORE :: int where "E_VFSCORE = 21"
definition E_UKBOOT :: int where "E_UKBOOT = 25"
definition E_END :: nat where "E_END = length modnames"

lemmas module_defs = E_APP_def E_RAMFS_def E_UKALLOC_def E_LWIP_def E_LINUXUPLAT_def
  E_VFSCORE_def E_UKBOOT_def

lemma E_END_eq [simp]: "E_END = 26"
  by (simp add: E_END_def modnames_def)

section \<open>Isolated and shared modules\<close>

definition must_list :: "string list" where
  "must_list =
    [''app.so'', ''libramfs.so'', ''libposix_sysinfo.so'', ''libdevfs.so'', ''libukbus.so'',
     ''liblinuxuplat.so'', ''libuktime.so'', ''libukswrand.so'', ''libuklibparam.so'',
     ''libukblkdev.so'', ''libuknetdev.so'', ''libfdt.so'', ''libvfscore.so'', ''libukboot.so'',
     ''libukalloc.so'', ''libposix_libdl.so'', ''liblwip.so'']"

definition shared_list :: "string list" where
  "shared_list =
    [''libnewlibm.so'', ''libnewlibglue.so'', ''libnewlibc.so'', ''libnolibc.so'',
     ''libposix_process.so'', ''libposix_user.so'', ''libsyscall_shim.so'', ''libukdebug.so'',
     ''libukboot_main.so'', ''libpthread-embedded.so'', ''libukargparse.so'', ''libukmpi.so'',
     ''libuksglist.so'', ''libuktimeconv.so'', ''libuklock.so'', ''libukallocbbuddy.so'',
     ''lib9pfs.so'', ''libuk9p.so'', ''libuksched.so'', ''libukschedcoop.so'', ''libukmmap.so'']"

text \<open>A module in neither list stops the loader.\<close>

definition is_must :: "string \<Rightarrow> bool res" where
  "is_must module =
     (if List.member must_list module then Inr True
      else if List.member shared_list module then Inr False
      else Inl Hang)"

text \<open>The loop of \<^verbatim>\<open>get_id\<close>: the first index with that name, \<open>- 1\<close> if there is none.\<close>

fun name_index :: "nat \<Rightarrow> string list \<Rightarrow> string \<Rightarrow> int" where
  "name_index i [] name = - 1"
| "name_index i (x # xs) name = (if x = name then int i else name_index (Suc i) xs name)"

definition get_id :: "string \<Rightarrow> int" where
  "get_id name = name_index 0 (take E_END modnames) name"

section \<open>Friends\<close>

text \<open>
  The build flavours: the default loader, \<^verbatim>\<open>loader3\<close> (\<^verbatim>\<open>SQLITE_FINAL\<close> and
  \<^verbatim>\<open>SQLITE_3\<close>), \<^verbatim>\<open>loader4\<close> (\<^verbatim>\<open>SQLITE_FINAL\<close>) and \<^verbatim>\<open>NGINX_FINAL\<close>. Friends share a
  protection key, so a call between them is not a cross-cubicle call.
\<close>

datatype build = Default | Sqlite3 | Sqlite4 | Nginx

fun flist :: "build \<Rightarrow> int list" where
  "flist Default = []"
| "flist Sqlite3 = [E_UKALLOC, E_UKBOOT, E_VFSCORE, E_RAMFS]"
| "flist Sqlite4 = [E_UKALLOC, E_UKBOOT, E_VFSCORE]"
| "flist Nginx = [E_UKALLOC, E_APP]"

text \<open>The loop with the two flags \<^verbatim>\<open>a_ok\<close> and \<^verbatim>\<open>b_ok\<close>.\<close>

fun friends_loop :: "int list \<Rightarrow> int \<Rightarrow> int \<Rightarrow> bool \<Rightarrow> bool \<Rightarrow> bool" where
  "friends_loop [] a b a_ok b_ok = False"
| "friends_loop (f # fs) a b a_ok b_ok =
     (let a_ok' = (a_ok \<or> f = a); b_ok' = (b_ok \<or> f = b)
      in if a_ok' \<and> b_ok' then True else friends_loop fs a b a_ok' b_ok')"

definition friends :: "build \<Rightarrow> int \<Rightarrow> int \<Rightarrow> bool" where
  "friends bld a b =
     (if a = b then True
      else if bld = Default then False
      else friends_loop (flist bld) a b False False)"

section \<open>Lemmas\<close>

lemma name_index_range:
  "name_index i xs n = - 1 \<or> (int i \<le> name_index i xs n \<and> name_index i xs n < int (i + length xs))"
  by (induction xs arbitrary: i) force+

lemma name_index_nth:
  "name_index i xs n \<noteq> - 1 \<Longrightarrow> xs ! nat (name_index i xs n - int i) = n"
proof (induction xs arbitrary: i)
  case (Cons x xs)
  show ?case
  proof (cases "x = n")
    case False
    with Cons.prems have ne: "name_index (Suc i) xs n \<noteq> - 1" by simp
    with name_index_range [of "Suc i" xs n] have "int (Suc i) \<le> name_index (Suc i) xs n" by auto
    then obtain k where k: "name_index (Suc i) xs n = int (Suc i) + int k"
      using zle_iff_zadd by blast
    with Cons.IH [OF ne] False show ?thesis by (simp add: nat_add_distrib)
  qed simp
qed simp

lemma name_index_minus1: "name_index i xs n = - 1 \<longleftrightarrow> n \<notin> set xs"
  by (induction xs arbitrary: i) auto

lemma name_index_distinct:
  assumes "distinct xs" "k < length xs"
  shows "name_index i xs (xs ! k) = int (i + k)"
  using assms
proof (induction xs arbitrary: i k)
  case (Cons x xs)
  then show ?case by (cases k) auto
qed simp

lemma friends_loop_iff:
  "friends_loop fs a b x y \<longleftrightarrow> fs \<noteq> [] \<and> (x \<or> a \<in> set fs) \<and> (y \<or> b \<in> set fs)"
  if "\<not> (x \<and> y)"
  using that
proof (induction fs arbitrary: x y)
  case (Cons f fs)
  show ?case
  proof (cases "(x \<or> f = a) \<and> (y \<or> f = b)")
    case True
    then show ?thesis by (auto simp: Let_def)
  next
    case False
    then have "friends_loop (f # fs) a b x y = friends_loop fs a b (x \<or> f = a) (y \<or> f = b)"
      by (simp only: friends_loop.simps Let_def if_False)
    with Cons.IH [OF False] False show ?thesis by (cases fs) auto
  qed
qed simp

lemma friends_iff: "friends bld a b \<longleftrightarrow> a = b \<or> (a \<in> set (flist bld) \<and> b \<in> set (flist bld))"
proof (cases "a = b \<or> bld = Default")
  case True
  then show ?thesis by (auto simp: friends_def)
next
  case False
  then have "friends bld a b = friends_loop (flist bld) a b False False"
    by (simp add: friends_def)
  also have "\<dots> = (a \<in> set (flist bld) \<and> b \<in> set (flist bld))"
    by (subst friends_loop_iff) auto
  finally show ?thesis using False by simp
qed

lemma friends_sym: "friends bld a b \<longleftrightarrow> friends bld b a"
  by (auto simp: friends_iff)

lemma friends_trans: "friends bld a b \<Longrightarrow> friends bld b c \<Longrightarrow> friends bld a c"
  by (auto simp: friends_iff)

end
