(* ===== verification/Monitor.thy ===== *)
theory Monitor
  imports Mpk Modules
begin

text \<open>
  The state of the monitor (\<^verbatim>\<open>kernel/loader.c\<close>) and its primitive operations: the module
  table \<^verbatim>\<open>pmap\<close>, the stack table, the page-ownership maps \<^verbatim>\<open>heap_cfg\<close> and
  \<^verbatim>\<open>mmap_cfg\<close>, locking and unlocking a cubicle's protection key, attaching pages to a
  cubicle, and the address-to-cubicle look-ups. The flags \<^verbatim>\<open>NOMPK\<close>, \<^verbatim>\<open>ALLOW_APP\<close>,
  \<^verbatim>\<open>ALLOW_ALL\<close>, \<^verbatim>\<open>DEBUG\<close> and \<^verbatim>\<open>DOT\<close> are off, as in the sources. Messages
  printed on the way are left out.
\<close>

named_theorems mon_simps \<open>effects of the monitor's primitive operations\<close>

section \<open>Data\<close>

record ipc_struct =
  ipc_begin :: u64
  ipc_size :: u64
  ipc_mask :: u64

record proc_map_s =
  pm_name :: string
  pm_start :: u64
  pm_size :: u64
  pm_pkey :: nat
  pm_must :: bool
  ipc_tab_stack_ptr :: u64
  ipc_tab_globals_ptr :: u64
  ipc_tab_heap_ptr :: u64
  ipc_stack_nr :: int
  ipc_globals_nr :: int
  ipc_heap_nr :: int

record stack_map_s =
  st_name :: string
  st_start :: u64
  st_size :: u64
  st_mid :: int

text \<open>
  The global variables of the monitor. \<^verbatim>\<open>pmap\<close> has 100 entries; \<open>stacks\<close> holds the
  first \<^verbatim>\<open>stacks_max\<close> entries of the stack table. \<^verbatim>\<open>heap_cfg\<close> and \<^verbatim>\<open>mmap_cfg\<close> are
  arrays of signed characters, one per page; \<open>heap_cfg_len\<close> is the number of bytes
  allocated for the former. The fields of type \<^verbatim>\<open>long\<close> are integers. \<open>ipc_mem\<close> is the
  part of the cubicles' memory that holds window descriptors: the descriptor at an address.
\<close>

record mon =
  pmap :: "proc_map_s list"
  pmap_max :: nat
  stacks :: "stack_map_s list"
  heap_cfg :: "nat \<Rightarrow> int"
  heap_cfg_len :: nat
  heap_start :: int
  heap_end :: int
  mmap_cfg :: "int list"
  mmap_start :: int
  mmap_end :: int
  mpk :: mpk
  ipc_mem :: "u64 \<Rightarrow> ipc_struct"

definition SMAX :: nat where "SMAX = 500"

definition empty_pm :: proc_map_s where
  "empty_pm = \<lparr>pm_name = [], pm_start = 0, pm_size = 0, pm_pkey = 0, pm_must = False,
     ipc_tab_stack_ptr = 0, ipc_tab_globals_ptr = 0, ipc_tab_heap_ptr = 0,
     ipc_stack_nr = 0, ipc_globals_nr = 0, ipc_heap_nr = 0\<rparr>"

text \<open>Reading and writing \<^verbatim>\<open>pmap[mid]\<close>.\<close>

definition pm :: "mon \<Rightarrow> int \<Rightarrow> proc_map_s res" where
  "pm s mid = (if 0 \<le> mid \<and> mid < int (length (pmap s)) then Inr (pmap s ! nat mid) else Inl Oob)"

definition upd_pm :: "mon \<Rightarrow> int \<Rightarrow> (proc_map_s \<Rightarrow> proc_map_s) \<Rightarrow> mon" where
  "upd_pm s mid f = s\<lparr>pmap := (pmap s)[nat mid := f (pmap s ! nat mid)]\<rparr>"

section \<open>Protection keys of cubicles\<close>

definition prot_init :: "mon \<Rightarrow> int \<Rightarrow> mon res" where
  "prot_init s mid =
     bindr (pm s mid) (\<lambda>p.
       case pkey_mprotect (mpk s) (pm_start p) (pm_size p) (pm_pkey p) of
         None \<Rightarrow> Inl Hang
       | Some m \<Rightarrow> Inr (s\<lparr>mpk := m\<rparr>))"

definition cmp_lock :: "mon \<Rightarrow> int \<Rightarrow> mon res" where
  "cmp_lock s mid =
     bindr (pm s mid) (\<lambda>p.
       if pm_pkey p = 0 then Inl Hang
       else case pkey_set (mpk s) (pm_pkey p) True of
              None \<Rightarrow> Inl Hang
            | Some m \<Rightarrow> Inr (s\<lparr>mpk := m\<rparr>))"

definition cmp_unlock :: "mon \<Rightarrow> int \<Rightarrow> mon res" where
  "cmp_unlock s mid =
     bindr (pm s mid) (\<lambda>p.
       case pkey_set (mpk s) (pm_pkey p) False of
         None \<Rightarrow> Inl Hang
       | Some m \<Rightarrow> Inr (s\<lparr>mpk := m\<rparr>))"

definition cmp_attach :: "mon \<Rightarrow> int \<Rightarrow> u64 \<Rightarrow> u64 \<Rightarrow> mon res" where
  "cmp_attach s mid start sz =
     (if sz = 0 then Inr s
      else bindr (pm s mid) (\<lambda>p.
        case pkey_mprotect (mpk s) start sz (pm_pkey p) of
          None \<Rightarrow> Inl Hang
        | Some m \<Rightarrow> Inr (s\<lparr>mpk := m\<rparr>)))"

section \<open>Registration of window tables\<close>

text \<open>The argument \<open>nrecords\<close> is the \<^verbatim>\<open>int\<close> that the C code copies from \<^verbatim>\<open>*nr\<close>.\<close>

definition add_ipc_tab_stack :: "mon \<Rightarrow> int \<Rightarrow> u64 \<Rightarrow> int \<Rightarrow> mon res" where
  "add_ipc_tab_stack s mid ipc_tab nrecords =
     bindr (pm s mid) (\<lambda>_. Inr (upd_pm s mid
       (\<lambda>p. p\<lparr>ipc_tab_stack_ptr := ipc_tab, ipc_stack_nr := nrecords\<rparr>)))"

definition add_ipc_tab_globals :: "mon \<Rightarrow> int \<Rightarrow> u64 \<Rightarrow> int \<Rightarrow> mon res" where
  "add_ipc_tab_globals s mid ipc_tab nrecords =
     bindr (pm s mid) (\<lambda>_. Inr (upd_pm s mid
       (\<lambda>p. p\<lparr>ipc_tab_globals_ptr := ipc_tab, ipc_globals_nr := nrecords\<rparr>)))"

definition add_ipc_tab_heap :: "mon \<Rightarrow> int \<Rightarrow> u64 \<Rightarrow> int \<Rightarrow> mon res" where
  "add_ipc_tab_heap s mid ipc_tab nrecords =
     bindr (pm s mid) (\<lambda>_. Inr (upd_pm s mid
       (\<lambda>p. p\<lparr>ipc_tab_heap_ptr := ipc_tab, ipc_heap_nr := nrecords\<rparr>)))"

section \<open>Stacks and heap pages\<close>

definition stack_attach :: "mon \<Rightarrow> int \<Rightarrow> u64 \<Rightarrow> u64 \<Rightarrow> mon res" where
  "stack_attach s mid start sz =
     (if sz = 0 then Inr s
      else if length (stacks s) = SMAX then Inl Hang
      else bindr (pm s mid) (\<lambda>p.
        bindr (cmp_attach s mid start sz) (\<lambda>s'.
          Inr (s'\<lparr>stacks := stacks s' @
            [\<lparr>st_name = pm_name p, st_start = start, st_size = sz, st_mid = mid\<rparr>]\<rparr>))))"

text \<open>
  The loop of \<^verbatim>\<open>heap_attach\<close> writes one character per page, for \<open>i\<close> below \<open>n\<close>; a write outside the
  array stops the program.
\<close>

definition heap_cfg_write :: "int \<Rightarrow> int \<Rightarrow> nat \<Rightarrow> mon \<Rightarrow> mon res" where
  "heap_cfg_write idx mid i s =
     (if 0 \<le> idx + int i \<and> idx + int i < int (heap_cfg_len s)
      then Inr (s\<lparr>heap_cfg := (heap_cfg s)(nat (idx + int i) := to_char mid)\<rparr>)
      else Inl Oob)"

definition heap_attach :: "mon \<Rightarrow> int \<Rightarrow> int \<Rightarrow> u64 \<Rightarrow> mon res" where
  "heap_attach s mid start sz =
     (if sz = 0 then Inr s
      else if \<not> (heap_start s \<le> start \<and> start < heap_end s) then Inl Hang
      else let idx = to_int ((start - heap_start s) div 4096)
           in bindr (iterr (heap_cfg_write idx mid) [0..<unat sz div 4096] s)
                (\<lambda>s'. cmp_attach s' mid (word_of_int start) sz))"

definition setup_heap :: "mon \<Rightarrow> u64 \<Rightarrow> u64 \<Rightarrow> mon" where
  "setup_heap s base len =
     s\<lparr>heap_cfg := (\<lambda>_. to_char E_UKALLOC), heap_cfg_len := unat len,
       heap_start := sint base, heap_end := sint base + sint len\<rparr>"

section \<open>Address look-ups\<close>

text \<open>
  \<^verbatim>\<open>mem_to_lib\<close> searches the whole module table; the result is the name of the first
  module whose range covers the address.
\<close>

definition covers :: "u64 \<Rightarrow> u64 \<Rightarrow> u64 \<Rightarrow> bool" where
  "covers start sz addr \<longleftrightarrow> start \<le> addr \<and> addr < start + sz"

definition mem_to_lib :: "mon \<Rightarrow> u64 \<Rightarrow> string option" where
  "mem_to_lib s addr =
     map_option pm_name (find (\<lambda>p. covers (pm_start p) (pm_size p) addr) (pmap s))"

definition get_module_id :: "mon \<Rightarrow> string option \<Rightarrow> int" where
  "get_module_id s name =
     (case name of None \<Rightarrow> - 1
      | Some n \<Rightarrow> name_index 0 (map pm_name (take (pmap_max s) (pmap s))) n)"

definition stack_to_lib_id_old :: "mon \<Rightarrow> u64 \<Rightarrow> int" where
  "stack_to_lib_id_old s addr =
     (case find (\<lambda>t. covers (st_start t) (st_size t) addr) (stacks s) of
        None \<Rightarrow> - 1 | Some t \<Rightarrow> st_mid t)"

text \<open>The page of an address in \<^verbatim>\<open>mmap_cfg\<close>; the address is a signed \<^verbatim>\<open>long\<close> here.\<close>

definition in_mmap :: "mon \<Rightarrow> u64 \<Rightarrow> bool" where
  "in_mmap s a \<longleftrightarrow> mmap_start s \<le> sint a \<and> sint a < mmap_end s"

definition mmap_at :: "mon \<Rightarrow> u64 \<Rightarrow> int" where
  "mmap_at s a = mmap_cfg s ! nat ((sint a - mmap_start s) div 4096)"

definition mem_to_lib_id :: "mon \<Rightarrow> u64 \<Rightarrow> int" where
  "mem_to_lib_id s a =
     (if \<not> in_mmap s a then - 1
      else let mid = mmap_at s a in if mid AND 128 \<noteq> 0 then - 1 else mid)"

definition stack_to_lib_id :: "mon \<Rightarrow> u64 \<Rightarrow> int" where
  "stack_to_lib_id s a =
     (if \<not> in_mmap s a then - 1
      else let mid = mmap_at s a in if mid AND 128 \<noteq> 0 then mid AND 127 else - 1)"

definition stack_to_lib :: "mon \<Rightarrow> u64 \<Rightarrow> string option res" where
  "stack_to_lib s a =
     (if \<not> in_mmap s a then Inr None
      else let mid = mmap_at s a
           in if mid = - 1 then Inr None
              else if mid AND 128 \<noteq> 0 then bindr (pm s (mid AND 127)) (\<lambda>p. Inr (Some (pm_name p)))
              else Inr None)"

definition in_heap :: "mon \<Rightarrow> u64 \<Rightarrow> bool" where
  "in_heap s a \<longleftrightarrow> heap_start s \<le> sint a \<and> sint a < heap_end s"

definition heap_at :: "mon \<Rightarrow> u64 \<Rightarrow> int" where
  "heap_at s a = heap_cfg s (nat ((sint a - heap_start s) div 4096))"

definition heap_to_lib_id :: "mon \<Rightarrow> u64 \<Rightarrow> int" where
  "heap_to_lib_id s a = (if \<not> in_heap s a then - 1 else heap_at s a)"

definition heap_to_lib :: "mon \<Rightarrow> u64 \<Rightarrow> string option res" where
  "heap_to_lib s a =
     (if \<not> in_heap s a then Inr None
      else bindr (pm s (heap_at s a)) (\<lambda>p. Inr (Some (pm_name p))))"

section \<open>Effects of the primitives\<close>

definition valid_mid :: "mon \<Rightarrow> int \<Rightarrow> bool" where
  "valid_mid s mid \<longleftrightarrow> 0 \<le> mid \<and> mid < int (length (pmap s))"

definition mod_of :: "mon \<Rightarrow> int \<Rightarrow> proc_map_s" where
  "mod_of s mid = pmap s ! nat mid"

abbreviation key_of :: "mon \<Rightarrow> int \<Rightarrow> nat" where
  "key_of s mid \<equiv> pm_pkey (mod_of s mid)"

lemma pm_Inr [mon_simps]: "pm s mid = Inr p \<longleftrightarrow> valid_mid s mid \<and> p = mod_of s mid"
  by (auto simp: pm_def valid_mid_def mod_of_def)

lemma pm_valid: "valid_mid s mid \<Longrightarrow> pm s mid = Inr (mod_of s mid)"
  by (simp add: mon_simps)

lemma valid_mid_mpk [simp]: "valid_mid (s\<lparr>mpk := m\<rparr>) mid = valid_mid s mid"
  by (simp add: valid_mid_def)

lemma mod_of_mpk [simp]: "mod_of (s\<lparr>mpk := m\<rparr>) mid = mod_of s mid"
  by (simp add: mod_of_def)

lemma cmp_lock_Inr [mon_simps]:
  "cmp_lock s mid = Inr s' \<longleftrightarrow>
     valid_mid s mid \<and> 0 < key_of s mid \<and> key_of s mid < 16 \<and>
     s' = s\<lparr>mpk := (mpk s)\<lparr>pkru_ad := (pkru_ad (mpk s))(key_of s mid := True)\<rparr>\<rparr>"
  by (auto simp: cmp_lock_def res_simps mon_simps pkey_set_def)

lemma cmp_unlock_Inr [mon_simps]:
  "cmp_unlock s mid = Inr s' \<longleftrightarrow>
     valid_mid s mid \<and> key_of s mid < 16 \<and>
     s' = s\<lparr>mpk := (mpk s)\<lparr>pkru_ad := (pkru_ad (mpk s))(key_of s mid := False)\<rparr>\<rparr>"
  by (auto simp: cmp_unlock_def res_simps mon_simps pkey_set_def)

lemma cmp_attach_Inr:
  "sz \<noteq> 0 \<Longrightarrow> cmp_attach s mid start sz = Inr s' \<longleftrightarrow>
     valid_mid s mid \<and>
     (\<exists>m. pkey_mprotect (mpk s) start sz (key_of s mid) = Some m \<and> s' = s\<lparr>mpk := m\<rparr>)"
  by (auto simp: cmp_attach_def res_simps mon_simps split: option.splits)

lemma cmp_attach_page [mon_simps]:
  "cmp_attach s mid (page_base a) 4096 = Inr s' \<longleftrightarrow>
     valid_mid s mid \<and> key_of s mid \<in> set (pkeys (mpk s)) \<and>
     page_key (mpk s) (page_of a) \<noteq> None \<and>
     s' = s\<lparr>mpk := (mpk s)\<lparr>page_key := (page_key (mpk s))(page_of a \<mapsto> key_of s mid)\<rparr>\<rparr>"
  using page_of_less [of a] by (auto simp: cmp_attach_Inr pkey_mprotect_page)

lemma cmp_attach_frame:
  "cmp_attach s mid start sz = Inr s' \<Longrightarrow> s' = s\<lparr>mpk := mpk s'\<rparr>"
  by (auto simp: cmp_attach_def res_simps split: if_splits option.splits)

lemma cmp_attach_keys:
  assumes "cmp_attach s mid start sz = Inr s'" "sz \<noteq> 0"
  shows "page_key (mpk s') =
    (\<lambda>p. if in_pages start sz p then Some (key_of s mid) else page_key (mpk s) p)"
    and "page_aligned start"
  using assms by (auto simp: cmp_attach_Inr dest: pkey_mprotect_SomeD(3))
    (auto simp: pkey_mprotect_def split: if_splits)

text \<open>The loop of \<^const>\<open>heap_attach\<close> fills a range of the ownership map.\<close>

lemma heap_cfg_write_loop:
  assumes "iterr (heap_cfg_write idx mid) [0..<n] s = Inr s'" "0 \<le> idx"
  shows "s' = s\<lparr>heap_cfg := (\<lambda>j. if nat idx \<le> j \<and> j < nat idx + n then to_char mid
                              else heap_cfg s j)\<rparr>"
  using assms(1)
proof (induction n arbitrary: s')
  case 0
  then show ?case by (auto intro!: mon.equality)
next
  case (Suc n)
  from Suc.prems obtain t where t: "iterr (heap_cfg_write idx mid) [0..<n] s = Inr t"
    and s': "heap_cfg_write idx mid n t = Inr s'"
    by (auto simp: iterr_append res_simps)
  have nat: "nat (idx + int n) = nat idx + n" using assms(2) by simp
  show ?case
    using s' unfolding Suc.IH [OF t]
    by (auto simp: heap_cfg_write_def nat fun_eq_iff less_Suc_eq split: if_splits)
qed

lemma heap_cfg_write_loop_ok:
  assumes "0 \<le> idx" "idx + int n \<le> int (heap_cfg_len s)"
  shows "\<exists>s'. iterr (heap_cfg_write idx mid) [0..<n] s = Inr s'"
  using assms(2)
proof (induction n)
  case (Suc n)
  then obtain t where t: "iterr (heap_cfg_write idx mid) [0..<n] s = Inr t" by auto
  from heap_cfg_write_loop [OF t assms(1)] have "heap_cfg_len t = heap_cfg_len s" by simp
  with Suc.prems assms(1) have "heap_cfg_write idx mid n t \<noteq> Inl e" for e
    by (simp add: heap_cfg_write_def)
  then obtain u where "heap_cfg_write idx mid n t = Inr u"
    by (cases "heap_cfg_write idx mid n t") auto
  with t show ?case by (simp add: iterr_append)
qed simp

section \<open>Ownership of heap pages\<close>

text \<open>
  What \<^const>\<open>setup_heap\<close> establishes for a page-aligned region below the canonical
  boundary. The bound of 8 TiB keeps the page index within \<^verbatim>\<open>int\<close>.
\<close>

definition heap_wf :: "mon \<Rightarrow> bool" where
  "heap_wf s \<longleftrightarrow> 0 \<le> heap_start s \<and> heap_start s mod 4096 = 0 \<and> heap_end s < 2 ^ 63 \<and>
     heap_end s - heap_start s \<le> 2 ^ 43 \<and> heap_end s - heap_start s \<le> int (heap_cfg_len s)"

lemma heap_attach_Inr:
  assumes "heap_attach s mid start sz = Inr s'" "sz \<noteq> 0" "heap_wf s"
  shows "s' = s\<lparr>heap_cfg := (\<lambda>j. if nat ((start - heap_start s) div 4096) \<le> j \<and>
             j < nat ((start - heap_start s) div 4096) + unat sz div 4096
           then to_char mid else heap_cfg s j), mpk := mpk s'\<rparr>"
    "page_key (mpk s') = (\<lambda>p. if in_pages (word_of_int start) sz p then Some (key_of s mid)
           else page_key (mpk s) p)"
    "page_aligned (word_of_int start)" "heap_start s \<le> start" "start < heap_end s" "valid_mid s mid"
proof -
  let ?idx = "(start - heap_start s) div 4096"
  from assms(1,2) have rng: "heap_start s \<le> start" "start < heap_end s"
    by (auto simp: heap_attach_def split: if_splits)
  with assms(3) have idx: "to_int ?idx = ?idx" "0 \<le> ?idx"
    by (auto simp: heap_wf_def)
  from assms(1,2) rng obtain t where t: "iterr (heap_cfg_write ?idx mid) [0..<unat sz div 4096] s = Inr t"
    and att: "cmp_attach t mid (word_of_int start) sz = Inr s'"
    by (auto simp: heap_attach_def Let_def idx(1) res_simps)
  note t' = heap_cfg_write_loop [OF t idx(2)]
  have m: "mod_of t mid = mod_of s mid" "valid_mid t mid = valid_mid s mid" "mpk t = mpk s"
    by (simp_all add: t' mod_of_def valid_mid_def)
  show "heap_start s \<le> start" "start < heap_end s" by fact+
  show "page_aligned (word_of_int start)"
    using cmp_attach_keys(2) [OF att assms(2)] .
  show "page_key (mpk s') = (\<lambda>p. if in_pages (word_of_int start) sz p then Some (key_of s mid)
           else page_key (mpk s) p)"
    using cmp_attach_keys(1) [OF att assms(2)] unfolding m .
  show "valid_mid s mid" using att assms(2) by (simp add: cmp_attach_Inr m)
  show "s' = s\<lparr>heap_cfg := (\<lambda>j. if nat ?idx \<le> j \<and> j < nat ?idx + unat sz div 4096
           then to_char mid else heap_cfg s j), mpk := mpk s'\<rparr>"
    using cmp_attach_frame [OF att] unfolding t' .
qed

lemma heap_attach_ownership:
  assumes "heap_attach s mid start sz = Inr s'" "sz \<noteq> 0" "unat sz mod 4096 = 0"
    and wf: "heap_wf s" and mid: "mid < 128" and a: "in_heap s a"
  shows "heap_to_lib_id s' a =
           (if start \<le> sint a \<and> sint a < start + uint sz then mid else heap_to_lib_id s a)"
    and "page_key (mpk s') (page_of a) =
           (if start \<le> sint a \<and> sint a < start + uint sz then Some (key_of s mid)
            else page_key (mpk s) (page_of a))"
proof -
  note h = heap_attach_Inr [OF assms(1,2) wf]
  let ?S = "start div 4096" and ?A = "sint a div 4096" and ?H = "heap_start s div 4096"
  let ?n = "unat sz div 4096"
  have pos: "0 \<le> heap_start s" "heap_start s mod 4096 = 0" "0 \<le> start" "start < 2 ^ 63"
    using wf h(4,5) by (auto simp: heap_wf_def)
  with a have apos: "0 \<le> sint a" "heap_start s \<le> sint a" by (auto simp: in_heap_def)
  have start: "unat (word_of_int start :: u64) = nat start"
    using pos by (simp add: unat_eq_nat_uint uint_word_of_int_eq take_bit_int_eq_self)
  have "nat start mod 4096 = 0" using h(3) by (simp add: page_aligned_iff start)
  then have "int (nat start mod 4096) = 0" by (simp only: of_nat_0)
  then have al: "start mod 4096 = 0" using pos(3) by (simp add: zmod_int)
  have n: "uint sz = 4096 * int ?n"
  proof -
    have "unat sz = 4096 * ?n" using assms(3) by (metis add.right_neutral mult_div_mod_eq)
    then have "int (unat sz) = int (4096 * ?n)" by (rule arg_cong)
    then show ?thesis by (simp only: uint_nat of_nat_mult of_nat_numeral)
  qed
  note rng = page_range_int [OF al, of "sint a" ?n, folded n]
  have le: "?H \<le> ?S" "?H \<le> ?A" using h(4) apos by (simp_all add: zdiv_mono1)
  have idx: "(nat ((start - heap_start s) div 4096) \<le> nat ((sint a - heap_start s) div 4096) \<and>
      nat ((sint a - heap_start s) div 4096) < nat ((start - heap_start s) div 4096) + ?n)
      \<longleftrightarrow> ?S \<le> ?A \<and> ?A < ?S + int ?n"
    unfolding div_shift [OF pos(2)] by (rule nat_range_shift [OF le])
  have tc: "to_char mid = mid" using mid h(6) by (simp add: valid_mid_def)
  have fields: "heap_start s' = heap_start s" "heap_end s' = heap_end s"
    "heap_cfg s' = (\<lambda>j. if nat ((start - heap_start s) div 4096) \<le> j \<and>
             j < nat ((start - heap_start s) div 4096) + ?n
           then to_char mid else heap_cfg s j)"
    by (subst h(1), simp)+
  then have heap': "in_heap s' a" using a by (simp add: in_heap_def)
  show "heap_to_lib_id s' a =
      (if start \<le> sint a \<and> sint a < start + uint sz then mid else heap_to_lib_id s a)"
    unfolding rng idx [symmetric] heap_to_lib_id_def heap_at_def fields tc using a heap' by simp
  have "pages_of_len sz = ?n" using assms(3) by (rule pages_of_len_exact)
  moreover have "int (page_of a) = ?A"
    by (simp only: page_of_def sint_nonneg_uint [OF apos(1)] zdiv_int of_nat_numeral)
  moreover have "int (page_of (word_of_int start)) = ?S"
    using pos(3) by (simp only: page_of_def start zdiv_int of_nat_numeral nat_0_le)
  ultimately have "in_pages (word_of_int start) sz (page_of a) \<longleftrightarrow> ?S \<le> ?A \<and> ?A < ?S + int ?n"
    unfolding in_pages_def by (metis of_nat_add of_nat_le_iff of_nat_less_iff)
  then show "page_key (mpk s') (page_of a) =
           (if start \<le> sint a \<and> sint a < start + uint sz then Some (key_of s mid)
            else page_key (mpk s) (page_of a))"
    unfolding rng h(2) by simp
qed

lemma setup_heap_wf:
  assumes "0 \<le> sint base" "sint base mod 4096 = 0" "0 \<le> sint len" "sint len \<le> 2 ^ 43"
    "sint base + sint len < 2 ^ 63"
  shows "heap_wf (setup_heap s base len)"
    and "in_heap (setup_heap s base len) a \<Longrightarrow> heap_to_lib_id (setup_heap s base len) a = E_UKALLOC"
proof -
  have "sint len = int (unat len)" by (rule sint_nonneg_uint [OF assms(3)])
  with assms show "heap_wf (setup_heap s base len)"
    by (simp add: heap_wf_def setup_heap_def)
  show "heap_to_lib_id (setup_heap s base len) a = E_UKALLOC" if "in_heap (setup_heap s base len) a"
    using that by (simp add: heap_to_lib_id_def heap_at_def) (simp add: setup_heap_def E_UKALLOC_def)
qed

lemma heap_attach_total:
  assumes wf: "heap_wf s" and mid: "valid_mid s mid" "key_of s mid \<in> set (pkeys (mpk s))"
    and rng: "heap_start s \<le> start" "start mod 4096 = 0" "start + 4096 * int n \<le> heap_end s" "0 < n"
    and mapped: "\<And>p. start div 4096 \<le> int p \<Longrightarrow> int p < start div 4096 + int n \<Longrightarrow>
      page_key (mpk s) p \<noteq> None"
  shows "\<exists>s'. heap_attach s mid start (of_nat n * 4096) = Inr s'"
proof -
  from wf have h: "0 \<le> heap_start s" "heap_start s mod 4096 = 0" "heap_end s < 2 ^ 63"
    "heap_end s - heap_start s \<le> 2 ^ 43" "heap_end s - heap_start s \<le> int (heap_cfg_len s)"
    by (auto simp: heap_wf_def)
  have n: "n < 2 ^ 52" using h rng by simp
  note sz = unat_pages [OF n]
  have sz0: "(of_nat n * 4096 :: u64) \<noteq> 0" using sz rng(4) by (metis unat_0 mult_is_0 not_less0 zero_neq_numeral)
  let ?idx = "(start - heap_start s) div 4096"
  have idx: "to_int ?idx = ?idx" "0 \<le> ?idx" using h rng by auto
  from rng(2) h(2) obtain k l where kl: "start = 4096 * k" "heap_start s = 4096 * l"
    by (auto simp: mod_eq_0_iff_dvd elim!: dvdE)
  have "?idx + int n \<le> int (heap_cfg_len s)" using h rng unfolding kl by auto
  from heap_cfg_write_loop_ok [OF idx(2) this] obtain t
    where t: "iterr (heap_cfg_write ?idx mid) [0..<n] s = Inr t" by blast
  note t' = heap_cfg_write_loop [OF t idx(2)]
  have ust: "unat (word_of_int start :: u64) = nat start"
    using h rng by (simp add: unat_eq_nat_uint uint_word_of_int_eq take_bit_int_eq_self)
  have al: "page_aligned (word_of_int start)"
    using rng(2) h rng by (simp add: page_aligned_iff ust) (simp add: nat_mod_as_int)
  have pg: "int (page_of (word_of_int start)) = start div 4096"
    using h rng by (simp only: page_of_def ust zdiv_int of_nat_numeral nat_0_le)
  have pl: "pages_of_len (of_nat n * 4096) = n" by (simp add: pages_of_len_exact sz)
  have "start div 4096 + int n \<le> 4503599627370496" using h rng by (simp add: kl)
  then have "page_of (word_of_int start) + n \<le> 4503599627370496" using pg by linarith
  moreover have "list_all (\<lambda>i. page_key (mpk s) (page_of (word_of_int start) + i) \<noteq> None) [0..<n]"
    using mapped by (simp add: list_all_iff pg)
  ultimately obtain m where "pkey_mprotect (mpk s) (word_of_int start) (of_nat n * 4096) (key_of s mid) = Some m"
    using al sz0 mid by (simp add: pkey_mprotect_def pl)
  then have "\<exists>s'. cmp_attach t mid (word_of_int start) (of_nat n * 4096) = Inr s'"
    using mid sz0 by (simp add: cmp_attach_Inr t' valid_mid_def mod_of_def)
  with t rng sz0 h show ?thesis
    by (auto simp: heap_attach_def Let_def idx(1) sz)
qed

text \<open>
  C8 (page hand-over): handing a page-aligned range of mapped heap pages to a cubicle succeeds,
  and afterwards the ownership map and the protection keys agree on exactly that range: every
  heap address in it belongs to the cubicle and its page has the cubicle's key, and every
  other heap address keeps its owner and its page its key.
\<close>

theorem heap_attach_transfers_pages:
  assumes wf: "heap_wf s" and mid: "valid_mid s mid" "mid < 128" "key_of s mid \<in> set (pkeys (mpk s))"
    and rng: "heap_start s \<le> start" "start mod 4096 = 0" "start + 4096 * int n \<le> heap_end s" "0 < n"
    and mapped: "\<And>p. start div 4096 \<le> int p \<Longrightarrow> int p < start div 4096 + int n \<Longrightarrow>
      page_key (mpk s) p \<noteq> None"
  shows "\<exists>s'. heap_attach s mid start (of_nat n * 4096) = Inr s' \<and>
     (\<forall>a. in_heap s a \<longrightarrow>
        (if start \<le> sint a \<and> sint a < start + 4096 * int n
         then heap_to_lib_id s' a = mid \<and> page_key (mpk s') (page_of a) = Some (key_of s mid)
         else heap_to_lib_id s' a = heap_to_lib_id s a \<and>
              page_key (mpk s') (page_of a) = page_key (mpk s) (page_of a)))"
proof -
  obtain s' where s': "heap_attach s mid start (of_nat n * 4096) = Inr s'"
    using heap_attach_total [OF wf mid(1,3) rng mapped] by blast
  have n: "n < 2 ^ 52" using wf rng by (simp add: heap_wf_def)
  note sz = unat_pages [OF n]
  have sz0: "(of_nat n * 4096 :: u64) \<noteq> 0" using sz rng(4) by (metis unat_0 mult_is_0 not_less0 zero_neq_numeral)
  have "int (unat (of_nat n * 4096 :: u64)) = 4096 * int n" by (simp only: sz of_nat_mult of_nat_numeral mult.commute)
  then have u: "uint (of_nat n * 4096 :: u64) = 4096 * int n" by (simp only: uint_nat)
  have "unat (of_nat n * 4096 :: u64) mod 4096 = 0" by (simp add: sz)
  note own = heap_attach_ownership [OF s' sz0 this wf mid(2), unfolded u]
  from s' own show ?thesis by (auto split: if_splits)
qed

end
