(* ===== verification/Monitor_Fault.thy ===== *)
theory Monitor_Fault
  imports Monitor
begin

text \<open>
  The monitor's protection-fault handler (\<^verbatim>\<open>sig_handler\<close> of \<^verbatim>\<open>kernel/loader.c\<close>): the
  classification of a fault, the three window checks, and the handler that re-keys the
  faulting page for the accessing cubicle. The second half states the access policy
  declaratively and proves that the handler enforces exactly it, and lifts the result to
  runs of the system.
\<close>

section \<open>Window checks\<close>

text \<open>
  The C expression \<^verbatim>\<open>1 << caller\<close> has type \<^verbatim>\<open>int\<close> and is converted to
  \<^verbatim>\<open>unsigned long\<close> for the conjunction with the mask; a shift by a negative amount or by 32 or
  more is undefined. Descriptors are 24 bytes apart.
\<close>

definition caller_bit :: "int \<Rightarrow> u64 res" where
  "caller_bit caller =
     (if 0 \<le> caller \<and> caller < 32 then Inr (signed (push_bit (nat caller) (1 :: u32)))
      else Inl Undef)"

definition ipc_at :: "mon \<Rightarrow> u64 \<Rightarrow> nat \<Rightarrow> ipc_struct" where
  "ipc_at s ptr i = ipc_mem s (ptr + of_nat i * 24)"

text \<open>
  The loop over a window table. The loops for stack and heap windows (\<open>slack\<close>) also accept
  an address within 4096 bytes of the start of a window.
\<close>

fun window_scan :: "mon \<Rightarrow> u64 \<Rightarrow> bool \<Rightarrow> int \<Rightarrow> u64 \<Rightarrow> nat list \<Rightarrow> bool res" where
  "window_scan s ptr slack caller addr [] = Inr False"
| "window_scan s ptr slack caller addr (i # is) =
     bindr (caller_bit caller) (\<lambda>b.
       let w = ipc_at s ptr i
       in if ipc_mask w AND b = 0 then window_scan s ptr slack caller addr is
          else if ipc_begin w \<le> addr \<and> addr < ipc_begin w + ipc_size w then Inr True
          else if slack \<and> ipc_begin w \<le> addr \<and> addr < ipc_begin w + 4096 then Inr True
          else window_scan s ptr slack caller addr is)"

text \<open>
  What the three checks share: the caller must be isolated, the callee must have a window
  table, and the table is read with the callee's key enabled; the key is disabled again when
  a window is found, and stays enabled when none is.
\<close>

definition check_table :: "mon \<Rightarrow> int \<Rightarrow> int \<Rightarrow> u64 \<Rightarrow> bool \<Rightarrow> u64 \<Rightarrow> int \<Rightarrow> (bool \<times> mon) res" where
  "check_table s caller callee addr slack ptr nr =
     bindr (cmp_unlock s callee) (\<lambda>s1.
       bindr (window_scan s1 ptr slack caller addr [0..<nat nr]) (\<lambda>hit.
         if hit then bindr (cmp_lock s1 callee) (\<lambda>s2. Inr (True, s2))
         else Inr (False, s1)))"

definition should_map :: "mon \<Rightarrow> int \<Rightarrow> int \<Rightarrow> u64 \<Rightarrow> (bool \<times> mon) res" where
  "should_map s caller callee addr =
     (if caller = E_VFSCORE \<or> callee = E_LWIP then Inr (True, s)
      else bindr (pm s caller) (\<lambda>pc.
        if \<not> pm_must pc then Inl Hang
        else bindr (pm s callee) (\<lambda>pe.
          if ipc_tab_globals_ptr pe = 0 then Inl Hang
          else check_table s caller callee addr False
                 (ipc_tab_globals_ptr pe) (ipc_globals_nr pe))))"

definition should_map_stack :: "mon \<Rightarrow> int \<Rightarrow> int \<Rightarrow> u64 \<Rightarrow> (bool \<times> mon) res" where
  "should_map_stack s caller callee addr =
     (if caller = callee then Inr (True, s)
      else bindr (pm s caller) (\<lambda>pc.
        if \<not> pm_must pc then Inl Hang
        else bindr (pm s callee) (\<lambda>pe.
          if ipc_tab_stack_ptr pe = 0 then Inl Hang
          else check_table s caller callee addr True
                 (ipc_tab_stack_ptr pe) (ipc_stack_nr pe))))"

definition should_map_heap :: "mon \<Rightarrow> int \<Rightarrow> int \<Rightarrow> u64 \<Rightarrow> (bool \<times> mon) res" where
  "should_map_heap s caller callee addr =
     (if callee = caller then Inr (True, s)
      else bindr (pm s callee) (\<lambda>pe.
        bindr (pm s caller) (\<lambda>pc.
          if pm_pkey pe = pm_pkey pc then Inr (True, s)
          else if callee = E_APP \<and> caller = E_LINUXUPLAT then Inr (True, s)
          else if \<not> pm_must pc then Inl Hang
          else if ipc_tab_heap_ptr pe = 0 then Inl Hang
          else check_table s caller callee addr True
                 (ipc_tab_heap_ptr pe) (ipc_heap_nr pe))))"

section \<open>Classification of a fault\<close>

datatype fault_state = RET_STACK_TO_WRAP | ACCESS_TO_GLOBAL | ACCESS_TO_STACK | ACCESS_TO_HEAP

text \<open>
  The accessing cubicle is the one whose code runs, or, when that module is not isolated,
  the one on whose stack it runs.
\<close>

definition fault_caller :: "mon \<Rightarrow> int \<Rightarrow> u64 \<Rightarrow> int res" where
  "fault_caller s rip_lib rsp =
     bindr (pm s rip_lib) (\<lambda>p. Inr (if pm_must p then rip_lib else stack_to_lib_id s rsp))"

definition get_state :: "mon \<Rightarrow> u64 \<Rightarrow> u64 \<Rightarrow> u64 \<Rightarrow> (fault_state \<times> int \<times> int) res" where
  "get_state s rip rsp addr =
     (let rip_lib = mem_to_lib_id s rip
      in if rip_lib = - 1
         then Inr (RET_STACK_TO_WRAP, stack_to_lib_id s rsp, stack_to_lib_id s addr)
         else let si_lib = mem_to_lib_id s addr
         in if si_lib \<noteq> - 1
            then bindr (fault_caller s rip_lib rsp) (\<lambda>c. Inr (ACCESS_TO_GLOBAL, c, si_lib))
            else let si_stack = stack_to_lib_id s addr
            in if si_stack \<noteq> - 1
               then bindr (fault_caller s rip_lib rsp) (\<lambda>c. Inr (ACCESS_TO_STACK, c, si_stack))
               else let si_heap = heap_to_lib_id s addr
               in if si_heap \<noteq> - 1
                  then bindr (fault_caller s rip_lib rsp) (\<lambda>c. Inr (ACCESS_TO_HEAP, c, si_heap))
                  else Inl Hang)"

section \<open>The handler\<close>

definition remap_if :: "(bool \<times> mon) res \<Rightarrow> int \<Rightarrow> u64 \<Rightarrow> mon res" where
  "remap_if r caller addr =
     bindr r (\<lambda>(ok, s'). if ok then cmp_attach s' caller (page_base addr) 4096 else Inl Hang)"

definition sig_handler :: "mon \<Rightarrow> u64 \<Rightarrow> u64 \<Rightarrow> u64 \<Rightarrow> mon res" where
  "sig_handler s rip rsp addr =
     bindr (get_state s rip rsp addr) (\<lambda>(st, caller, callee).
       case st of
         RET_STACK_TO_WRAP \<Rightarrow>
           if caller = callee then cmp_attach s caller (page_base addr) 4096 else Inl Hang
       | ACCESS_TO_GLOBAL \<Rightarrow> remap_if (should_map s caller callee addr) caller addr
       | ACCESS_TO_STACK \<Rightarrow> remap_if (should_map_stack s caller callee addr) caller addr
       | ACCESS_TO_HEAP \<Rightarrow> remap_if (should_map_heap s caller callee addr) caller addr)"

section \<open>The access policy\<close>

text \<open>
  A window of a table is open to a cubicle at an address when its mask names the cubicle
  and its range covers the address. With \<open>slack\<close>, the first 4096 bytes from its start
  count as covered.
\<close>

definition open_window :: "mon \<Rightarrow> u64 \<Rightarrow> int \<Rightarrow> bool \<Rightarrow> int \<Rightarrow> u64 \<Rightarrow> bool" where
  "open_window s ptr nr slack c addr \<longleftrightarrow>
     (\<exists>i < nat nr. \<exists>b. caller_bit c = Inr b \<and> ipc_mask (ipc_at s ptr i) AND b \<noteq> 0 \<and>
        (covers (ipc_begin (ipc_at s ptr i)) (ipc_size (ipc_at s ptr i)) addr \<or>
         slack \<and> covers (ipc_begin (ipc_at s ptr i)) 4096 addr))"

fun allowed :: "mon \<Rightarrow> fault_state \<Rightarrow> int \<Rightarrow> int \<Rightarrow> u64 \<Rightarrow> bool" where
  "allowed s RET_STACK_TO_WRAP c e addr \<longleftrightarrow> c = e"
| "allowed s ACCESS_TO_GLOBAL c e addr \<longleftrightarrow>
     c = E_VFSCORE \<or> e = E_LWIP \<or>
     open_window s (ipc_tab_globals_ptr (mod_of s e)) (ipc_globals_nr (mod_of s e)) False c addr"
| "allowed s ACCESS_TO_STACK c e addr \<longleftrightarrow>
     c = e \<or>
     open_window s (ipc_tab_stack_ptr (mod_of s e)) (ipc_stack_nr (mod_of s e)) True c addr"
| "allowed s ACCESS_TO_HEAP c e addr \<longleftrightarrow>
     c = e \<or> key_of s e = key_of s c \<or> e = E_APP \<and> c = E_LINUXUPLAT \<or>
     open_window s (ipc_tab_heap_ptr (mod_of s e)) (ipc_heap_nr (mod_of s e)) True c addr"

section \<open>The loop implements the policy\<close>

lemma window_scan_Inr:
  "window_scan s ptr slack c addr is = Inr hit \<Longrightarrow>
     hit \<longleftrightarrow> (\<exists>i \<in> set is. \<exists>b. caller_bit c = Inr b \<and> ipc_mask (ipc_at s ptr i) AND b \<noteq> 0 \<and>
        (covers (ipc_begin (ipc_at s ptr i)) (ipc_size (ipc_at s ptr i)) addr \<or>
         slack \<and> covers (ipc_begin (ipc_at s ptr i)) 4096 addr))"
proof (induction "is" arbitrary: hit)
  case Nil
  then show ?case by simp
next
  case (Cons i "is")
  then show ?case
    by (auto simp: Let_def res_simps covers_def split: if_splits)
qed

lemma window_scan_total:
  "0 \<le> c \<Longrightarrow> c < 32 \<Longrightarrow> \<exists>hit. window_scan s ptr slack c addr is = Inr hit"
  by (induction "is") (auto simp: Let_def caller_bit_def)

lemma window_scan_open:
  assumes "window_scan s ptr slack c addr [0..<nat nr] = Inr hit"
  shows "hit \<longleftrightarrow> open_window s ptr nr slack c addr"
  using window_scan_Inr [OF assms] by (auto simp: open_window_def)

lemma ipc_at_mpk [simp]: "ipc_at (s\<lparr>mpk := m\<rparr>) ptr i = ipc_at s ptr i"
  by (simp add: ipc_at_def)

lemma open_window_mpk [simp]:
  "open_window (s\<lparr>mpk := m\<rparr>) ptr nr slack c addr = open_window s ptr nr slack c addr"
  by (simp add: open_window_def)

lemma check_table_Inr:
  assumes "check_table s c e addr slack ptr nr = Inr (ok, s')"
  shows "ok \<longleftrightarrow> open_window s ptr nr slack c addr" "valid_mid s e"
    "s' = s\<lparr>mpk := (mpk s)\<lparr>pkru_ad := (pkru_ad (mpk s))(key_of s e := ok)\<rparr>\<rparr>"
proof -
  from assms obtain s1 hit where s1: "cmp_unlock s e = Inr s1"
    and scan: "window_scan s1 ptr slack c addr [0..<nat nr] = Inr hit"
    and rest: "(if hit then bindr (cmp_lock s1 e) (\<lambda>s2. Inr (True, s2)) else Inr (False, s1))
               = Inr (ok, s')"
    by (auto simp: check_table_def res_simps)
  from rest have hit: "ok = hit" by (auto simp: res_simps split: if_splits)
  from window_scan_open [OF scan] s1 show "ok \<longleftrightarrow> open_window s ptr nr slack c addr"
    by (simp add: hit mon_simps)
  from s1 show "valid_mid s e" by (simp add: mon_simps)
  from s1 rest show "s' = s\<lparr>mpk := (mpk s)\<lparr>pkru_ad := (pkru_ad (mpk s))(key_of s e := ok)\<rparr>\<rparr>"
    by (auto simp: mon_simps res_simps hit split: if_splits)
qed

text \<open>A check changes nothing but the access-disable bits.\<close>

definition pkru_only :: "mon \<Rightarrow> mon \<Rightarrow> bool" where
  "pkru_only s s' \<longleftrightarrow> (\<exists>f. s' = s\<lparr>mpk := (mpk s)\<lparr>pkru_ad := f\<rparr>\<rparr>)"

lemma pkru_only_refl [simp]: "pkru_only s s"
proof -
  have "s = s\<lparr>mpk := (mpk s)\<lparr>pkru_ad := pkru_ad (mpk s)\<rparr>\<rparr>" by simp
  then show ?thesis unfolding pkru_only_def by blast
qed

lemma pkru_onlyD:
  assumes "pkru_only s s'"
  shows "s' = s\<lparr>mpk := mpk s'\<rparr>" "page_key (mpk s') = page_key (mpk s)"
    "pkeys (mpk s') = pkeys (mpk s)"
  using assms by (auto simp: pkru_only_def)

lemma check_table_pkru_only:
  "check_table s c e addr slack ptr nr = Inr (ok, s') \<Longrightarrow> pkru_only s s'"
  by (auto simp: pkru_only_def dest: check_table_Inr(3))

lemma should_map_Inr:
  assumes "should_map s c e addr = Inr (ok, s')"
  shows "ok \<longleftrightarrow> allowed s ACCESS_TO_GLOBAL c e addr" "pkru_only s s'"
  using assms
  by (auto simp: should_map_def res_simps mon_simps check_table_pkru_only
      dest: check_table_Inr(1) split: if_splits)

lemma should_map_stack_Inr:
  assumes "should_map_stack s c e addr = Inr (ok, s')"
  shows "ok \<longleftrightarrow> allowed s ACCESS_TO_STACK c e addr" "pkru_only s s'"
  using assms
  by (auto simp: should_map_stack_def res_simps mon_simps check_table_pkru_only
      dest: check_table_Inr(1) split: if_splits)

lemma should_map_heap_Inr:
  assumes "should_map_heap s c e addr = Inr (ok, s')"
  shows "ok \<longleftrightarrow> allowed s ACCESS_TO_HEAP c e addr" "pkru_only s s'"
  using assms
  by (auto simp: should_map_heap_def res_simps mon_simps check_table_pkru_only
      dest: check_table_Inr(1) split: if_splits)

lemmas should_map_results =
  should_map_Inr should_map_stack_Inr should_map_heap_Inr

text \<open>One function for the check that belongs to a kind of fault.\<close>

fun fault_check :: "mon \<Rightarrow> fault_state \<Rightarrow> int \<Rightarrow> int \<Rightarrow> u64 \<Rightarrow> (bool \<times> mon) res" where
  "fault_check s RET_STACK_TO_WRAP c e addr = Inr (c = e, s)"
| "fault_check s ACCESS_TO_GLOBAL c e addr = should_map s c e addr"
| "fault_check s ACCESS_TO_STACK c e addr = should_map_stack s c e addr"
| "fault_check s ACCESS_TO_HEAP c e addr = should_map_heap s c e addr"

lemma sig_handler_alt:
  "sig_handler s rip rsp addr =
     bindr (get_state s rip rsp addr) (\<lambda>(st, c, e). remap_if (fault_check s st c e addr) c addr)"
  unfolding sig_handler_def
  by (rule bindr_cong [OF refl])
    (auto simp: remap_if_def split: fault_state.split)

lemma fault_check_Inr:
  assumes "fault_check s st c e addr = Inr (ok, s')"
  shows "ok \<longleftrightarrow> allowed s st c e addr" "pkru_only s s'"
  using assms by (cases st; auto dest: should_map_results)+

lemma remap_if_Inr:
  assumes "remap_if (fault_check s st c e addr) c addr = Inr s'"
  shows "allowed s st c e addr" "valid_mid s c" "s' = s\<lparr>mpk := mpk s'\<rparr>"
    "page_key (mpk s') = (page_key (mpk s))(page_of addr \<mapsto> key_of s c)"
    "pkeys (mpk s') = pkeys (mpk s)"
proof -
  from assms obtain ok t where t: "fault_check s st c e addr = Inr (ok, t)"
    and "(if ok then cmp_attach t c (page_base addr) 4096 else Inl Hang) = Inr s'"
    by (auto simp: remap_if_def res_simps)
  then have ok: "ok" and att: "cmp_attach t c (page_base addr) 4096 = Inr s'"
    by (auto split: if_splits)
  from fault_check_Inr [OF t] ok show "allowed s st c e addr" by simp
  from fault_check_Inr(2) [OF t] obtain f where f: "t = s\<lparr>mpk := (mpk s)\<lparr>pkru_ad := f\<rparr>\<rparr>"
    by (auto simp: pkru_only_def)
  from att show "valid_mid s c" "s' = s\<lparr>mpk := mpk s'\<rparr>"
    "page_key (mpk s') = (page_key (mpk s))(page_of addr \<mapsto> key_of s c)"
    "pkeys (mpk s') = pkeys (mpk s)"
    by (auto simp: mon_simps f)
qed

section \<open>The handler enforces the policy\<close>

text \<open>
  C1: when the fault handler lets an access continue, the policy allows it for the cubicle
  and the owner that the fault is classified with, and the only page whose key changes is
  the faulting page, which gets the key of the accessing cubicle; the module table, the
  ownership maps and the windows are untouched.
\<close>

theorem sig_handler_enforces_policy:
  assumes "sig_handler s rip rsp addr = Inr s'"
  shows "\<exists>st c e. get_state s rip rsp addr = Inr (st, c, e) \<and> allowed s st c e addr \<and>
     valid_mid s c \<and> s' = s\<lparr>mpk := mpk s'\<rparr> \<and>
     page_key (mpk s') = (page_key (mpk s))(page_of addr \<mapsto> key_of s c)"
proof -
  from assms obtain st c e where st: "get_state s rip rsp addr = Inr (st, c, e)"
    and r: "remap_if (fault_check s st c e addr) c addr = Inr s'"
    by (auto simp: sig_handler_alt res_simps)
  from st remap_if_Inr [OF r] show ?thesis by blast
qed

section \<open>Completeness of the handler\<close>

definition isolated :: "mon \<Rightarrow> int \<Rightarrow> bool" where
  "isolated s mid \<longleftrightarrow> valid_mid s mid \<and> mid < 32 \<and> pm_must (mod_of s mid) \<and>
     0 < key_of s mid \<and> key_of s mid < 16 \<and> key_of s mid \<in> set (pkeys (mpk s)) \<and>
     ipc_tab_stack_ptr (mod_of s mid) \<noteq> 0 \<and> ipc_tab_globals_ptr (mod_of s mid) \<noteq> 0 \<and>
     ipc_tab_heap_ptr (mod_of s mid) \<noteq> 0"

lemma isolatedD:
  assumes "isolated s mid"
  shows "valid_mid s mid" "0 \<le> mid" "mid < 32" "pm_must (mod_of s mid)"
    "0 < key_of s mid" "key_of s mid < 16" "key_of s mid \<in> set (pkeys (mpk s))"
    "ipc_tab_stack_ptr (mod_of s mid) \<noteq> 0" "ipc_tab_globals_ptr (mod_of s mid) \<noteq> 0"
    "ipc_tab_heap_ptr (mod_of s mid) \<noteq> 0"
  using assms by (auto simp: isolated_def valid_mid_def)

lemma check_table_total:
  assumes c: "isolated s c" and e: "isolated s e"
  shows "\<exists>s'. check_table s c e addr slack ptr nr = Inr (open_window s ptr nr slack c addr, s')"
proof -
  note ed = isolatedD [OF e]
  let ?s1 = "s\<lparr>mpk := (mpk s)\<lparr>pkru_ad := (pkru_ad (mpk s))(key_of s e := False)\<rparr>\<rparr>"
  have un: "cmp_unlock s e = Inr ?s1" using ed by (simp add: mon_simps)
  obtain hit where hit: "window_scan ?s1 ptr slack c addr [0..<nat nr] = Inr hit"
    using window_scan_total [OF isolatedD(2,3) [OF c]] by blast
  obtain s2 where s2: "cmp_lock ?s1 e = Inr s2" using ed by (simp add: mon_simps)
  show ?thesis
    using un hit s2 window_scan_open [OF hit] by (cases hit) (auto simp: check_table_def)
qed

lemma fault_check_total:
  assumes c: "isolated s c" and e: "isolated s e"
  shows "\<exists>s'. fault_check s st c e addr = Inr (allowed s st c e addr, s')"
proof -
  note cd = isolatedD [OF c] and ed = isolatedD [OF e]
  have pms: "pm s c = Inr (mod_of s c)" "pm s e = Inr (mod_of s e)"
    using cd(1) ed(1) by (simp_all add: pm_valid)
  show ?thesis
  proof (cases st)
    case ACCESS_TO_GLOBAL
    with cd ed pms check_table_total [OF c e] show ?thesis
      by (auto simp: should_map_def)
  next
    case ACCESS_TO_STACK
    with cd ed pms check_table_total [OF c e] show ?thesis
      by (auto simp: should_map_stack_def)
  next
    case ACCESS_TO_HEAP
    with cd ed pms check_table_total [OF c e] show ?thesis
      by (auto simp: should_map_heap_def)
  qed simp
qed

lemma handler_decides:
  assumes st: "get_state s rip rsp addr = Inr (st, c, e)"
    and c: "isolated s c" and e: "isolated s e"
    and mapped: "page_key (mpk s) (page_of addr) \<noteq> None"
  shows "if allowed s st c e addr
         then \<exists>s'. sig_handler s rip rsp addr = Inr s' \<and>
                page_key (mpk s') (page_of addr) = Some (key_of s c)
         else sig_handler s rip rsp addr = Inl Hang"
proof -
  obtain t where t: "fault_check s st c e addr = Inr (allowed s st c e addr, t)"
    using fault_check_total [OF c e] by blast
  obtain f where f: "t = s\<lparr>mpk := (mpk s)\<lparr>pkru_ad := f\<rparr>\<rparr>"
    using fault_check_Inr(2) [OF t] by (auto simp: pkru_only_def)
  obtain s' where s': "cmp_attach t c (page_base addr) 4096 = Inr s'"
    using isolatedD(1,7) [OF c] mapped by (auto simp: mon_simps f)
  then have "page_key (mpk s') (page_of addr) = Some (key_of s c)"
    by (auto simp: mon_simps f)
  with s' t st show ?thesis by (auto simp: sig_handler_alt remap_if_def)
qed

text \<open>
  C2: between isolated cubicles the handler decides exactly by the policy: an access the
  policy allows continues with the page re-keyed for the accessing cubicle, and an access it
  does not allow never returns.
\<close>

theorem sig_handler_decides:
  assumes st: "get_state s rip rsp addr = Inr (st, c, e)"
    and c: "isolated s c" and e: "isolated s e"
    and mapped: "page_key (mpk s) (page_of addr) \<noteq> None"
  shows "if allowed s st c e addr
         then \<exists>s'. sig_handler s rip rsp addr = Inr s' \<and>
                page_key (mpk s') (page_of addr) = Some (key_of s c)
         else sig_handler s rip rsp addr = Inl Hang"
  using assms by (rule handler_decides)

section \<open>Delivery of a fault\<close>

text \<open>
  The kernel runs a signal handler with default protection-key rights (only key 0 enabled)
  and restores the rights of the interrupted code when the handler returns (pkeys(7)).
\<close>

definition deliver_fault :: "mon \<Rightarrow> u64 \<Rightarrow> u64 \<Rightarrow> u64 \<Rightarrow> mon res" where
  "deliver_fault s rip rsp addr =
     bindr (sig_handler (s\<lparr>mpk := (mpk s)\<lparr>pkru_ad := (\<lambda>k. k \<noteq> 0)\<rparr>\<rparr>) rip rsp addr) (\<lambda>s'.
       Inr (s'\<lparr>mpk := (mpk s')\<lparr>pkru_ad := pkru_ad (mpk s)\<rparr>\<rparr>))"

section \<open>Runs\<close>

text \<open>
  The steps of a running system that concern protection: a fault handled by the monitor,
  a cubicle rewriting its window descriptors, a cross-cubicle call switching keys, and the
  allocator wrappers handing whole heap pages to a cubicle.
\<close>

inductive mon_step :: "mon \<Rightarrow> mon \<Rightarrow> bool" where
  fault: "deliver_fault s rip rsp addr = Inr s' \<Longrightarrow> mon_step s s'"
| windows: "mon_step s (s\<lparr>ipc_mem := f\<rparr>)"
| lock: "cmp_lock s mid = Inr s' \<Longrightarrow> mon_step s s'"
| unlock: "cmp_unlock s mid = Inr s' \<Longrightarrow> mon_step s s'"
| attach: "heap_attach s mid start (of_nat n * 4096) = Inr s' \<Longrightarrow> n < 2 ^ 52 \<Longrightarrow> mon_step s s'"

inductive run_while :: "(mon \<Rightarrow> bool) \<Rightarrow> mon \<Rightarrow> mon \<Rightarrow> bool" for Q where
  start: "Q s \<Longrightarrow> run_while Q s s"
| step: "run_while Q s t \<Longrightarrow> mon_step t u \<Longrightarrow> Q u \<Longrightarrow> run_while Q s u"

text \<open>The fields no step writes.\<close>

definition static :: "mon \<Rightarrow> _" where
  "static s = (pmap s, heap_start s, heap_end s, heap_cfg_len s, mmap_cfg s, mmap_start s, mmap_end s)"

lemma static_mpk [simp]: "static (s\<lparr>mpk := m\<rparr>) = static s"
  by (simp add: static_def)

lemma static_heap_cfg [simp]: "static (s\<lparr>heap_cfg := f\<rparr>) = static s"
  by (simp add: static_def)

lemma heap_attach_static:
  assumes "heap_attach s mid start sz = Inr s'"
  shows "static s' = static s"
proof -
  have loop: "static t = static s" if "iterr (heap_cfg_write idx mid) js s = Inr t" for idx js t
    using that by (rule iterr_invariant [where P = "\<lambda>t. static t = static s"])
      (auto simp: heap_cfg_write_def split: if_splits)
  have att: "static u = static t" if "cmp_attach t mid a sz = Inr u" for t u a
    using arg_cong [OF cmp_attach_frame [OF that], of static] by simp
  from assms show ?thesis
    by (auto simp: heap_attach_def Let_def res_simps split: if_splits dest!: loop att)
qed

lemma sig_handler_static:
  assumes "sig_handler s rip rsp addr = Inr s'"
  shows "static s' = static s"
proof -
  from assms obtain st c e where "remap_if (fault_check s st c e addr) c addr = Inr s'"
    by (auto simp: sig_handler_alt res_simps)
  from arg_cong [OF remap_if_Inr(3) [OF this], of static] show ?thesis by simp
qed

lemma deliver_fault_Inr:
  assumes "deliver_fault s rip rsp addr = Inr s'"
  shows "\<exists>t. sig_handler (s\<lparr>mpk := (mpk s)\<lparr>pkru_ad := (\<lambda>k. k \<noteq> 0)\<rparr>\<rparr>) rip rsp addr = Inr t \<and>
     s' = t\<lparr>mpk := (mpk t)\<lparr>pkru_ad := pkru_ad (mpk s)\<rparr>\<rparr>"
  using assms by (auto simp: deliver_fault_def res_simps)

lemma mon_step_static: "mon_step s s' \<Longrightarrow> static s' = static s"
proof (induction rule: mon_step.induct)
  case (fault s rip rsp addr s')
  from deliver_fault_Inr [OF fault] show ?case by (auto dest: sig_handler_static)
qed (auto simp: mon_simps static_def dest: heap_attach_static)

lemma static_eqD:
  assumes "static s' = static s"
  shows "mod_of s' = mod_of s" "valid_mid s' = valid_mid s" "in_heap s' = in_heap s"
    "in_mmap s' = in_mmap s" "heap_wf s' = heap_wf s" "length (pmap s') = length (pmap s)"
  using assms by (auto simp: static_def mod_of_def valid_mid_def in_heap_def in_mmap_def heap_wf_def
      fun_eq_iff)

text \<open>
  A heap page is closed to a set of keys when it belongs to a cubicle with a key outside the
  set and that cubicle has no window open on it to any cubicle with a key of the set.
\<close>

definition closed_to :: "int \<Rightarrow> nat set \<Rightarrow> nat \<Rightarrow> mon \<Rightarrow> bool" where
  "closed_to v K p s \<longleftrightarrow>
     (\<forall>a. page_of a = p \<longrightarrow> heap_to_lib_id s a = v \<and>
        (\<forall>c. key_of s c \<in> K \<longrightarrow>
           \<not> open_window s (ipc_tab_heap_ptr (mod_of s v)) (ipc_heap_nr (mod_of s v)) True c a))"

definition heap_page_of :: "mon \<Rightarrow> int \<Rightarrow> nat set \<Rightarrow> nat \<Rightarrow> bool" where
  "heap_page_of s v K p \<longleftrightarrow> p < 2 ^ 52 \<and> heap_wf s \<and> length (pmap s) \<le> 128 \<and> key_of s v \<notin> K \<and>
     \<not> (v = E_APP \<and> key_of s E_LINUXUPLAT \<in> K) \<and>
     (\<forall>a. page_of a = p \<longrightarrow> in_heap s a \<and> \<not> in_mmap s a)"

lemma fault_keeps_closed:
  assumes h: "sig_handler s rip rsp addr = Inr s'"
    and hp: "heap_page_of s v K p" and cl: "closed_to v K p s"
    and old: "page_key (mpk s) p \<notin> Some ` K"
  shows "page_key (mpk s') p \<notin> Some ` K"
proof -
  from h obtain st c e where st: "get_state s rip rsp addr = Inr (st, c, e)"
    and r: "remap_if (fault_check s st c e addr) c addr = Inr s'"
    by (auto simp: sig_handler_alt res_simps)
  note r' = remap_if_Inr [OF r]
  show ?thesis
  proof (cases "page_of addr = p")
    case False
    with r'(4) old show ?thesis by simp
  next
    case True
    with hp cl have a: "\<not> in_mmap s addr" "heap_to_lib_id s addr = v"
      by (auto simp: heap_page_of_def closed_to_def)
    then have none: "mem_to_lib_id s addr = - 1" "stack_to_lib_id s addr = - 1"
      by (simp_all add: mem_to_lib_id_def stack_to_lib_id_def)
    have "st \<noteq> RET_STACK_TO_WRAP"
      using st none r'(1,2) by (auto simp: get_state_def Let_def valid_mid_def res_simps split: if_splits)
    with st none a have "st = ACCESS_TO_HEAP" "e = v"
      by (auto simp: get_state_def Let_def res_simps split: if_splits)
    with r'(1) True hp cl have "key_of s c \<notin> K"
      by (auto simp: heap_page_of_def closed_to_def)
    with r'(4) True show ?thesis by (auto simp: image_iff)
  qed
qed

lemma attach_keeps_closed:
  assumes h: "heap_attach s mid start (of_nat n * 4096) = Inr s'" and n: "n < 2 ^ 52"
    and hp: "heap_page_of s v K p" and cl: "closed_to v K p s'"
    and old: "page_key (mpk s) p \<notin> Some ` K"
  shows "page_key (mpk s') p \<notin> Some ` K"
proof (cases "(of_nat n * 4096 :: u64) = 0")
  case True
  with h have "s' = s" by (simp add: heap_attach_def)
  with old show ?thesis by simp
next
  case False
  let ?sz = "of_nat n * 4096 :: u64"
  have sz: "unat ?sz mod 4096 = 0" by (simp add: unat_pages [OF n])
  from hp have wf: "heap_wf s" and len: "length (pmap s) \<le> 128" by (auto simp: heap_page_of_def)
  note ha = heap_attach_Inr [OF h False wf]
  show ?thesis
  proof (cases "in_pages (word_of_int start) ?sz p")
    case out: False
    with ha(2) old show ?thesis by simp
  next
    case inp: True
    let ?a = "of_nat p * 4096 :: u64"
    from hp have "p < 2 ^ 52" by (simp add: heap_page_of_def)
    then have a: "page_of ?a = p" by (rule page_of_exists)
    with hp have inh: "in_heap s ?a" by (auto simp: heap_page_of_def)
    have mid: "mid < 128" using ha(6) len by (simp add: valid_mid_def)
    note own = heap_attach_ownership [OF h False sz wf mid inh, unfolded a]
    from cl a have "heap_to_lib_id s' ?a = v" by (simp add: closed_to_def)
    moreover have "key_of s v \<notin> K" using hp by (simp add: heap_page_of_def)
    ultimately show ?thesis
      using own old by (metis (no_types, lifting) image_iff option.inject)
  qed
qed

lemma heap_page_of_static: "static s' = static s \<Longrightarrow> heap_page_of s' v K p = heap_page_of s v K p"
  using static_eqD [of s' s] by (simp add: heap_page_of_def)

lemma closed_to_mpk: "closed_to v K p (s\<lparr>mpk := m\<rparr>) = closed_to v K p s"
  by (simp add: closed_to_def heap_to_lib_id_def heap_at_def in_heap_def)

lemma mon_step_keeps_closed:
  assumes "mon_step s s'" "heap_page_of s v K p" "closed_to v K p s" "closed_to v K p s'"
    "page_key (mpk s) p \<notin> Some ` K"
  shows "page_key (mpk s') p \<notin> Some ` K"
  using assms
proof (cases rule: mon_step.cases)
  case (fault rip rsp addr)
  let ?s0 = "s\<lparr>mpk := (mpk s)\<lparr>pkru_ad := (\<lambda>k. k \<noteq> 0)\<rparr>\<rparr>"
  from deliver_fault_Inr [OF fault] obtain t where t: "sig_handler ?s0 rip rsp addr = Inr t"
    and s': "s' = t\<lparr>mpk := (mpk t)\<lparr>pkru_ad := pkru_ad (mpk s)\<rparr>\<rparr>" by blast
  have "heap_page_of ?s0 v K p" using heap_page_of_static [of ?s0 s] assms(2) by simp
  moreover have "closed_to v K p ?s0" using assms(3) by (simp add: closed_to_mpk)
  ultimately show ?thesis using fault_keeps_closed [OF t] assms(5) by (simp add: s')
next
  case (attach mid start n)
  then show ?thesis using assms(2,4,5) by (rule attach_keeps_closed)
qed (auto simp: mon_simps)

lemma run_while_closed:
  assumes "run_while (closed_to v K p) s t" "heap_page_of s v K p" "page_key (mpk s) p \<notin> Some ` K"
  shows "page_key (mpk t) p \<notin> Some ` K \<and> heap_page_of t v K p \<and> closed_to v K p t"
  using assms
proof (induction rule: run_while.induct)
  case (step s t u)
  then show ?case
    using mon_step_keeps_closed [of t u v K p] heap_page_of_static [OF mon_step_static, of t u v K p]
    by blast
qed simp


section \<open>A concrete system\<close>

text \<open>
  The state used by the witnesses: \<^verbatim>\<open>libramfs.so\<close> (key 1) owns the heap and has one window
  on its first page, open to itself and to \<^verbatim>\<open>libvfscore.so\<close> (key 2), which is running.
\<close>

definition ex_ramfs :: proc_map_s where
  "ex_ramfs = empty_pm\<lparr>pm_name := ''libramfs.so'', pm_start := 0x101000, pm_size := 0x1000,
     pm_pkey := 1, pm_must := True, ipc_tab_stack_ptr := 0x101800, ipc_tab_globals_ptr := 0x101900,
     ipc_tab_heap_ptr := 0x101000, ipc_heap_nr := 100\<rparr>"

definition ex_vfscore :: proc_map_s where
  "ex_vfscore = empty_pm\<lparr>pm_name := ''libvfscore.so'', pm_start := 0x100000, pm_size := 0x1000,
     pm_pkey := 2, pm_must := True, ipc_tab_stack_ptr := 0x100800, ipc_tab_globals_ptr := 0x100900,
     ipc_tab_heap_ptr := 0x100a00\<rparr>"

definition ex_window :: ipc_struct where
  "ex_window = \<lparr>ipc_begin = 0x10000, ipc_size = 4096, ipc_mask = 0x200004\<rparr>"

definition ex_mpk :: mpk where
  "ex_mpk = \<lparr>page_key = (\<lambda>p. if 16 \<le> p \<and> p < 32 then Some 1 else if p = 256 then Some 2
       else if p = 257 then Some 1 else if p = 258 then Some 2 else None),
     pkeys = [2, 1, 0], pkru_ad = (\<lambda>k. k \<noteq> 0 \<and> k \<noteq> 2)\<rparr>"

definition ex_mon :: mon where
  "ex_mon = \<lparr>pmap = (replicate 100 empty_pm)[2 := ex_ramfs, 21 := ex_vfscore], pmap_max = 26,
     stacks = [], heap_cfg = (\<lambda>_. 2), heap_cfg_len = 0x10000, heap_start = 0x10000,
     heap_end = 0x20000, mmap_cfg = [21, 2, - 107], mmap_start = 0x100000, mmap_end = 0x103000,
     mpk = ex_mpk,
     ipc_mem = (\<lambda>a. if a = 0x101000 then ex_window
                    else \<lparr>ipc_begin = 0, ipc_size = 0, ipc_mask = 0\<rparr>)\<rparr>"

lemma ex_mon_simps [simp]:
  "pmap ex_mon = (replicate 100 empty_pm)[2 := ex_ramfs, 21 := ex_vfscore]"
  "heap_cfg ex_mon = (\<lambda>_. 2)" "heap_cfg_len ex_mon = 0x10000" "heap_start ex_mon = 0x10000"
  "heap_end ex_mon = 0x20000" "mmap_cfg ex_mon = [21, 2, - 107]" "mmap_start ex_mon = 0x100000"
  "mmap_end ex_mon = 0x103000" "mpk ex_mon = ex_mpk"
  by (simp_all add: ex_mon_def)

lemma ex_mods [simp]:
  "valid_mid ex_mon 2" "valid_mid ex_mon 21" "mod_of ex_mon 2 = ex_ramfs" "mod_of ex_mon 21 = ex_vfscore"
  by (simp_all add: valid_mid_def mod_of_def)

lemma ex_fields [simp]:
  "pm_pkey ex_ramfs = 1" "pm_pkey ex_vfscore = 2" "pm_must ex_ramfs" "pm_must ex_vfscore"
  "ipc_tab_heap_ptr ex_ramfs = 0x101000" "ipc_heap_nr ex_ramfs = 100"
  by (simp_all add: ex_ramfs_def ex_vfscore_def)

lemma ipc_mem_update [simp]:
  "valid_mid (s\<lparr>ipc_mem := f\<rparr>) = valid_mid s" "mod_of (s\<lparr>ipc_mem := f\<rparr>) = mod_of s"
  "isolated (s\<lparr>ipc_mem := f\<rparr>) = isolated s"
  by (simp_all add: valid_mid_def mod_of_def isolated_def fun_eq_iff)

lemma ex_isolated: "isolated ex_mon 2" "isolated ex_mon 21"
  by (simp_all add: isolated_def ex_mpk_def) (simp_all add: ex_ramfs_def ex_vfscore_def)

lemma ex_pages: "page_of 0x10008 = 16" "page_of 0x100010 = 256" 
  by (simp_all add: page_of_def)

lemma ex_get_state:
  "get_state (ex_mon\<lparr>ipc_mem := f\<rparr>) 0x100010 0x102800 0x10008 = Inr (ACCESS_TO_HEAP, 21, 2)"
  "get_state ex_mon 0x100010 0x102800 0x10008 = Inr (ACCESS_TO_HEAP, 21, 2)"
  by (simp_all add: get_state_def fault_caller_def mem_to_lib_id_def stack_to_lib_id_def heap_to_lib_id_def
      in_mmap_def mmap_at_def in_heap_def heap_at_def pm_valid Let_def)

lemma ex_ipc: "ipc_at ex_mon 0x101000 0 = ex_window"
  by (simp add: ipc_at_def ex_mon_def)

lemma ex_bit: "caller_bit 21 = Inr 0x200000"
  by (simp add: caller_bit_def)

lemma ex_open: "open_window ex_mon 0x101000 100 True 21 0x10008"
  unfolding open_window_def
  by (rule exI [of _ 0]) (simp add: ex_ipc ex_bit ex_window_def covers_def)

lemma ex_handled: "\<exists>s'. sig_handler ex_mon 0x100010 0x102800 0x10008 = Inr s'"
proof -
  obtain t where t: "fault_check ex_mon ACCESS_TO_HEAP 21 2 0x10008 = Inr (True, t)"
    using fault_check_total [OF ex_isolated(2,1), where st = ACCESS_TO_HEAP and addr = "0x10008"]
      ex_open by auto
  from fault_check_Inr(2) [OF t] obtain f where "t = ex_mon\<lparr>mpk := ex_mpk\<lparr>pkru_ad := f\<rparr>\<rparr>"
    by (auto simp: pkru_only_def)
  then have "\<exists>s'. cmp_attach t 21 (page_base 0x10008) 4096 = Inr s'"
    by (auto simp: mon_simps ex_pages) (auto simp: ex_mpk_def)
  with t ex_get_state show ?thesis by (auto simp: sig_handler_alt remap_if_def)
qed

theorem sig_handler_enforces_policy_witness:
  "\<exists>s'. sig_handler ex_mon 0x100010 0x102800 0x10008 = Inr s' \<and>
     allowed ex_mon ACCESS_TO_HEAP 21 2 0x10008 \<and> page_key (mpk s') 16 = Some 2"
proof -
  obtain s' where s': "sig_handler ex_mon 0x100010 0x102800 0x10008 = Inr s'"
    using ex_handled by blast
  from sig_handler_enforces_policy [OF s'] ex_get_state
  have "allowed ex_mon ACCESS_TO_HEAP 21 2 0x10008 \<and> page_key (mpk s') 16 = Some 2"
    by (auto simp: ex_pages)
  with s' show ?thesis by blast
qed

theorem sig_handler_decides_witness:
  "isolated ex_mon 21 \<and> isolated ex_mon 2 \<and>
   (\<exists>s'. sig_handler ex_mon 0x100010 0x102800 0x10008 = Inr s' \<and> page_key (mpk s') 16 = Some 2)"
proof -
  have "page_key (mpk ex_mon) (page_of 0x10008) \<noteq> None"
    by (simp add: ex_pages) (simp add: ex_mpk_def)
  from sig_handler_decides [OF ex_get_state(2) ex_isolated(2,1) this] ex_open
  show ?thesis by (simp add: ex_pages ex_isolated)
qed

lemma page_17: "page_of a = 17 \<Longrightarrow> 69632 \<le> unat a \<and> unat a < 73728"
  unfolding page_of_def by linarith

lemma ex_page_17:
  assumes "page_of a = 17"
  shows "in_heap ex_mon a" "\<not> in_mmap ex_mon a" "heap_to_lib_id ex_mon a = 2"
proof -
  from page_17 [OF assms] have "sint a = int (unat a)"
    by (intro sint_small) simp
  moreover from page_17 [OF assms] have "int 69632 \<le> int (unat a)" "int (unat a) < int 73728"
    by (simp_all only: of_nat_le_iff of_nat_less_iff)
  ultimately show "in_heap ex_mon a" "\<not> in_mmap ex_mon a"
    by (simp_all add: in_heap_def in_mmap_def)
  then show "heap_to_lib_id ex_mon a = 2" by (simp add: heap_to_lib_id_def heap_at_def)
qed

lemma ex_closed:
  assumes "f = ipc_mem ex_mon \<or> f = (\<lambda>_. \<lparr>ipc_begin = 0, ipc_size = 0, ipc_mask = 0\<rparr>)"
  shows "closed_to 2 {0, 2} 17 (ex_mon\<lparr>ipc_mem := f\<rparr>)"
proof -
  let ?s = "ex_mon\<lparr>ipc_mem := f\<rparr>"
  have "\<not> open_window ?s 0x101000 100 True c a" if "page_of a = 17" for c a
  proof -
    have "\<not> covers 0x10000 4096 a"
      using page_17 [OF that] by (simp add: covers_def word_less_nat_alt word_le_nat_alt)
    with assms show ?thesis
      by (auto simp: open_window_def ipc_at_def ex_mon_def ex_window_def split: if_splits)
  qed
  moreover have "heap_to_lib_id ?s a = heap_to_lib_id ex_mon a" "mod_of ?s = mod_of ex_mon" for a
    by (simp_all add: heap_to_lib_id_def heap_at_def in_heap_def mod_of_def fun_eq_iff)
  ultimately show ?thesis by (simp add: closed_to_def ex_page_17)
qed


theorem heap_attach_transfers_pages_witness:
  "\<exists>s'. heap_attach ex_mon 21 0x12000 (of_nat 2 * 4096) = Inr s' \<and> heap_to_lib_id s' 0x13008 = 21 \<and>
     page_key (mpk s') (page_of 0x13008) = Some (key_of ex_mon 21) \<and> heap_to_lib_id s' 0x14008 = 2"
proof -
  have "heap_wf ex_mon" by (simp add: heap_wf_def)
  moreover have "key_of ex_mon 21 \<in> set (pkeys (mpk ex_mon))" by (simp add: ex_mpk_def)
  moreover have "page_key (mpk ex_mon) p \<noteq> None"
    if "(0x12000 :: int) div 4096 \<le> int p" "int p < 0x12000 div 4096 + int 2" for p
    using that by (simp add: ex_mpk_def)
  ultimately obtain s' where s': "heap_attach ex_mon 21 0x12000 (of_nat 2 * 4096) = Inr s'"
    and own: "\<And>a. in_heap ex_mon a \<Longrightarrow>
        (if 0x12000 \<le> sint a \<and> sint a < 0x12000 + 4096 * int 2
         then heap_to_lib_id s' a = 21 \<and> page_key (mpk s') (page_of a) = Some (key_of ex_mon 21)
         else heap_to_lib_id s' a = heap_to_lib_id ex_mon a \<and>
              page_key (mpk s') (page_of a) = page_key (mpk ex_mon) (page_of a))"
    using heap_attach_transfers_pages [of ex_mon 21 "0x12000" 2] by auto
  have "in_heap ex_mon 0x13008" "in_heap ex_mon 0x14008" by (simp_all add: in_heap_def)
  with own [of "0x13008"] own [of "0x14008"] s' show ?thesis
    by (simp add: heap_to_lib_id_def heap_at_def)
qed

end
