(* ===== verification/Windows.thy ===== *)
theory Windows
  imports Monitor_Fault
begin

text \<open>
  The window tables that each cubicle keeps in its own memory: \<^verbatim>\<open>ipc.c\<close> of
  \<^verbatim>\<open>lib/ramfs\<close>, \<^verbatim>\<open>lib/vfscore\<close>, \<^verbatim>\<open>lib/ukboot\<close>, \<^verbatim>\<open>lib/lwip\<close>,
  \<^verbatim>\<open>lib/libnginx\<close>, \<^verbatim>\<open>lib/uknetdev\<close> and \<^verbatim>\<open>plat/linuxu\<close>. A cubicle opens a
  window by writing a descriptor and closes it by clearing the descriptor; the monitor reads
  the same descriptors when it handles a fault. A table is the list of its descriptors. The
  interface the cubicles' code relies on is the locale \<open>window_table\<close>, and
  \<open>closing_table\<close> for the tables that really close what they opened; both are
  interpreted on the definitions that model the source files.
\<close>

section \<open>Descriptors and slots\<close>

text \<open>The \<^verbatim>\<open>int\<close> mask is converted to the \<^verbatim>\<open>unsigned long\<close> of the descriptor.\<close>

definition entry :: "u64 \<Rightarrow> u64 \<Rightarrow> int \<Rightarrow> ipc_struct" where
  "entry begn sz msk = \<lparr>ipc_begin = begn, ipc_size = sz, ipc_mask = word_of_int msk\<rparr>"

definition no_window :: ipc_struct where
  "no_window = entry 0 0 0"

text \<open>A loop that leaves at the first descriptor with a property.\<close>

fun find_slot :: "(ipc_struct \<Rightarrow> bool) \<Rightarrow> ipc_struct list \<Rightarrow> nat option" where
  "find_slot P [] = None"
| "find_slot P (e # es) = (if P e then Some 0 else map_option Suc (find_slot P es))"

text \<open>An assignment to the three fields of one descriptor.\<close>

definition set_entry :: "ipc_struct list \<Rightarrow> int \<Rightarrow> ipc_struct \<Rightarrow> ipc_struct list res" where
  "set_entry tab i e = (if 0 \<le> i \<and> i < int (length tab) then Inr (tab[nat i := e]) else Inl Oob)"

definition bits :: "nat list \<Rightarrow> int" where
  "bits is = foldr (\<lambda>i m. push_bit i 1 OR m) is 0"

definition HEAP_MAX :: nat where "HEAP_MAX = 100"

section \<open>ramfs\<close>

definition RAMFS_ipc_tab_stack :: "ipc_struct list" where
  "RAMFS_ipc_tab_stack = [entry 0 8 (bits [21, 2])]"

definition ramfs_ipc_add_stack :: "ipc_struct list \<Rightarrow> u64 \<Rightarrow> int \<Rightarrow> int \<Rightarrow> ipc_struct list res" where
  "ramfs_ipc_add_stack tab begn sz msk = set_entry tab 0 (entry begn (word_of_int sz) msk)"

definition RAMFS_ipc_tab_globals :: "ipc_struct list" where
  "RAMFS_ipc_tab_globals = []"

definition RAMFS_ipc_tab_heap :: "ipc_struct list" where
  "RAMFS_ipc_tab_heap = replicate HEAP_MAX no_window"

definition ramfs_ipc_remove_heap :: "ipc_struct list \<Rightarrow> u64 \<Rightarrow> ipc_struct list res" where
  "ramfs_ipc_remove_heap tab begn =
     (case find_slot (\<lambda>e. ipc_begin e = begn) (take HEAP_MAX tab) of
        Some i \<Rightarrow> Inr (tab[i := no_window])
      | None \<Rightarrow> Inl Hang)"

definition ramfs_ipc_add_heap ::
  "ipc_struct list \<Rightarrow> u64 \<Rightarrow> u64 \<Rightarrow> int \<Rightarrow> ipc_struct list res" where
  "ramfs_ipc_add_heap tab begn sz msk =
     (case find_slot (\<lambda>e. ipc_size e = 0) (take HEAP_MAX tab) of
        Some i \<Rightarrow> Inr (tab[i := entry begn sz msk])
      | None \<Rightarrow> Inl Hang)"

section \<open>uknetdev\<close>

definition UKNETDEV_ipc_tab_stack :: "ipc_struct list" where
  "UKNETDEV_ipc_tab_stack = []"

definition uknetdev_ipc_add_stack ::
  "ipc_struct list \<Rightarrow> u64 \<Rightarrow> int \<Rightarrow> int \<Rightarrow> ipc_struct list res" where
  "uknetdev_ipc_add_stack tab begn sz msk = Inr tab"

definition UKNETDEV_ipc_tab_globals :: "ipc_struct list" where
  "UKNETDEV_ipc_tab_globals = [entry 0 6 (bits [17, 11])]"

definition UKNETDEV_ipc_tab_heap :: "ipc_struct list" where
  "UKNETDEV_ipc_tab_heap = replicate HEAP_MAX no_window"

definition uknetdev_ipc_remove_heap :: "ipc_struct list \<Rightarrow> u64 \<Rightarrow> ipc_struct list res" where
  "uknetdev_ipc_remove_heap tab begn =
     (case find_slot (\<lambda>e. ipc_begin e = begn) (take HEAP_MAX tab) of
        Some i \<Rightarrow> Inr (tab[i := no_window])
      | None \<Rightarrow> Inl Hang)"

definition uknetdev_ipc_add_heap ::
  "ipc_struct list \<Rightarrow> u64 \<Rightarrow> u64 \<Rightarrow> int \<Rightarrow> ipc_struct list res" where
  "uknetdev_ipc_add_heap tab begn sz msk =
     (case find_slot (\<lambda>e. ipc_size e = 0) (take HEAP_MAX tab) of
        Some i \<Rightarrow> Inr (tab[i := entry begn sz msk])
      | None \<Rightarrow> Inl Hang)"

section \<open>linuxu platform\<close>

definition LINUXUPLAT_ipc_tab_stack :: "ipc_struct list" where
  "LINUXUPLAT_ipc_tab_stack = [entry 0 8 (bits [6, 19]), entry 1 8 (bits [6, 19])]"

definition linuxuplat_ipc_add_stack ::
  "ipc_struct list \<Rightarrow> u64 \<Rightarrow> int \<Rightarrow> int \<Rightarrow> ipc_struct list res" where
  "linuxuplat_ipc_add_stack tab begn sz msk = set_entry tab 0 (entry begn (word_of_int sz) msk)"

definition LINUXUPLAT_ipc_tab_globals :: "ipc_struct list" where
  "LINUXUPLAT_ipc_tab_globals = []"

definition LINUXUPLAT_ipc_tab_heap :: "ipc_struct list" where
  "LINUXUPLAT_ipc_tab_heap = replicate HEAP_MAX no_window"

definition linuxuplat_ipc_remove_heap :: "ipc_struct list \<Rightarrow> u64 \<Rightarrow> ipc_struct list res" where
  "linuxuplat_ipc_remove_heap tab begn =
     (case find_slot (\<lambda>e. ipc_begin e = begn) (take HEAP_MAX tab) of
        Some i \<Rightarrow> Inr (tab[i := no_window])
      | None \<Rightarrow> Inl Hang)"

definition linuxuplat_ipc_add_heap ::
  "ipc_struct list \<Rightarrow> u64 \<Rightarrow> u64 \<Rightarrow> int \<Rightarrow> ipc_struct list res" where
  "linuxuplat_ipc_add_heap tab begn sz msk =
     (case find_slot (\<lambda>e. ipc_size e = 0) (take HEAP_MAX tab) of
        Some i \<Rightarrow> Inr (tab[i := entry begn sz msk])
      | None \<Rightarrow> Inl Hang)"

section \<open>The nginx application\<close>

definition APP_ipc_tab_stack :: "ipc_struct list" where
  "APP_ipc_tab_stack =
     [entry 0 0 (bits [21, 0]), entry 1 0 (bits [21, 0]), entry 2 0 (bits [21, 0]),
      entry 3 0 (bits [21, 0]), entry 4 0 (bits [21, 0]), entry 5 4096 (bits [21, 0]),
      entry 6 0 (bits [21, 0]), entry 7 0 (bits [6, 0]), entry 8 0 (bits [3, 0]),
      entry 9 0 (bits [3, 0]), entry 10 0 (bits [3, 0]), entry 11 0 (bits [3, 0]),
      entry 12 0 (bits [3, 0]), entry 13 0 (bits [3, 0]), entry 14 0 (bits [3, 0]),
      entry 15 0 (bits [17, 0]), entry 16 0 (bits [17, 0]), entry 17 0 (bits [17, 0]),
      entry 18 0 (bits [17, 0]), entry 19 0 (bits [0, 17, 21])]"

definition APP_ipc_tab_globals :: "ipc_struct list" where
  "APP_ipc_tab_globals =
     [entry 0 8192 (bits [21, 0]), entry 1 0 (bits [17, 0]), entry 2 0 (bits [17, 0])]"

definition APP_ipc_tab_heap :: "ipc_struct list" where
  "APP_ipc_tab_heap = replicate HEAP_MAX no_window"

text \<open>Removing a window that is not there is silently accepted here.\<close>

definition app_ipc_remove_heap :: "ipc_struct list \<Rightarrow> u64 \<Rightarrow> ipc_struct list res" where
  "app_ipc_remove_heap tab begn =
     (case find_slot (\<lambda>e. ipc_begin e = begn) (take HEAP_MAX tab) of
        Some i \<Rightarrow> Inr (tab[i := no_window])
      | None \<Rightarrow> Inr tab)"

definition app_ipc_add_heap ::
  "ipc_struct list \<Rightarrow> u64 \<Rightarrow> u64 \<Rightarrow> int \<Rightarrow> ipc_struct list res" where
  "app_ipc_add_heap tab begn sz msk =
     (case find_slot (\<lambda>e. ipc_size e = 0) (take HEAP_MAX tab) of
        Some i \<Rightarrow> Inr (tab[i := entry begn sz msk])
      | None \<Rightarrow> Inl Hang)"

definition app_ipc_add_stack ::
  "ipc_struct list \<Rightarrow> int \<Rightarrow> u64 \<Rightarrow> u64 \<Rightarrow> int \<Rightarrow> ipc_struct list res" where
  "app_ipc_add_stack tab i begn sz msk = set_entry tab i (entry begn sz msk)"

definition app_ipc_add_global ::
  "ipc_struct list \<Rightarrow> int \<Rightarrow> u64 \<Rightarrow> u64 \<Rightarrow> int \<Rightarrow> ipc_struct list res" where
  "app_ipc_add_global tab i begn sz msk = set_entry tab i (entry begn sz msk)"

section \<open>lwip\<close>

definition LWIP_ipc_tab_stack :: "ipc_struct list" where
  "LWIP_ipc_tab_stack =
     [entry 0 0 (bits [17, 11]), entry 1 0 (bits [17, 11]), entry 2 0 (bits [17, 11]),
      entry 3 0 (bits [17, 11]), entry 4 0 (bits [17, 21]), entry 5 0 (bits [17, 21])]"

definition LWIP_ipc_tab_globals :: "u64 \<Rightarrow> ipc_struct list" where
  "LWIP_ipc_tab_globals sizeof_mount =
     [entry 0 sizeof_mount (bits [17, 21]), entry 1 8 (bits [17, 21]), entry 2 8 (bits [17, 21]),
      entry 3 8 (bits [17, 21])]"

definition LWIP_ipc_tab_heap :: "ipc_struct list" where
  "LWIP_ipc_tab_heap = replicate HEAP_MAX no_window"

definition lwip_ipc_remove_heap :: "ipc_struct list \<Rightarrow> u64 \<Rightarrow> ipc_struct list res" where
  "lwip_ipc_remove_heap tab begn =
     (case find_slot (\<lambda>e. ipc_begin e = begn) (take HEAP_MAX tab) of
        Some i \<Rightarrow> Inr (tab[i := no_window])
      | None \<Rightarrow> Inl Hang)"

definition lwip_ipc_add_heap ::
  "ipc_struct list \<Rightarrow> u64 \<Rightarrow> u64 \<Rightarrow> int \<Rightarrow> ipc_struct list res" where
  "lwip_ipc_add_heap tab begn sz msk =
     (case find_slot (\<lambda>e. \<not> (ipc_size e \<noteq> 0 \<and> ipc_begin e \<noteq> begn)) (take HEAP_MAX tab) of
        Some i \<Rightarrow> Inr (tab[i := entry begn sz msk])
      | None \<Rightarrow> Inl Hang)"

definition lwip_ipc_add_globals ::
  "ipc_struct list \<Rightarrow> int \<Rightarrow> u64 \<Rightarrow> u64 \<Rightarrow> int \<Rightarrow> ipc_struct list res" where
  "lwip_ipc_add_globals tab i begn sz msk = set_entry tab i (entry begn sz msk)"

definition lwip_ipc_add_stack ::
  "ipc_struct list \<Rightarrow> int \<Rightarrow> u64 \<Rightarrow> int \<Rightarrow> int \<Rightarrow> ipc_struct list res" where
  "lwip_ipc_add_stack tab i begn sz msk = set_entry tab i (entry begn (word_of_int sz) msk)"

section \<open>vfscore and ukboot\<close>

text \<open>These two tables also keep \<^verbatim>\<open>..._ipc_tab_heap_nr_real\<close>.\<close>

record real_table =
  rt_tab :: "ipc_struct list"
  rt_nr_real :: nat

definition VFS_HEAP_MAX :: nat where "VFS_HEAP_MAX = 101"

definition UKBOOT_HEAP_MAX :: nat where "UKBOOT_HEAP_MAX = 10"

definition VFSCORE_ipc_tab_stack :: "u64 \<Rightarrow> u64 \<Rightarrow> u64 \<Rightarrow> ipc_struct list" where
  "VFSCORE_ipc_tab_stack path_max sizeof_uio sizeof_vattr =
     [entry 0 8 (bits [21, 2]), entry 1 8 (bits [21, 2]), entry 2 8 (bits [21, 2]),
      entry 3 8 (bits [21, 2]), entry 4 path_max (bits [21, 2]), entry 5 path_max (bits [21, 2]),
      entry 6 path_max (bits [21, 2]), entry 7 path_max (bits [21, 2]),
      entry 8 sizeof_uio (bits [21, 2, 17]), entry 9 sizeof_uio (bits [21, 2, 17]),
      entry 10 sizeof_vattr (bits [21, 2])]"

definition VFSCORE_ipc_tab_globals :: "ipc_struct list" where
  "VFSCORE_ipc_tab_globals = []"

definition VFSCORE_ipc_tab_heap :: real_table where
  "VFSCORE_ipc_tab_heap = \<lparr>rt_tab = replicate VFS_HEAP_MAX no_window, rt_nr_real = 0\<rparr>"

definition vfs_ipc_add_heap :: "real_table \<Rightarrow> u64 \<Rightarrow> u64 \<Rightarrow> int \<Rightarrow> real_table res" where
  "vfs_ipc_add_heap t begn sz msk =
     (case find_slot (\<lambda>e. ipc_size e = 0) (take VFS_HEAP_MAX (rt_tab t)) of
        Some i \<Rightarrow> Inr \<lparr>rt_tab = (rt_tab t)[i := entry begn sz msk],
                       rt_nr_real = (if i \<ge> rt_nr_real t then i else rt_nr_real t)\<rparr>
      | None \<Rightarrow> Inl Hang)"

definition vfs_ipc_remove_heap :: "real_table \<Rightarrow> u64 \<Rightarrow> real_table res" where
  "vfs_ipc_remove_heap t begn =
     (case find_slot (\<lambda>e. ipc_begin e = begn) (take (rt_nr_real t) (rt_tab t)) of
        Some i \<Rightarrow> Inr (t\<lparr>rt_tab := (rt_tab t)[i := no_window]\<rparr>)
      | None \<Rightarrow> Inr t)"

definition UKBOOT_ipc_tab_stack :: "u64 \<Rightarrow> ipc_struct list" where
  "UKBOOT_ipc_tab_stack sizeof_memregion_desc = [entry 0 sizeof_memregion_desc (bits [19, 25])]"

definition UKBOOT_ipc_tab_globals :: "ipc_struct list" where
  "UKBOOT_ipc_tab_globals = []"

definition UKBOOT_ipc_tab_heap :: real_table where
  "UKBOOT_ipc_tab_heap = \<lparr>rt_tab = replicate UKBOOT_HEAP_MAX no_window, rt_nr_real = 0\<rparr>"

definition ukboot_ipc_add_heap :: "real_table \<Rightarrow> u64 \<Rightarrow> u64 \<Rightarrow> int \<Rightarrow> real_table res" where
  "ukboot_ipc_add_heap t begn sz msk =
     (case find_slot (\<lambda>e. ipc_size e = 0) (take UKBOOT_HEAP_MAX (rt_tab t)) of
        Some i \<Rightarrow> Inr \<lparr>rt_tab = (rt_tab t)[i := entry begn sz msk],
                       rt_nr_real = (if i \<ge> rt_nr_real t then i else rt_nr_real t)\<rparr>
      | None \<Rightarrow> Inl Hang)"

definition ukboot_ipc_remove_heap :: "real_table \<Rightarrow> u64 \<Rightarrow> real_table res" where
  "ukboot_ipc_remove_heap t begn =
     (case find_slot (\<lambda>e. ipc_begin e = begn) (take (rt_nr_real t) (rt_tab t)) of
        Some i \<Rightarrow> Inr (t\<lparr>rt_tab := (rt_tab t)[i := no_window]\<rparr>)
      | None \<Rightarrow> Inr t)"

section \<open>Slots\<close>

lemma find_slot_Some:
  "find_slot P xs = Some i \<longleftrightarrow> i < length xs \<and> P (xs ! i) \<and> (\<forall>j < i. \<not> P (xs ! j))"
proof (induction xs arbitrary: i)
  case (Cons x xs)
  show ?case
  proof (cases i)
    case 0
    then show ?thesis by auto
  next
    case (Suc k)
    then show ?thesis using Cons.IH [of k] by (auto simp: less_Suc_eq_0_disj)
  qed
qed simp

lemma find_slot_None: "find_slot P xs = None \<longleftrightarrow> (\<forall>e \<in> set xs. \<not> P e)"
  by (induction xs) auto

lemma find_slot_takeD:
  assumes "find_slot P (take n xs) = Some i"
  shows "i < length xs" "i < n" "P (xs ! i)" "\<And>j. j < i \<Longrightarrow> \<not> P (xs ! j)"
  using assms by (auto simp: find_slot_Some)

lemma find_slot_takeI:
  "i < length xs \<Longrightarrow> i < n \<Longrightarrow> P (xs ! i) \<Longrightarrow> (\<And>j. j < i \<Longrightarrow> \<not> P (xs ! j)) \<Longrightarrow>
     find_slot P (take n xs) = Some i"
  by (auto simp: find_slot_Some)

lemma list_update_keeps: "e \<in> set xs \<Longrightarrow> e \<noteq> xs ! i \<Longrightarrow> e \<in> set (xs[i := v])"
  by (auto simp: in_set_conv_nth) (metis nth_list_update_neq)

text \<open>A slot that is not in use holds no window, not even an empty one with a mask.\<close>

definition tidy :: "ipc_struct list \<Rightarrow> bool" where
  "tidy xs \<longleftrightarrow> (\<forall>e \<in> set xs. ipc_size e = 0 \<longrightarrow> e = no_window)"

definition single :: "u64 \<Rightarrow> ipc_struct list \<Rightarrow> bool" where
  "single b xs \<longleftrightarrow> (\<forall>i < length xs. \<forall>j < length xs.
     ipc_begin (xs ! i) = b \<longrightarrow> ipc_begin (xs ! j) = b \<longrightarrow> i = j)"

lemma entry_fields [simp]:
  "ipc_begin (entry b sz m) = b" "ipc_size (entry b sz m) = sz" "ipc_mask (entry b sz m) = word_of_int m"
  by (simp_all add: entry_def)

lemma no_window_fields [simp]:
  "ipc_begin no_window = 0" "ipc_size no_window = 0" "ipc_mask no_window = 0"
  by (simp_all add: no_window_def)

lemma tidy_update: "tidy xs \<Longrightarrow> ipc_size e \<noteq> 0 \<or> e = no_window \<Longrightarrow> tidy (xs[i := e])"
  by (auto simp: tidy_def dest!: set_update_subset_insert [THEN subsetD])

section \<open>The interface\<close>

text \<open>
  What a cubicle's code relies on: opening a window puts its descriptor into the table,
  succeeds while a slot is free, and disturbs no other window; closing one only clears
  descriptors with the given start.
\<close>

locale window_table =
  fixes add :: "'t \<Rightarrow> u64 \<Rightarrow> u64 \<Rightarrow> int \<Rightarrow> 't res"
    and remove :: "'t \<Rightarrow> u64 \<Rightarrow> 't res"
    and tab :: "'t \<Rightarrow> ipc_struct list"
    and cap :: nat
  assumes add_slot: "add t b sz m = Inr t' \<Longrightarrow>
      \<exists>i < length (tab t). tab t' = (tab t)[i := entry b sz m] \<and>
        (ipc_size (tab t ! i) = 0 \<or> ipc_begin (tab t ! i) = b)"
    and add_free: "length (tab t) = cap \<Longrightarrow> e \<in> set (tab t) \<Longrightarrow> ipc_size e = 0 \<Longrightarrow>
      \<exists>t'. add t b sz m = Inr t'"
    and remove_slot: "remove t b = Inr t' \<Longrightarrow> tab t' = tab t \<or>
      (\<exists>i < length (tab t). tab t' = (tab t)[i := no_window] \<and> ipc_begin (tab t ! i) = b)"
begin

lemma add_opens: "add t b sz m = Inr t' \<Longrightarrow> entry b sz m \<in> set (tab t')"
  using add_slot by (metis set_update_memI)

lemma add_keeps:
  "add t b sz m = Inr t' \<Longrightarrow> e \<in> set (tab t) \<Longrightarrow> ipc_size e \<noteq> 0 \<Longrightarrow> ipc_begin e \<noteq> b \<Longrightarrow>
     e \<in> set (tab t')"
  using add_slot [of t b sz m t'] by (metis list_update_keeps)

lemma add_only: "add t b sz m = Inr t' \<Longrightarrow> e \<in> set (tab t') \<Longrightarrow> e = entry b sz m \<or> e \<in> set (tab t)"
  using add_slot [of t b sz m t'] by (auto dest: set_update_subset_insert [THEN subsetD])

lemma remove_keeps:
  "remove t b = Inr t' \<Longrightarrow> e \<in> set (tab t) \<Longrightarrow> ipc_begin e \<noteq> b \<Longrightarrow> e \<in> set (tab t')"
  using remove_slot [of t b t'] by (metis list_update_keeps)

lemma remove_only: "remove t b = Inr t' \<Longrightarrow> e \<in> set (tab t') \<Longrightarrow> e = no_window \<or> e \<in> set (tab t)"
  using remove_slot [of t b t'] by (auto dest: set_update_subset_insert [THEN subsetD])

lemma keeps_length:
  shows "add t b sz m = Inr t' \<Longrightarrow> length (tab t') = length (tab t)"
    and "remove t b = Inr t' \<Longrightarrow> length (tab t') = length (tab t)"
  by (auto dest!: add_slot remove_slot)

lemma keeps_tidy:
  shows "add t b sz m = Inr t' \<Longrightarrow> sz \<noteq> 0 \<Longrightarrow> tidy (tab t) \<Longrightarrow> tidy (tab t')"
    and "remove t b = Inr t' \<Longrightarrow> tidy (tab t) \<Longrightarrow> tidy (tab t')"
  by (auto dest!: add_slot remove_slot simp: tidy_update)

end

text \<open>A table that closes what it opened.\<close>

locale closing_table = window_table +
  assumes remove_found: "length (tab t) = cap \<Longrightarrow> e \<in> set (tab t) \<Longrightarrow> ipc_begin e = b \<Longrightarrow>
      \<exists>t' i. remove t b = Inr t' \<and> i < length (tab t) \<and> ipc_begin (tab t ! i) = b \<and>
        tab t' = (tab t)[i := no_window]"
    and tab_inj: "tab t = tab u \<Longrightarrow> t = u"
begin

lemma remove_closes:
  assumes "remove t b = Inr t'" "length (tab t) = cap" "single b (tab t)" "b \<noteq> 0" "e \<in> set (tab t')"
  shows "ipc_begin e \<noteq> b"
proof (cases "\<exists>e \<in> set (tab t). ipc_begin e = b")
  case True
  then obtain i where i: "i < length (tab t)" "ipc_begin (tab t ! i) = b" "tab t' = (tab t)[i := no_window]"
    using remove_found [OF assms(2)] assms(1) by (metis sum.inject(2))
  from assms(5) obtain j where j: "j < length (tab t)" "e = tab t' ! j"
    by (auto simp: in_set_conv_nth i(3))
  show ?thesis
  proof (cases "j = i")
    case False
    with i j assms(3) show ?thesis by (auto simp: single_def)
  qed (use i j assms(4) in auto)
next
  case False
  with remove_only [OF assms(1,5)] assms(4) show ?thesis by auto
qed

lemma remove_after_add:
  assumes add: "add t b sz m = Inr t'" and len: "length (tab t) = cap" and "tidy (tab t)"
    and fresh: "b \<notin> ipc_begin ` set (tab t)" 
  shows "remove t' b = Inr t"
proof -
  obtain i where i: "i < length (tab t)" "tab t' = (tab t)[i := entry b sz m]"
    and "ipc_size (tab t ! i) = 0 \<or> ipc_begin (tab t ! i) = b"
    using add_slot [OF add] by blast
  with assms have old: "tab t ! i = no_window" by (force simp: tidy_def)
  have "length (tab t') = cap" using len i(2) by simp
  from remove_found [OF this add_opens [OF add]] obtain t'' j
    where rm: "remove t' b = Inr t''" and j: "j < length (tab t')" "ipc_begin (tab t' ! j) = b"
      "tab t'' = (tab t')[j := no_window]" by auto
  have "j = i"
  proof (rule ccontr)
    assume "j \<noteq> i"
    then show False using j i fresh by auto
  qed
  then have "tab t'' = tab t" using i(2) j(3) old by (metis list_update_id list_update_overwrite)
  then have "t'' = t" by (rule tab_inj)
  with rm show ?thesis by simp
qed

end

section \<open>The tables implement the interface\<close>

lemma first_slot:
  assumes "length xs = n" "e \<in> set xs" "P e"
  shows "\<exists>i. find_slot P (take n xs) = Some i \<and> i < length xs \<and> P (xs ! i)"
proof -
  from assms have "find_slot P (take n xs) \<noteq> None" by (auto simp: find_slot_None)
  then obtain i where "find_slot P (take n xs) = Some i" by blast
  with find_slot_takeD [OF this] show ?thesis by blast
qed

text \<open>
  The five tables of 100 descriptors differ in which slot an addition takes and in what a
  removal of an unknown window does.
\<close>

lemma closing_tableI:
  assumes A: "\<And>t b sz m. A t b sz m = (case find_slot (Q b) (take n t) of
        Some i \<Rightarrow> Inr (t[i := entry b sz m]) | None \<Rightarrow> Inl Hang)"
    and R: "\<And>t b. R t b = (case find_slot (\<lambda>e. ipc_begin e = b) (take n t) of
        Some i \<Rightarrow> Inr (t[i := no_window]) | None \<Rightarrow> r t)"
    and r: "\<And>t. r t = Inl Hang \<or> r t = Inr t"
    and Q: "\<And>b e. ipc_size e = 0 \<Longrightarrow> Q b e" "\<And>b e. Q b e \<Longrightarrow> ipc_size e = 0 \<or> ipc_begin e = b"
  shows "closing_table A R (\<lambda>t. t) n"
proof
  fix t t' b sz m
  assume "A t b sz m = Inr t'"
  then obtain i where "find_slot (Q b) (take n t) = Some i" "t' = t[i := entry b sz m]"
    by (auto simp: A split: option.splits)
  with find_slot_takeD [OF this(1)] Q(2) show "\<exists>i < length t. t' = t[i := entry b sz m] \<and>
      (ipc_size (t ! i) = 0 \<or> ipc_begin (t ! i) = b)" by blast
next
  fix t :: "ipc_struct list" and e b sz m
  assume "length t = n" "e \<in> set t" "ipc_size e = 0"
  with first_slot [of t n e "Q b"] Q(1) obtain i where "find_slot (Q b) (take n t) = Some i" by blast
  then show "\<exists>t'. A t b sz m = Inr t'" by (simp add: A)
next
  fix t t' b
  assume rm: "R t b = Inr t'"
  show "t' = t \<or> (\<exists>i < length t. t' = t[i := no_window] \<and> ipc_begin (t ! i) = b)"
  proof (cases "find_slot (\<lambda>e. ipc_begin e = b) (take n t)")
    case None
    with rm r [of t] show ?thesis by (auto simp: R)
  next
    case (Some i)
    with rm find_slot_takeD(1,3) [OF Some] show ?thesis by (auto simp: R)
  qed
next
  fix t :: "ipc_struct list" and e b
  assume "length t = n" "e \<in> set t" "ipc_begin e = b"
  with first_slot [of t n e "\<lambda>e. ipc_begin e = b"] obtain i
    where "find_slot (\<lambda>e. ipc_begin e = b) (take n t) = Some i" "i < length t" "ipc_begin (t ! i) = b"
    by blast
  then show "\<exists>t' i. R t b = Inr t' \<and> i < length t \<and> ipc_begin (t ! i) = b \<and> t' = t[i := no_window]"
    by (auto simp: R)
qed

interpretation ramfs: closing_table ramfs_ipc_add_heap ramfs_ipc_remove_heap "\<lambda>t. t" HEAP_MAX
  by (rule closing_tableI [where Q = "\<lambda>_ e. ipc_size e = 0" and r = "\<lambda>_. Inl Hang"])
    (simp_all add: ramfs_ipc_add_heap_def ramfs_ipc_remove_heap_def)

interpretation uknetdev: closing_table uknetdev_ipc_add_heap uknetdev_ipc_remove_heap "\<lambda>t. t" HEAP_MAX
  by (rule closing_tableI [where Q = "\<lambda>_ e. ipc_size e = 0" and r = "\<lambda>_. Inl Hang"])
    (simp_all add: uknetdev_ipc_add_heap_def uknetdev_ipc_remove_heap_def)

interpretation linuxuplat: closing_table linuxuplat_ipc_add_heap linuxuplat_ipc_remove_heap "\<lambda>t. t" HEAP_MAX
  by (rule closing_tableI [where Q = "\<lambda>_ e. ipc_size e = 0" and r = "\<lambda>_. Inl Hang"])
    (simp_all add: linuxuplat_ipc_add_heap_def linuxuplat_ipc_remove_heap_def)

interpretation nginx: closing_table app_ipc_add_heap app_ipc_remove_heap "\<lambda>t. t" HEAP_MAX
  by (rule closing_tableI [where Q = "\<lambda>_ e. ipc_size e = 0" and r = "\<lambda>t. Inr t"])
    (simp_all add: app_ipc_add_heap_def app_ipc_remove_heap_def)

interpretation lwip: closing_table lwip_ipc_add_heap lwip_ipc_remove_heap "\<lambda>t. t" HEAP_MAX
  by (rule closing_tableI [where Q = "\<lambda>b e. \<not> (ipc_size e \<noteq> 0 \<and> ipc_begin e \<noteq> b)" and r = "\<lambda>_. Inl Hang"])
    (auto simp: lwip_ipc_add_heap_def lwip_ipc_remove_heap_def)

lemma real_tableI:
  assumes A: "\<And>t b sz m. A t b sz m = (case find_slot (\<lambda>e. ipc_size e = 0) (take n (rt_tab t)) of
        Some i \<Rightarrow> Inr \<lparr>rt_tab = (rt_tab t)[i := entry b sz m],
                     rt_nr_real = (if i \<ge> rt_nr_real t then i else rt_nr_real t)\<rparr>
      | None \<Rightarrow> Inl Hang)"
    and R: "\<And>t b. R t b = (case find_slot (\<lambda>e. ipc_begin e = b) (take (rt_nr_real t) (rt_tab t)) of
        Some i \<Rightarrow> Inr (t\<lparr>rt_tab := (rt_tab t)[i := no_window]\<rparr>) | None \<Rightarrow> Inr t)"
  shows "window_table A R rt_tab n"
proof
  fix t t' :: real_table and b sz m
  assume "A t b sz m = Inr t'"
  then obtain i where "find_slot (\<lambda>e. ipc_size e = 0) (take n (rt_tab t)) = Some i"
    "rt_tab t' = (rt_tab t)[i := entry b sz m]"
    by (auto simp: A split: option.splits)
  with find_slot_takeD [OF this(1)] show "\<exists>i < length (rt_tab t). rt_tab t' = (rt_tab t)[i := entry b sz m] \<and>
      (ipc_size (rt_tab t ! i) = 0 \<or> ipc_begin (rt_tab t ! i) = b)" by blast
next
  fix t :: real_table and e b sz m
  assume "length (rt_tab t) = n" "e \<in> set (rt_tab t)" "ipc_size e = 0"
  with first_slot [of "rt_tab t" n e "\<lambda>e. ipc_size e = 0"] show "\<exists>t'. A t b sz m = Inr t'"
    by (auto simp: A)
next
  fix t t' :: real_table and b
  assume rm: "R t b = Inr t'"
  show "rt_tab t' = rt_tab t \<or>
    (\<exists>i < length (rt_tab t). rt_tab t' = (rt_tab t)[i := no_window] \<and> ipc_begin (rt_tab t ! i) = b)"
  proof (cases "find_slot (\<lambda>e. ipc_begin e = b) (take (rt_nr_real t) (rt_tab t))")
    case None
    with rm show ?thesis by (auto simp: R)
  next
    case (Some i)
    with rm find_slot_takeD(1,3) [OF Some] show ?thesis by (auto simp: R)
  qed
qed

interpretation vfscore: window_table vfs_ipc_add_heap vfs_ipc_remove_heap rt_tab VFS_HEAP_MAX
  by (rule real_tableI) (simp_all add: vfs_ipc_add_heap_def vfs_ipc_remove_heap_def)

interpretation ukboot: window_table ukboot_ipc_add_heap ukboot_ipc_remove_heap rt_tab UKBOOT_HEAP_MAX
  by (rule real_tableI) (simp_all add: ukboot_ipc_add_heap_def ukboot_ipc_remove_heap_def)

section \<open>Windows and the fault handler\<close>

text \<open>
  \<open>table_at s ptr xs\<close>: the memory that the monitor reads at \<open>ptr\<close> holds the table \<open>xs\<close>.
\<close>

definition grants :: "bool \<Rightarrow> int \<Rightarrow> u64 \<Rightarrow> ipc_struct \<Rightarrow> bool" where
  "grants slack c addr e \<longleftrightarrow>
     (\<exists>b. caller_bit c = Inr b \<and> ipc_mask e AND b \<noteq> 0 \<and>
        (covers (ipc_begin e) (ipc_size e) addr \<or> slack \<and> covers (ipc_begin e) 4096 addr))"

definition table_at :: "mon \<Rightarrow> u64 \<Rightarrow> ipc_struct list \<Rightarrow> bool" where
  "table_at s ptr xs \<longleftrightarrow> (\<forall>i < length xs. ipc_at s ptr i = xs ! i)"

lemma open_window_table:
  assumes "table_at s ptr xs"
  shows "open_window s ptr (int (length xs)) slack c a \<longleftrightarrow> (\<exists>e \<in> set xs. grants slack c a e)"
proof -
  have "open_window s ptr (int (length xs)) slack c a \<longleftrightarrow> (\<exists>i < length xs. grants slack c a (ipc_at s ptr i))"
    by (simp add: open_window_def grants_def)
  also have "\<dots> \<longleftrightarrow> (\<exists>i < length xs. grants slack c a (xs ! i))"
    using assms by (auto simp: table_at_def)
  finally show ?thesis by (metis in_set_conv_nth)
qed

lemma no_window_grants [simp]: "\<not> grants slack c a no_window"
  by (simp add: grants_def)

text \<open>
  A fault of cubicle \<open>c\<close> on a heap page of cubicle \<open>e\<close>, whose registered heap table is \<open>xs\<close>.
\<close>

definition heap_fault :: "mon \<Rightarrow> u64 \<Rightarrow> u64 \<Rightarrow> u64 \<Rightarrow> int \<Rightarrow> int \<Rightarrow> ipc_struct list \<Rightarrow> bool" where
  "heap_fault s rip rsp addr c e xs \<longleftrightarrow>
     get_state s rip rsp addr = Inr (ACCESS_TO_HEAP, c, e) \<and> isolated s c \<and> isolated s e \<and>
     page_key (mpk s) (page_of addr) \<noteq> None \<and>
     table_at s (ipc_tab_heap_ptr (mod_of s e)) xs \<and> ipc_heap_nr (mod_of s e) = int (length xs)"

definition strangers :: "mon \<Rightarrow> int \<Rightarrow> int \<Rightarrow> bool" where
  "strangers s c e \<longleftrightarrow> c \<noteq> e \<and> key_of s e \<noteq> key_of s c \<and> \<not> (e = E_APP \<and> c = E_LINUXUPLAT)"

lemma heap_fault_granted:
  assumes "heap_fault s rip rsp addr c e xs" "w \<in> set xs" "grants True c addr w"
  shows "\<exists>s'. sig_handler s rip rsp addr = Inr s' \<and> page_key (mpk s') (page_of addr) = Some (key_of s c)"
proof -
  from assms(1) have st: "get_state s rip rsp addr = Inr (ACCESS_TO_HEAP, c, e)" "isolated s c"
    "isolated s e" "page_key (mpk s) (page_of addr) \<noteq> None"
    and tab: "table_at s (ipc_tab_heap_ptr (mod_of s e)) xs" "ipc_heap_nr (mod_of s e) = int (length xs)"
    by (auto simp: heap_fault_def)
  have "allowed s ACCESS_TO_HEAP c e addr"
    using open_window_table [OF tab(1), of True c addr] assms(2,3) by (auto simp: tab(2))
  with handler_decides [OF st] show ?thesis by simp
qed

lemma heap_fault_refused:
  assumes "heap_fault s rip rsp addr c e xs" "strangers s c e" "\<And>w. w \<in> set xs \<Longrightarrow> \<not> grants True c addr w"
  shows "sig_handler s rip rsp addr = Inl Hang"
proof -
  from assms(1) have st: "get_state s rip rsp addr = Inr (ACCESS_TO_HEAP, c, e)" "isolated s c"
    "isolated s e" "page_key (mpk s) (page_of addr) \<noteq> None"
    and tab: "table_at s (ipc_tab_heap_ptr (mod_of s e)) xs" "ipc_heap_nr (mod_of s e) = int (length xs)"
    by (auto simp: heap_fault_def)
  have "\<not> allowed s ACCESS_TO_HEAP c e addr"
    using open_window_table [OF tab(1), of True c addr] assms(2,3) by (auto simp: tab(2) strangers_def)
  with handler_decides [OF st] show ?thesis by simp
qed

context window_table
begin

lemma opened_window_serves_fault:
  assumes "add t b sz m = Inr t'" "heap_fault s rip rsp addr c e (tab t')"
    and "caller_bit c = Inr k" "word_of_int m AND k \<noteq> 0" "covers b sz addr"
  shows "\<exists>s'. sig_handler s rip rsp addr = Inr s' \<and> page_key (mpk s') (page_of addr) = Some (key_of s c)"
proof (rule heap_fault_granted [OF assms(2) add_opens [OF assms(1)]])
  show "grants True c addr (entry b sz m)" using assms(3-5) by (auto simp: grants_def)
qed

end

context closing_table
begin

lemma closed_window_stops_fault:
  assumes "remove t b = Inr t'" "length (tab t) = cap" "single b (tab t)" "b \<noteq> 0"
    and "heap_fault s rip rsp addr c e (tab t')" "strangers s c e"
    and others: "\<And>w. w \<in> set (tab t) \<Longrightarrow> ipc_begin w \<noteq> b \<Longrightarrow> \<not> grants True c addr w"
  shows "sig_handler s rip rsp addr = Inl Hang"
proof (rule heap_fault_refused [OF assms(5,6)])
  fix w
  assume w: "w \<in> set (tab t')"
  from remove_closes [OF assms(1-4) w] remove_only [OF assms(1) w] others
  show "\<not> grants True c addr w" by auto
qed

end

lemmas opened_windows =
  ramfs.opened_window_serves_fault uknetdev.opened_window_serves_fault
  linuxuplat.opened_window_serves_fault nginx.opened_window_serves_fault
  lwip.opened_window_serves_fault

lemmas closed_windows =
  ramfs.closed_window_stops_fault uknetdev.closed_window_stops_fault
  linuxuplat.closed_window_stops_fault nginx.closed_window_stops_fault
  lwip.closed_window_stops_fault

text \<open>
  C4 (opening a window grants access): after a cubicle has added a window to its heap table,
  a fault of a cubicle named in the mask at an address of the window returns with the page
  re-keyed for that cubicle.
\<close>

theorem opened_window_grants_access:
  assumes "add \<in> {ramfs_ipc_add_heap, uknetdev_ipc_add_heap, linuxuplat_ipc_add_heap,
                  app_ipc_add_heap, lwip_ipc_add_heap}"
    and "add t b sz m = Inr t'" "heap_fault s rip rsp addr c e t'"
    and "caller_bit c = Inr k" "word_of_int m AND k \<noteq> 0" "covers b sz addr"
  shows "\<exists>s'. sig_handler s rip rsp addr = Inr s' \<and> page_key (mpk s') (page_of addr) = Some (key_of s c)"
  using assms(1,2) by (auto dest: opened_windows [OF _ assms(3-6)])

text \<open>
  C5 (closing a window revokes access): after a cubicle has removed the window that starts at
  \<open>b\<close> from its heap table, a fault of a cubicle with another key at an address that no other
  window of the table opens to it never returns: the access does not happen.
\<close>

theorem closed_window_revokes_access:
  assumes "remove \<in> {ramfs_ipc_remove_heap, uknetdev_ipc_remove_heap, linuxuplat_ipc_remove_heap,
                  app_ipc_remove_heap, lwip_ipc_remove_heap}"
    and "remove t b = Inr t'" "length t = HEAP_MAX" "single b t" "b \<noteq> 0"
    and "heap_fault s rip rsp addr c e t'" "strangers s c e"
    and "\<And>w. w \<in> set t \<Longrightarrow> ipc_begin w \<noteq> b \<Longrightarrow> \<not> grants True c addr w"
  shows "sig_handler s rip rsp addr = Inl Hang"
  using assms(1,2) by (auto dest: closed_windows [OF _ assms(3-8)])

lemmas added_windows =
  ramfs.remove_after_add uknetdev.remove_after_add linuxuplat.remove_after_add
  nginx.remove_after_add lwip.remove_after_add

text \<open>
  C6 (opening and closing is a round trip): in a table without stale descriptors, adding a
  window at an address where none starts and removing it again gives back the same table;
  the removal does not stop.
\<close>

theorem window_round_trip:
  assumes "(add, remove) \<in> {(ramfs_ipc_add_heap, ramfs_ipc_remove_heap),
      (uknetdev_ipc_add_heap, uknetdev_ipc_remove_heap),
      (linuxuplat_ipc_add_heap, linuxuplat_ipc_remove_heap),
      (app_ipc_add_heap, app_ipc_remove_heap), (lwip_ipc_add_heap, lwip_ipc_remove_heap)}"
    and "add t b sz m = Inr t'" "length t = HEAP_MAX" "tidy t" "b \<notin> ipc_begin ` set t"
  shows "remove t' b = Inr t"
  using assms(1,2) by (auto dest: added_windows [OF _ assms(3-5)])

section \<open>Windows of vfscore and ukboot\<close>

text \<open>
  \<^verbatim>\<open>nr_real\<close> is set to the index of the last slot in use, and the loop of the removal stops
  before that index.
\<close>

lemma real_slot_stays:
  assumes A: "find_slot (\<lambda>e. ipc_size e = 0) (take n (rt_tab t)) = Some i"
    and used: "\<forall>e \<in> set (take (rt_nr_real t) (rt_tab t)). ipc_size e \<noteq> 0"
    and fresh: "b \<notin> ipc_begin ` set (rt_tab t)"
  shows "rt_nr_real t \<le> i \<and> find_slot (\<lambda>e. ipc_begin e = b) (take i ((rt_tab t)[i := entry b sz m])) = None"
proof
  note i = find_slot_takeD [OF A]
  show "rt_nr_real t \<le> i"
  proof (rule ccontr)
    assume "\<not> rt_nr_real t \<le> i"
    then have "rt_tab t ! i \<in> set (take (rt_nr_real t) (rt_tab t))"
      using i(1) by (auto simp: in_set_conv_nth intro!: exI [of _ i])
    with used i(3) show False by blast
  qed
  show "find_slot (\<lambda>e. ipc_begin e = b) (take i ((rt_tab t)[i := entry b sz m])) = None"
    using fresh by (auto simp: find_slot_None dest: in_set_takeD)
qed

text \<open>
  C7: in the tables of vfscore and ukboot a window that is added behind all windows in use can
  not be closed: removing it has no effect and the window stays open.
\<close>

theorem last_window_stays_open:
  assumes "(add, remove) \<in> {(vfs_ipc_add_heap, vfs_ipc_remove_heap),
      (ukboot_ipc_add_heap, ukboot_ipc_remove_heap)}"
    and "add t b sz m = Inr t'" "b \<notin> ipc_begin ` set (rt_tab t)"
    and "\<forall>e \<in> set (take (rt_nr_real t) (rt_tab t)). ipc_size e \<noteq> 0"
  shows "remove t' b = Inr t' \<and> entry b sz m \<in> set (rt_tab t')"
proof -
  from assms(1) have "entry b sz m \<in> set (rt_tab t')"
    using assms(2) vfscore.add_opens ukboot.add_opens by auto
  moreover have "remove t' b = Inr t'"
    using assms(1,2) real_slot_stays [OF _ assms(4,3)]
    by (auto simp: vfs_ipc_add_heap_def vfs_ipc_remove_heap_def ukboot_ipc_add_heap_def
        ukboot_ipc_remove_heap_def split: option.splits)
  ultimately show ?thesis by simp
qed

section \<open>Concrete tables\<close>

definition ex_tab :: "ipc_struct list" where
  "ex_tab = ex_window # replicate 99 no_window"

lemma ex_window_entry: "ex_window = entry 0x10000 4096 0x200004"
  by (simp add: ex_window_def entry_def)

lemma heap_tab_100: "RAMFS_ipc_tab_heap = no_window # replicate 99 no_window"
  by (simp add: RAMFS_ipc_tab_heap_def HEAP_MAX_def numeral_eq_Suc)

lemma ex_add: "ramfs_ipc_add_heap RAMFS_ipc_tab_heap 0x10000 4096 0x200004 = Inr ex_tab"
  by (simp add: ramfs_ipc_add_heap_def heap_tab_100 HEAP_MAX_def ex_tab_def ex_window_entry)

lemma ex_remove: "ramfs_ipc_remove_heap ex_tab 0x10000 = Inr RAMFS_ipc_tab_heap"
  by (simp add: ramfs_ipc_remove_heap_def heap_tab_100 HEAP_MAX_def ex_tab_def ex_window_entry)

lemma ex_tab_at: "table_at ex_mon 0x101000 ex_tab"
  unfolding table_at_def
proof (intro allI impI)
  fix i
  assume i: "i < length ex_tab"
  then have "unat (of_nat i * 24 :: u64) = i * 24"
    by (simp add: ex_tab_def unat_word_ariths unat_of_nat)
  then have "of_nat i * 24 = (0 :: u64) \<longleftrightarrow> i = 0"
    by (metis mult_eq_0_iff unat_eq_zero_iff zero_neq_numeral)
  with i show "ipc_at ex_mon 0x101000 i = ex_tab ! i"
    by (auto simp: ipc_at_def ex_mon_def ex_tab_def nth_Cons' no_window_def entry_def)
qed

lemma ex_tab_closed_at: "table_at (ex_mon\<lparr>ipc_mem := (\<lambda>_. no_window)\<rparr>) 0x101000 RAMFS_ipc_tab_heap"
  by (simp add: table_at_def ipc_at_def RAMFS_ipc_tab_heap_def)

lemma ex_mapped: "page_key ex_mpk (page_of 0x10008) \<noteq> None"
  by (simp add: ex_pages ex_mpk_def)

lemma ex_heap_fault: "heap_fault ex_mon 0x100010 0x102800 0x10008 21 2 ex_tab"
  using ex_tab_at ex_isolated ex_mapped
  by (simp add: heap_fault_def ex_get_state) (simp add: ex_tab_def)

lemma ex_heap_fault_closed:
  "heap_fault (ex_mon\<lparr>ipc_mem := (\<lambda>_. no_window)\<rparr>) 0x100010 0x102800 0x10008 21 2 RAMFS_ipc_tab_heap"
  using ex_tab_closed_at ex_isolated ex_mapped
  by (simp add: heap_fault_def ex_get_state) (simp add: RAMFS_ipc_tab_heap_def HEAP_MAX_def)

theorem opened_window_grants_access_witness:
  "ramfs_ipc_add_heap RAMFS_ipc_tab_heap 0x10000 4096 0x200004 = Inr ex_tab \<and>
   (\<exists>s'. sig_handler ex_mon 0x100010 0x102800 0x10008 = Inr s' \<and>
      page_key (mpk s') (page_of 0x10008) = Some (key_of ex_mon 21))"
  using opened_window_grants_access [where add = ramfs_ipc_add_heap, OF _ ex_add ex_heap_fault ex_bit] ex_add
  by (simp add: covers_def)

theorem closed_window_revokes_access_witness:
  "ramfs_ipc_remove_heap ex_tab 0x10000 = Inr RAMFS_ipc_tab_heap \<and>
   sig_handler (ex_mon\<lparr>ipc_mem := (\<lambda>_. no_window)\<rparr>) 0x100010 0x102800 0x10008 = Inl Hang"
proof (rule conjI [OF ex_remove])
  show "sig_handler (ex_mon\<lparr>ipc_mem := (\<lambda>_. no_window)\<rparr>) 0x100010 0x102800 0x10008 = Inl Hang"
  proof (rule closed_window_revokes_access [where remove = ramfs_ipc_remove_heap, OF _ ex_remove _ _ _
        ex_heap_fault_closed])
    show "length ex_tab = HEAP_MAX" by (simp add: ex_tab_def HEAP_MAX_def)
    show "single 0x10000 ex_tab"
      by (auto simp: single_def ex_tab_def nth_Cons' split: if_splits)
    show "strangers (ex_mon\<lparr>ipc_mem := (\<lambda>_. no_window)\<rparr>) 21 2"
      by (simp add: strangers_def E_APP_def)
    show "\<not> grants True 21 0x10008 w" if "w \<in> set ex_tab" "ipc_begin w \<noteq> 0x10000" for w
      using that by (auto simp: ex_tab_def ex_window_entry)
  qed auto
qed

theorem window_round_trip_witness:
  "lwip_ipc_remove_heap ((LWIP_ipc_tab_heap)[0 := entry 0x5000 64 0x220000]) 0x5000 = Inr LWIP_ipc_tab_heap"
proof (rule window_round_trip)
  show "(lwip_ipc_add_heap, lwip_ipc_remove_heap) \<in> {(ramfs_ipc_add_heap, ramfs_ipc_remove_heap),
      (uknetdev_ipc_add_heap, uknetdev_ipc_remove_heap),
      (linuxuplat_ipc_add_heap, linuxuplat_ipc_remove_heap),
      (app_ipc_add_heap, app_ipc_remove_heap), (lwip_ipc_add_heap, lwip_ipc_remove_heap)}" by simp
  show "lwip_ipc_add_heap LWIP_ipc_tab_heap 0x5000 64 0x220000 =
      Inr (LWIP_ipc_tab_heap[0 := entry 0x5000 64 0x220000])"
    by (simp add: lwip_ipc_add_heap_def LWIP_ipc_tab_heap_def HEAP_MAX_def numeral_eq_Suc)
qed (auto simp: LWIP_ipc_tab_heap_def tidy_def)

theorem last_window_stays_open_witness:
  "\<exists>t'. vfs_ipc_add_heap VFSCORE_ipc_tab_heap 0x7000 4096 0x200004 = Inr t' \<and>
     vfs_ipc_remove_heap t' 0x7000 = Inr t' \<and> entry 0x7000 4096 0x200004 \<in> set (rt_tab t')"
proof -
  have "no_window \<in> set (rt_tab VFSCORE_ipc_tab_heap)" "length (rt_tab VFSCORE_ipc_tab_heap) = VFS_HEAP_MAX"
    by (simp_all add: VFSCORE_ipc_tab_heap_def VFS_HEAP_MAX_def)
  then obtain t' where t': "vfs_ipc_add_heap VFSCORE_ipc_tab_heap 0x7000 4096 0x200004 = Inr t'"
    using vfscore.add_free no_window_fields(2) by blast
  have "vfs_ipc_remove_heap t' 0x7000 = Inr t' \<and> entry 0x7000 4096 0x200004 \<in> set (rt_tab t')"
    by (rule last_window_stays_open [where add = vfs_ipc_add_heap and remove = vfs_ipc_remove_heap, OF _ t'])
      (auto simp: VFSCORE_ipc_tab_heap_def)
  with t' show ?thesis by blast
qed

end
