(* ===== verification/Monitor_Load.thy ===== *)
theory Monitor_Load
  imports Monitor
begin

text \<open>
  How the monitor (\<^verbatim>\<open>kernel/loader.c\<close>) sets the system up: scanning the module directory,
  reading the modules' address ranges from \<^verbatim>\<open>/proc/self/maps\<close>, registering window tables
  and stacks (\<^verbatim>\<open>create_cubicles\<close> of the generated \<^verbatim>\<open>gen_hooks.h\<close>), hooking the
  procedure linkage tables, assigning and locking protection keys, and building the page map
  \<^verbatim>\<open>mmap_cfg\<close>. What the operating system supplies (the directory, the memory map, the
  dynamic linker's answers) is the record \<open>loader_env\<close>.
\<close>

section \<open>What the operating system supplies\<close>

text \<open>
  A line of \<^verbatim>\<open>/proc/self/maps\<close>: the whole text, and the fields that \<^verbatim>\<open>sscanf\<close> takes from it;
  \<open>ml_path\<close> is absent when the line ends after the inode number.
\<close>

record maps_line =
  ml_text :: string
  ml_start :: u64
  ml_end :: u64
  ml_na :: int
  ml_path :: "string option"

text \<open>An entry of a module's linkage table: where it is, what it points to, the symbol's name.\<close>

record plt_slot =
  sl_addr :: u64
  sl_target :: u64
  sl_name :: string

text \<open>
  One function of an export list: its module, whether the library is loaded, the window
  tables found by \<^verbatim>\<open>dlsym\<close> with the value of their counters, the function's address
  (0 if the symbol is missing) and the stack that \<^verbatim>\<open>mmap\<close> returns.
\<close>

record registration =
  reg_name :: string
  reg_mod :: int
  reg_open :: bool
  reg_stack_tab :: "(u64 \<times> int) option"
  reg_globals_tab :: "(u64 \<times> int) option"
  reg_heap_tab :: "(u64 \<times> int) option"
  reg_call :: u64
  reg_stack :: "u64 option"

record loader_env =
  env_gpath :: string
  env_cwd :: string
  env_dir :: "string list"
  env_libs :: "(int \<times> registration list) list"
  env_maps :: "maps_line list"
  env_slots :: "int \<Rightarrow> plt_slot list option"
  env_hooks :: "(string \<times> string \<times> u64) list"
  env_perm :: "u64 \<Rightarrow> int"
  env_mprotect :: "u64 \<Rightarrow> bool"
  env_fbase :: "u64 \<Rightarrow> u64"
  env_maps2 :: "maps_line list"
  env_app :: bool
  env_plat :: bool

section \<open>Scanning the module directory\<close>

definition scan_module :: "string \<Rightarrow> mon \<Rightarrow> mon res" where
  "scan_module d_name s =
     (if d_name = ''.'' \<or> d_name = ''..'' then Inr s
      else let mid = (if get_id d_name = - 1 then int (pmap_max s) else get_id d_name)
      in bindr (pm s mid) (\<lambda>_.
         bindr (is_must d_name) (\<lambda>must.
         let s1 = upd_pm s mid (\<lambda>p. p\<lparr>pm_name := d_name, pm_start := 0, pm_size := 0, pm_pkey := 0,
                    ipc_stack_nr := 0, ipc_globals_nr := 0, ipc_heap_nr := 0, pm_must := must\<rparr>)
         in bindr (if must
                   then (case pkey_alloc (mpk s1) of
                           None \<Rightarrow> Inl Hang
                         | Some (k, m) \<Rightarrow> Inr (upd_pm (s1\<lparr>mpk := m\<rparr>) mid (\<lambda>p. p\<lparr>pm_pkey := k\<rparr>)))
                   else Inr s1) (\<lambda>s2.
            Inr (if get_id d_name = - 1 then s2\<lparr>pmap_max := pmap_max s2 + 1\<rparr> else s2)))))"

definition scan_modules :: "string list \<Rightarrow> mon \<Rightarrow> mon res" where
  "scan_modules dir s = iterr scan_module dir s"

section \<open>Reading the memory map\<close>

fun strstr :: "string \<Rightarrow> string \<Rightarrow> bool" where
  "strstr [] needle = (needle = [])"
| "strstr (c # cs) needle = (take (length needle) (c # cs) = needle \<or> strstr cs needle)"

text \<open>
  The buffer \<^verbatim>\<open>lpath\<close> keeps its content when a line has no path. After the loop that reads
  the file it holds the last path of the file.
\<close>

definition next_path :: "maps_line \<Rightarrow> string \<Rightarrow> string" where
  "next_path l lpath = (case ml_path l of None \<Rightarrow> lpath | Some p \<Rightarrow> p)"

fun maps_find :: "maps_line list \<Rightarrow> string \<Rightarrow> string \<Rightarrow> nat \<Rightarrow> nat option" where
  "maps_find [] wd lpath i = None"
| "maps_find (l # ls) wd lpath i =
     (if next_path l lpath = wd then Some i else maps_find ls wd (next_path l lpath) (Suc i))"

text \<open>
  The \<^verbatim>\<open>do\<close> loop that adds up the mappings of a module and the anonymous mappings that follow
  them. Reading past the last line is undefined.
\<close>

definition anon_end :: "maps_line \<Rightarrow> maps_line list \<Rightarrow> u64 res" where
  "anon_end l rest =
     (if ml_na l \<noteq> 0 then Inr (ml_end l)
      else case rest of
             [] \<Rightarrow> Inl Undef
           | l' # _ \<Rightarrow>
               if strstr (ml_text l') ''libc-''
               then if ml_end l < 0x3000 then Inl Hang else Inr (ml_end l - 0x3000)
               else Inr (ml_end l))"

fun module_span :: "maps_line list \<Rightarrow> string \<Rightarrow> u64 \<Rightarrow> u64 \<Rightarrow> (u64 \<times> u64) res" where
  "module_span [] wd mstart msize = Inl Undef"
| "module_span (l # ls) wd mstart msize =
     (let lpath = next_path l []
      in if take 1 lpath = ''['' then Inr (mstart, msize)
         else if lpath \<noteq> wd \<and> ml_na l \<noteq> 0 then Inr (mstart, msize)
         else bindr (anon_end l ls) (\<lambda>en.
           module_span ls wd (if mstart = 0 then ml_start l else mstart) (msize + (en - ml_start l))))"

definition module_path :: "string \<Rightarrow> string \<Rightarrow> string \<Rightarrow> string" where
  "module_path gpath cwd name =
     (if take 1 gpath \<noteq> ''/'' then cwd @ ''/'' @ gpath @ ''/'' @ name else gpath @ ''/'' @ name)"

definition parse_proc ::
  "maps_line list \<Rightarrow> string \<Rightarrow> string \<Rightarrow> string \<Rightarrow> u64 \<times> u64 \<Rightarrow> (u64 \<times> u64) res" where
  "parse_proc maps gpath cwd name old =
     (let wd = module_path gpath cwd name
      in if length maps > 1024 then Inl Oob
         else case maps_find maps wd (fold next_path maps []) 0 of
                None \<Rightarrow> Inr old
              | Some i \<Rightarrow> module_span (drop i maps) wd 0 0)"

definition parse_module :: "loader_env \<Rightarrow> nat \<Rightarrow> mon \<Rightarrow> mon res" where
  "parse_module env i s =
     bindr (pm s (int i)) (\<lambda>p.
       bindr (parse_proc (env_maps env) (env_gpath env) (env_cwd env) (pm_name p)
                (pm_start p, pm_size p)) (\<lambda>(st, sz).
         Inr (upd_pm s (int i) (\<lambda>p. p\<lparr>pm_start := st, pm_size := sz\<rparr>))))"

section \<open>The page map\<close>

text \<open>The loops that look for the first and the last line with a substring.\<close>

fun first_line :: "string \<Rightarrow> maps_line list \<Rightarrow> nat option" where
  "first_line pat [] = None"
| "first_line pat (l # ls) = (if strstr (ml_text l) pat then Some 0 else map_option Suc (first_line pat ls))"

definition last_line :: "string \<Rightarrow> maps_line list \<Rightarrow> nat option" where
  "last_line pat ls =
     (case filter (\<lambda>i. strstr (ml_text (ls ! i)) pat) [0..<length ls] of
        [] \<Rightarrow> None | is \<Rightarrow> Some (last is))"

text \<open>The owner that is recorded for the page at an address.\<close>

definition page_owner :: "mon \<Rightarrow> u64 \<Rightarrow> int" where
  "page_owner s a =
     (let i = get_module_id s (mem_to_lib s a)
      in to_char (if i = - 1 then stack_to_lib_id_old s a OR 128 else i))"

definition fill_mmap :: "u64 \<Rightarrow> u64 \<Rightarrow> mon \<Rightarrow> mon res" where
  "fill_mmap start en s =
     (if sint en < sint start then Inl Hang
      else if (sint en - sint start) mod 4096 \<noteq> 0 then Inl Oob
      else Inr (s\<lparr>mmap_start := sint start, mmap_end := sint en,
                  mmap_cfg := map (\<lambda>k. page_owner s (start + of_nat k * 4096))
                                [0..<nat ((sint en - sint start) div 4096)]\<rparr>))"

definition gen_memory_map :: "maps_line list \<Rightarrow> string \<Rightarrow> mon \<Rightarrow> mon res" where
  "gen_memory_map maps wd s =
     (if length maps > 1024 then Inl Oob
      else case first_line ''[heap]'' maps of
             None \<Rightarrow> Inl Hang
           | Some i \<Rightarrow>
               case last_line wd maps of
                 None \<Rightarrow> Inl Oob
               | Some 0 \<Rightarrow> Inl Hang
               | Some end_l \<Rightarrow>
                   if length maps \<le> i + 1 then Inl Undef
                   else fill_mmap (ml_start (maps ! (i + 1))) (ml_end (maps ! end_l)) s)"

section \<open>Hooking linkage tables\<close>

text \<open>
  \<^verbatim>\<open>install_hook\<close> answers 0 when the slot was redirected, 1 for a shared library and 2 for a
  function of an isolated module that has no wrapper. The table \<^verbatim>\<open>hooks\<close> is generated
  from the export lists; \<open>env_perm\<close> and \<open>env_mprotect\<close> stand for
  \<^verbatim>\<open>get_memory_permission\<close> and the success of \<^verbatim>\<open>mprotect\<close>.
\<close>

definition install_hook ::
  "loader_env \<Rightarrow> u64 \<Rightarrow> u64 \<Rightarrow> string \<Rightarrow> string \<Rightarrow> (int \<times> u64) res" where
  "install_hook env addr target module func =
     (if List.member shared_list module then Inr (1, target)
      else case find (\<lambda>(f, m, h). m = module \<and> f = func) (env_hooks env) of
             Some (f, m, hook) \<Rightarrow>
               if hook = 0 then Inr (2, target)
               else if env_perm env addr = 0 then Inl Hang
               else if env_perm env addr AND 2 = 0 \<and> \<not> env_mprotect env (page_base addr) then Inl Hang
               else Inr (0, hook)
           | None \<Rightarrow> bindr (is_must module) (\<lambda>b. if b then Inr (2, target) else Inl Hang))"

text \<open>
  One slot of \<^verbatim>\<open>patch_plt\<close>. A target outside all modules is accepted when the dynamic
  linker says it belongs to the module itself, whose range is then extended over it.
\<close>

definition patch_slot :: "loader_env \<Rightarrow> int \<Rightarrow> plt_slot \<Rightarrow> mon \<Rightarrow> (plt_slot \<times> mon) res" where
  "patch_slot env mid sl s =
     bindr (pm s mid) (\<lambda>p.
       case mem_to_lib s (sl_target sl) of
         None \<Rightarrow>
           if env_fbase env (sl_target sl) \<noteq> pm_start p then Inl Hang
           else Inr (sl, upd_pm s mid (\<lambda>p. p\<lparr>pm_size :=
                  push_bit 12 (drop_bit 12 (sl_target sl) + 1) - pm_start p\<rparr>))
       | Some lib \<Rightarrow>
           if lib = pm_name p then Inr (sl, s)
           else bindr (install_hook env (sl_addr sl) (sl_target sl) lib (sl_name sl))
                  (\<lambda>(ret, t). Inr (sl\<lparr>sl_target := t\<rparr>, s)))"

fun patch_slots ::
  "loader_env \<Rightarrow> int \<Rightarrow> plt_slot list \<Rightarrow> mon \<Rightarrow> (plt_slot list \<times> mon) res" where
  "patch_slots env mid [] s = Inr ([], s)"
| "patch_slots env mid (sl # sls) s =
     bindr (patch_slot env mid sl s) (\<lambda>(sl', s1).
       bindr (patch_slots env mid sls s1) (\<lambda>(sls', s2). Inr (sl' # sls', s2)))"

definition patch_plt :: "loader_env \<Rightarrow> int \<Rightarrow> mon \<Rightarrow> (plt_slot list \<times> mon) res" where
  "patch_plt env mid s =
     bindr (pm s mid) (\<lambda>_.
       case env_slots env mid of
         None \<Rightarrow> Inr ([], s)
       | Some sls \<Rightarrow> patch_slots env mid sls s)"

section \<open>Registering cubicles\<close>

text \<open>The globals of \<^verbatim>\<open>gen_hooks.h\<close> that record who is calling whom.\<close>

record calls =
  remap :: "int list"
  prev_module :: "int list"
  layer :: nat

definition calls_init :: calls where
  "calls_init = \<lparr>remap = replicate E_END 0, prev_module = replicate 16 0, layer = 0\<rparr>"

definition STACK_SIZE :: u64 where "STACK_SIZE = push_bit 22 1"

text \<open>\<^verbatim>\<open>mmap\<close> of anonymous memory: the pages are mapped with the default key.\<close>

definition mmap_pages :: "u64 \<Rightarrow> u64 \<Rightarrow> mon \<Rightarrow> mon" where
  "mmap_pages start len s =
     s\<lparr>mpk := (mpk s)\<lparr>page_key :=
       (\<lambda>p. if in_pages start len p then Some 0 else page_key (mpk s) p)\<rparr>\<rparr>"

definition add_tab ::
  "(mon \<Rightarrow> int \<Rightarrow> u64 \<Rightarrow> int \<Rightarrow> mon res) \<Rightarrow> (u64 \<times> int) option \<Rightarrow> int \<Rightarrow> mon \<Rightarrow> mon res" where
  "add_tab add t mid s = (case t of None \<Rightarrow> Inr s | Some (ptr, nr) \<Rightarrow> add s mid ptr nr)"

text \<open>The block that the generator writes for one exported function.\<close>

definition register_hook :: "int list \<Rightarrow> registration \<Rightarrow> mon \<Rightarrow> mon res" where
  "register_hook rm r s =
     (if \<not> reg_open r then Inr s
      else if \<not> (0 \<le> reg_mod r \<and> reg_mod r < int (length rm)) then Inl Oob
      else let mid = rm ! nat (reg_mod r)
      in bindr (add_tab add_ipc_tab_stack (reg_stack_tab r) mid s) (\<lambda>s1.
         bindr (add_tab add_ipc_tab_globals (reg_globals_tab r) mid s1) (\<lambda>s2.
         bindr (add_tab add_ipc_tab_heap (reg_heap_tab r) mid s2) (\<lambda>s3.
           if reg_call r = 0 then Inr s3
           else case reg_stack r of
                  None \<Rightarrow> Inr s3
                | Some stk \<Rightarrow>
                    stack_attach (mmap_pages stk (STACK_SIZE * 2) s3) mid stk (STACK_SIZE * 2)))))"

definition create_lib :: "int \<times> registration list \<Rightarrow> calls \<times> mon \<Rightarrow> (calls \<times> mon) res" where
  "create_lib lib cs =
     (let (c, s) = cs;
          rm = (remap c)[nat (fst lib) :=
                 to_char (get_module_id s (Some (modnames ! nat (fst lib))))]
      in bindr (iterr (register_hook rm) (snd lib) s) (\<lambda>s'. Inr (c\<lparr>remap := rm\<rparr>, s')))"

definition create_cubicles :: "(int \<times> registration list) list \<Rightarrow> mon \<Rightarrow> (calls \<times> mon) res" where
  "create_cubicles libs s =
     bindr (iterr create_lib libs (calls_init, s)) (\<lambda>(c, s').
       Inr (c\<lparr>remap := (remap c)[nat E_APP := to_char (get_module_id s' (Some ''app.so''))],
              prev_module := (prev_module c)[layer c := E_LINUXUPLAT]\<rparr>, s'))"

section \<open>The loader's main function\<close>

text \<open>Friends of a build flavour get one key.\<close>

definition copy_key :: "int \<Rightarrow> int \<Rightarrow> mon \<Rightarrow> mon" where
  "copy_key dst src s = upd_pm s dst (\<lambda>p. p\<lparr>pm_pkey := key_of s src\<rparr>)"

fun friend_keys :: "build \<Rightarrow> mon \<Rightarrow> mon" where
  "friend_keys Default s = s"
| "friend_keys Sqlite3 s =
     copy_key E_UKBOOT E_VFSCORE (copy_key E_UKALLOC E_VFSCORE (copy_key E_RAMFS E_VFSCORE s))"
| "friend_keys Sqlite4 s = copy_key E_UKBOOT E_VFSCORE (copy_key E_UKALLOC E_VFSCORE s)"
| "friend_keys Nginx s = copy_key E_UKALLOC E_APP s"

definition protect_module ::
  "loader_env \<Rightarrow> nat \<Rightarrow> (int \<Rightarrow> plt_slot list) \<times> mon \<Rightarrow> ((int \<Rightarrow> plt_slot list) \<times> mon) res" where
  "protect_module env i gs =
     (let (g, s) = gs
      in bindr (pm s (int i)) (\<lambda>p.
           if pm_size p = 0 then Inr (g, s)
           else bindr (patch_plt env (int i) s) (\<lambda>(sls, s1).
             bindr (if pm_must p then prot_init s1 (int i) else Inr s1) (\<lambda>s2.
               Inr (g(int i := sls), s2)))))"

definition lock_module :: "nat \<Rightarrow> mon \<Rightarrow> mon res" where
  "lock_module i s =
     bindr (pm s (int i)) (\<lambda>p. if pm_must p then cmp_lock s (int i) else Inr s)"

definition loader_main ::
  "nat \<Rightarrow> build \<Rightarrow> loader_env \<Rightarrow> mon \<Rightarrow> (calls \<times> (int \<Rightarrow> plt_slot list) \<times> mon) res" where
  "loader_main argc bld env s =
     (if argc < 2 then Inl (Exit 1)
      else bindr (scan_modules (env_dir env) s) (\<lambda>s1.
        if \<not> env_app env then Inl (Exit 1)
        else bindr (create_cubicles (env_libs env) s1) (\<lambda>(c, s2).
          bindr (iterr (parse_module env) [0..<pmap_max s2] s2) (\<lambda>s3.
          let s4 = friend_keys bld s3
          in bindr (iterr (protect_module env) [0..<pmap_max s4] (\<lambda>_. [], s4)) (\<lambda>(g, s5).
             bindr (iterr lock_module [0..<pmap_max s5] s5) (\<lambda>s6.
             bindr (gen_memory_map (env_maps2 env) (env_cwd env) s6) (\<lambda>s7.
             bindr (cmp_unlock s7 (get_module_id s7 (Some ''liblinuxuplat.so''))) (\<lambda>s8.
               if \<not> env_plat env then Inl (Exit 1) else Inr (c, g, s8)))))))))"

section \<open>Keys are given out once\<close>

definition keys_wf :: "mon \<Rightarrow> bool" where
  "keys_wf s \<longleftrightarrow> E_END \<le> pmap_max s \<and>
     (\<forall>i < length (pmap s). pm_must (pmap s ! i) \<longrightarrow>
        pm_pkey (pmap s ! i) \<in> set (pkeys (mpk s)) \<and> 0 < pm_pkey (pmap s ! i) \<and> pm_pkey (pmap s ! i) < 16) \<and>
     (\<forall>i < length (pmap s). \<not> pm_must (pmap s ! i) \<longrightarrow> pm_pkey (pmap s ! i) = 0) \<and>
     (\<forall>i < length (pmap s). \<forall>j < length (pmap s). pm_must (pmap s ! i) \<longrightarrow> pm_must (pmap s ! j) \<longrightarrow>
        pm_pkey (pmap s ! i) = pm_pkey (pmap s ! j) \<longrightarrow> i = j)"

definition fresh_mon :: "mon \<Rightarrow> bool" where
  "fresh_mon s \<longleftrightarrow> pmap s = replicate 100 empty_pm \<and> pmap_max s = E_END \<and> stacks s = [] \<and>
     pkeys (mpk s) = [0]"

lemma fresh_keys_wf: "fresh_mon s \<Longrightarrow> keys_wf s"
  by (simp add: fresh_mon_def keys_wf_def empty_pm_def)

text \<open>The entry that \<^const>\<open>scan_module\<close> writes.\<close>

definition scanned :: "string \<Rightarrow> bool \<Rightarrow> nat \<Rightarrow> proc_map_s \<Rightarrow> proc_map_s" where
  "scanned n must k p = p\<lparr>pm_name := n, pm_start := 0, pm_size := 0,
     ipc_stack_nr := 0, ipc_globals_nr := 0, ipc_heap_nr := 0, pm_must := must, pm_pkey := k\<rparr>"

lemma scanned_0:
  "scanned n must 0 p = p\<lparr>pm_name := n, pm_start := 0, pm_size := 0, pm_pkey := 0,
     ipc_stack_nr := 0, ipc_globals_nr := 0, ipc_heap_nr := 0, pm_must := must\<rparr>"
  by (cases p) (simp add: scanned_def)

definition scan_index :: "string \<Rightarrow> mon \<Rightarrow> nat" where
  "scan_index n s = (if get_id n = - 1 then pmap_max s else nat (get_id n))"

lemma get_id_range: "get_id n \<noteq> - 1 \<Longrightarrow> 0 \<le> get_id n \<and> get_id n < 26"
  using name_index_range [of 0 "take E_END modnames" n]
  by (auto simp: get_id_def E_END_def [symmetric] simp del: take_all_iff)

lemma upd_pm_twice:
  "i < length (pmap s) \<Longrightarrow> upd_pm (upd_pm s (int i) f) (int i) g = upd_pm s (int i) (\<lambda>p. g (f p))"
  by (simp add: upd_pm_def)

lemma scan_module_Inr:
  assumes "scan_module n s = Inr s'" "n \<noteq> ''.''" "n \<noteq> ''..''"
  shows "\<exists>must k m. is_must n = Inr must \<and> scan_index n s < length (pmap s) \<and>
     (if must then pkey_alloc (mpk s) = Some (k, m) else k = 0 \<and> m = mpk s) \<and>
     s' = s\<lparr>mpk := m, pmap := (pmap s)[scan_index n s := scanned n must k (pmap s ! scan_index n s)],
            pmap_max := (if get_id n = - 1 then pmap_max s + 1 else pmap_max s)\<rparr>"
proof -
  let ?mid = "if get_id n = - 1 then int (pmap_max s) else get_id n"
  have mid: "?mid = int (scan_index n s)" using get_id_range [of n] by (auto simp: scan_index_def)
  from assms obtain must where must: "is_must n = Inr must"
    and rng: "scan_index n s < length (pmap s)"
    by (auto simp: scan_module_def Let_def res_simps mon_simps valid_mid_def mid)
  let ?i = "scan_index n s"
  have pmi: "pm s (int ?i) = Inr (pmap s ! ?i)" using rng by (simp add: pm_def)
  show ?thesis
  proof (cases must)
    case True
    with assms must obtain k m where km: "pkey_alloc (mpk s) = Some (k, m)"
      by (auto simp: scan_module_def Let_def res_simps upd_pm_def split: option.splits)
    have "s' = s\<lparr>mpk := m, pmap := (pmap s)[?i := scanned n True k (pmap s ! ?i)],
            pmap_max := (if get_id n = - 1 then pmap_max s + 1 else pmap_max s)\<rparr>"
      using assms(1) unfolding scan_module_def Let_def mid must
      by (auto simp: assms(2,3) pmi upd_pm_def km scanned_def rng True)
    then show ?thesis using km must True rng by (intro exI [of _ True] exI [of _ k] exI [of _ m] conjI) simp_all
  next
    case False
    have "s' = s\<lparr>mpk := mpk s, pmap := (pmap s)[?i := scanned n False 0 (pmap s ! ?i)],
            pmap_max := (if get_id n = - 1 then pmap_max s + 1 else pmap_max s)\<rparr>"
      using assms(1) unfolding scan_module_def Let_def mid must
      by (auto simp: assms(2,3) pmi upd_pm_def scanned_0 rng False)
    then show ?thesis using must False rng
      by (intro exI [of _ False] exI [of _ 0] exI [of _ "mpk s"] conjI) (simp_all only: if_False simp_thms)
  qed
qed

lemma scan_module_wf:
  assumes "scan_module n s = Inr s'" "keys_wf s"
  shows "keys_wf s' \<and> length (pmap s') = length (pmap s)"
proof (cases "n = ''.'' \<or> n = ''..''")
  case True
  with assms show ?thesis by (auto simp: scan_module_def)
next
  case False
  with scan_module_Inr [OF assms(1)] obtain must k m where
    i: "scan_index n s < length (pmap s)" and
    km: "if must then pkey_alloc (mpk s) = Some (k, m) else k = 0 \<and> m = mpk s" and
    s': "s' = s\<lparr>mpk := m, pmap := (pmap s)[scan_index n s := scanned n must k (pmap s ! scan_index n s)],
            pmap_max := (if get_id n = - 1 then pmap_max s + 1 else pmap_max s)\<rparr>"
    by blast
  let ?i = "scan_index n s"
  from km pkey_alloc_SomeD [of "mpk s" k m] have pk: "set (pkeys (mpk s)) \<subseteq> set (pkeys m)"
      "must \<Longrightarrow> k \<in> set (pkeys m) \<and> 0 < k \<and> k < 16 \<and> k \<notin> set (pkeys (mpk s))"
    by (auto split: if_splits)
  have len: "length (pmap s') = length (pmap s)" and keys: "pkeys (mpk s') = pkeys m"
    by (simp_all add: s')
  have at: "pmap s' ! ?i = scanned n must k (pmap s ! ?i)" "\<And>j. j \<noteq> ?i \<Longrightarrow> pmap s' ! j = pmap s ! j"
    using i by (simp_all add: s')
  have old: "pm_must (pmap s ! j) \<Longrightarrow> pm_pkey (pmap s ! j) \<in> set (pkeys (mpk s)) \<and>
      0 < pm_pkey (pmap s ! j) \<and> pm_pkey (pmap s ! j) < 16" if "j < length (pmap s)" for j
    using assms(2) that by (simp add: keys_wf_def)
  have wf1: "pm_pkey (pmap s' ! j) \<in> set (pkeys m) \<and> 0 < pm_pkey (pmap s' ! j) \<and> pm_pkey (pmap s' ! j) < 16"
    if "j < length (pmap s)" "pm_must (pmap s' ! j)" for j
    using that pk old [of j] at by (cases "j = ?i") (auto simp: scanned_def)
  have wf3: "pm_pkey (pmap s' ! j) = 0" if "j < length (pmap s)" "\<not> pm_must (pmap s' ! j)" for j
    using that km at assms(2) by (cases "j = ?i") (auto simp: scanned_def keys_wf_def)
  have wf2: "j = l" if "j < length (pmap s)" "l < length (pmap s)" "pm_must (pmap s' ! j)"
      "pm_must (pmap s' ! l)" "pm_pkey (pmap s' ! j) = pm_pkey (pmap s' ! l)" for j l
    using that pk old [of j] old [of l] at assms(2)
    by (cases "j = ?i"; cases "l = ?i") (auto simp: scanned_def keys_wf_def)
  have "E_END \<le> pmap_max s'" using assms(2) by (simp add: s' keys_wf_def)
  with wf1 wf2 wf3 show ?thesis unfolding keys_wf_def len keys by blast
qed

lemma scan_modules_wf:
  assumes "scan_modules dir s = Inr s'" "keys_wf s"
  shows "keys_wf s' \<and> length (pmap s') = length (pmap s)"
  using assms(1) unfolding scan_modules_def
  by (rule iterr_invariant [where P = "\<lambda>t. keys_wf t \<and> length (pmap t) = length (pmap s)"])
    (use assms(2) scan_module_wf in auto)

lemma get_id_dots: "get_id ''.'' = - 1" "get_id ''..'' = - 1"
  by (simp_all add: get_id_def modnames_def)

lemma get_id_inj: "get_id n = get_id n' \<Longrightarrow> get_id n \<noteq> - 1 \<Longrightarrow> n = n'"
  using name_index_nth [of 0 "take E_END modnames" n] name_index_nth [of 0 "take E_END modnames" n']
  by (simp add: get_id_def del: take_all_iff)

lemma is_must_iff: "is_must n = Inr b \<Longrightarrow> b \<longleftrightarrow> n \<in> set must_list"
  by (auto simp: is_must_def split: if_splits)

lemma scan_modules_entries:
  assumes "scan_modules dir s = Inr s'" "keys_wf s" "n \<in> set dir" "get_id n \<noteq> - 1"
  shows "nat (get_id n) < length (pmap s') \<and> pm_name (pmap s' ! nat (get_id n)) = n \<and>
    (pm_must (pmap s' ! nat (get_id n)) \<longleftrightarrow> n \<in> set must_list)"
  using assms(1,3)
proof (induction dir arbitrary: s' rule: rev_induct)
  case (snoc x xs)
  then obtain t where t: "scan_modules xs s = Inr t" and x: "scan_module x t = Inr s'"
    by (auto simp: scan_modules_def iterr_append res_simps)
  have wf: "keys_wf t" using scan_modules_wf [OF t assms(2)] by simp
  have len: "length (pmap s') = length (pmap t)" using scan_module_wf [OF x wf] by simp
  show ?case
  proof (cases "x = ''.'' \<or> x = ''..''")
    case True
    with x snoc.prems(2) assms(4) get_id_dots have "s' = t" "n \<in> set xs"
      by (auto simp: scan_module_def)
    with snoc.IH [OF t] show ?thesis by simp
  next
    case False
    with scan_module_Inr [OF x] obtain must k m where i: "scan_index x t < length (pmap t)"
      and must: "is_must x = Inr must"
      and p: "pmap s' = (pmap t)[scan_index x t := scanned x must k (pmap t ! scan_index x t)]"
      by auto
    show ?thesis
    proof (cases "n = x")
      case True
      then have "scan_index x t = nat (get_id n)" using assms(4) by (simp add: scan_index_def)
      with i p must True show ?thesis by (auto simp: scanned_def is_must_iff)
    next
      case nx: False
      with snoc.prems(2) have "n \<in> set xs" by simp
      note IH = snoc.IH [OF t this]
      have "scan_index x t \<noteq> nat (get_id n)"
      proof (cases "get_id x = - 1")
        case True
        with wf get_id_range [OF assms(4)] show ?thesis by (auto simp: scan_index_def keys_wf_def)
      next
        case False
        with nx get_id_inj [of x n] get_id_range [OF False] get_id_range [OF assms(4)]
        show ?thesis by (auto simp: scan_index_def eq_nat_nat_iff)
      qed
      with IH p len show ?thesis by simp
    qed
  qed
qed simp

text \<open>
  C9: scanning the module directory gives every isolated module a protection key of its own,
  between 1 and 15, never the default key, so at most 15 modules are isolated; and every known
  file of the directory is entered at its index with the isolation flag of the \<^verbatim>\<open>must\<close> list.
\<close>

theorem scan_modules_gives_own_keys:
  assumes "scan_modules dir s = Inr s'" "fresh_mon s"
  shows "(\<forall>i < 100. pm_must (pmap s' ! i) \<longrightarrow> 0 < pm_pkey (pmap s' ! i) \<and> pm_pkey (pmap s' ! i) < 16) \<and>
     (\<forall>i < 100. \<forall>j < 100. pm_must (pmap s' ! i) \<longrightarrow> pm_must (pmap s' ! j) \<longrightarrow> i \<noteq> j \<longrightarrow>
        pm_pkey (pmap s' ! i) \<noteq> pm_pkey (pmap s' ! j)) \<and>
     card {i. i < 100 \<and> pm_must (pmap s' ! i)} \<le> 15 \<and>
     (\<forall>n \<in> set dir. get_id n \<noteq> - 1 \<longrightarrow> pm_name (pmap s' ! nat (get_id n)) = n \<and>
        (pm_must (pmap s' ! nat (get_id n)) \<longleftrightarrow> n \<in> set must_list))"
proof -
  have wf: "keys_wf s'" and len: "length (pmap s') = 100"
    using scan_modules_wf [OF assms(1) fresh_keys_wf [OF assms(2)]] assms(2)
    by (auto simp: fresh_mon_def)
  let ?M = "{i. i < 100 \<and> pm_must (pmap s' ! i)}"
  have inj: "inj_on (\<lambda>i. pm_pkey (pmap s' ! i)) ?M"
    using wf by (auto simp: inj_on_def keys_wf_def len)
  have "(\<lambda>i. pm_pkey (pmap s' ! i)) ` ?M \<subseteq> {1..15}"
    using wf by (force simp: keys_wf_def len)
  from card_inj_on_le [OF inj this] have "card ?M \<le> 15" by simp
  moreover have "\<forall>i < 100. pm_must (pmap s' ! i) \<longrightarrow> 0 < pm_pkey (pmap s' ! i) \<and> pm_pkey (pmap s' ! i) < 16"
    using wf by (simp add: keys_wf_def len)
  moreover have "\<forall>i < 100. \<forall>j < 100. pm_must (pmap s' ! i) \<longrightarrow> pm_must (pmap s' ! j) \<longrightarrow> i \<noteq> j \<longrightarrow>
        pm_pkey (pmap s' ! i) \<noteq> pm_pkey (pmap s' ! j)"
    using inj by (auto simp: inj_on_def)
  ultimately show ?thesis
    using scan_modules_entries [OF assms(1) fresh_keys_wf [OF assms(2)]] by blast
qed

section \<open>The page map agrees with the tables\<close>

lemma covers_page_base:
  assumes "page_aligned st" "page_aligned sz"
  shows "covers st sz (page_base a) = covers st sz a"
proof -
  have al: "b \<le> page_base a \<longleftrightarrow> b \<le> a" if "page_aligned b" for b
  proof -
    from that obtain k where "unat b = 4096 * k"
      by (auto simp: page_aligned_iff mod_eq_0_iff_dvd elim: dvdE)
    then show ?thesis by (simp add: word_le_nat_alt unat_page_base page_of_def) linarith
  qed
  have "unat (st + sz) mod 4096 = 0"
    using assms by (auto simp: page_aligned_iff unat_word_ariths mod_eq_0_iff_dvd dvd_mod_iff)
  then have "page_aligned (st + sz)" by (simp add: page_aligned_iff)
  with al assms(1) show ?thesis by (simp add: covers_def not_le [symmetric])
qed

definition page_granular :: "mon \<Rightarrow> bool" where
  "page_granular s \<longleftrightarrow>
     (\<forall>p \<in> set (pmap s). page_aligned (pm_start p) \<and> page_aligned (pm_size p)) \<and>
     (\<forall>t \<in> set (stacks s). page_aligned (st_start t) \<and> page_aligned (st_size t) \<and>
        0 \<le> st_mid t \<and> st_mid t < 128) \<and> length (pmap s) \<le> 128"

lemma find_cong_set: "(\<And>x. x \<in> set xs \<Longrightarrow> P x = Q x) \<Longrightarrow> find P xs = find Q xs"
  by (induction xs) auto

lemma page_owner_page_base:
  assumes "page_granular s"
  shows "page_owner s (page_base a) = page_owner s a"
proof -
  have "mem_to_lib s (page_base a) = mem_to_lib s a"
    unfolding mem_to_lib_def using assms
    by (subst find_cong_set [where Q = "\<lambda>p. covers (pm_start p) (pm_size p) a"])
      (auto simp: page_granular_def covers_page_base)
  moreover have "stack_to_lib_id_old s (page_base a) = stack_to_lib_id_old s a"
    unfolding stack_to_lib_id_old_def using assms
    by (subst find_cong_set [where Q = "\<lambda>t. covers (st_start t) (st_size t) a"])
      (auto simp: page_granular_def covers_page_base)
  ultimately show ?thesis by (simp add: page_owner_def Let_def)
qed

lemma char_flags:
  assumes "0 \<le> i" "i < (128 :: int)"
  shows "i AND 128 = 0" "to_char i = i" "to_char (i OR 128) AND 128 \<noteq> 0" "to_char (i OR 128) AND 127 = i"
proof -
  have all: "list_all (\<lambda>i. i AND 128 = 0 \<and> to_char (i OR 128) AND 128 \<noteq> 0 \<and>
      to_char (i OR 128) AND 127 = i) [0..127]"
    by code_simp
  have "i \<in> set [0..127]" using assms by simp
  with all assms show "i AND 128 = 0" "to_char i = i" "to_char (i OR 128) AND 128 \<noteq> 0"
    "to_char (i OR 128) AND 127 = i"
    unfolding list_all_iff by auto
qed


lemma fill_mmap_at:
  assumes "fill_mmap start en s = Inr s'" "page_aligned start" "0 \<le> sint start" "page_granular s"
    and a: "in_mmap s' a"
  shows "mmap_at s' a = page_owner s a"
proof -
  from assms(1) have s': "mmap_start s' = sint start" "mmap_end s' = sint en"
    "mmap_cfg s' = map (\<lambda>k. page_owner s (start + of_nat k * 4096)) [0..<nat ((sint en - sint start) div 4096)]"
    and len: "sint start \<le> sint en" "(sint en - sint start) mod 4096 = 0"
    by (auto simp: fill_mmap_def split: if_splits)
  let ?k = "nat ((sint a - sint start) div 4096)"
  from a have rng: "sint start \<le> sint a" "sint a < sint en" by (simp_all add: in_mmap_def s')
  with assms(3) have "0 \<le> sint a" by simp
  note ints = sint_nonneg_uint [OF assms(3)] sint_nonneg_uint [OF this]
  from assms(2) obtain j where j: "unat start = 4096 * j"
    by (auto simp: page_aligned_iff mod_eq_0_iff_dvd elim: dvdE)
  have le: "unat start \<le> unat a" using rng(1) unfolding ints by (simp only: of_nat_le_iff)
  have "sint a - sint start = int (unat a - unat start)" using le unfolding ints by simp
  then have "?k = (unat a - unat start) div 4096"
    by (metis nat_int of_nat_numeral zdiv_int)
  then have k: "?k = page_of a - j" using le by (simp add: j page_of_def)
  have jle: "j \<le> page_of a" using le by (simp add: j page_of_def)
  have klt: "?k < nat ((sint en - sint start) div 4096)"
  proof -
    from len(2) obtain q where "sint en - sint start = 4096 * q" by (auto simp: mod_eq_0_iff_dvd elim: dvdE)
    with rng show ?thesis by auto
  qed
  have "unat (start + of_nat ?k * 4096) = unat (page_base a)"
  proof -
    have lt: "page_of a < 2 ^ 52" using page_of_less [of a] by simp
    then have kl: "?k < 2 ^ 52" unfolding k by linarith
    have "unat start + ?k * 4096 = 4096 * page_of a" unfolding k j using jle by simp
    moreover have "4096 * page_of a < 2 ^ 64" using lt by simp
    ultimately show ?thesis
      by (simp add: unat_word_ariths(1) unat_pages [OF kl] unat_page_base)
  qed
  then have "start + of_nat ?k * 4096 = page_base a" by (simp add: unsigned_word_eqI)
  then show ?thesis
    using klt page_owner_page_base [OF assms(4)] by (simp add: mmap_at_def s')
qed


lemma get_module_id_range:
  "get_module_id s n = - 1 \<or> (0 \<le> get_module_id s n \<and> get_module_id s n < int (length (pmap s)))"
proof (cases n)
  case (Some m)
  then show ?thesis
    using name_index_range [of 0 "map pm_name (take (pmap_max s) (pmap s))" m] by (auto simp: get_module_id_def)
qed (simp add: get_module_id_def)

text \<open>
  C10 (the page map is a faithful cache): after \<^verbatim>\<open>gen_memory_map\<close>, for every address in the
  mapped range, the look-ups through \<^verbatim>\<open>mmap_cfg\<close> give what searching the module table and
  the stack table gives: \<^verbatim>\<open>mem_to_lib_id\<close> the module, and \<^verbatim>\<open>stack_to_lib_id\<close> the owner of
  the stack, or 127 when the address belongs to neither.
\<close>

theorem memory_map_is_faithful:
  assumes "gen_memory_map maps wd s = Inr s'" "page_granular s"
    and "\<forall>l \<in> set maps. page_aligned (ml_start l) \<and> 0 \<le> sint (ml_start l)" and "in_mmap s' a"
  shows "mem_to_lib_id s' a = get_module_id s (mem_to_lib s a) \<and>
     stack_to_lib_id s' a =
       (if get_module_id s (mem_to_lib s a) \<noteq> - 1 then - 1
        else if stack_to_lib_id_old s a = - 1 then 127 else stack_to_lib_id_old s a)"
proof -
  from assms(1) obtain start en where "fill_mmap start en s = Inr s'" "start \<in> ml_start ` set maps"
    by (auto simp: gen_memory_map_def split: if_splits option.splits nat.splits)
  with assms(3) have at: "mmap_at s' a = page_owner s a"
    using fill_mmap_at [OF _ _ _ assms(2,4)] by auto
  let ?m = "get_module_id s (mem_to_lib s a)" and ?t = "stack_to_lib_id_old s a"
  have m: "?m = - 1 \<or> (0 \<le> ?m \<and> ?m < 128)"
    using get_module_id_range [of s "mem_to_lib s a"] assms(2) by (auto simp: page_granular_def)
  have t: "?t = - 1 \<or> (0 \<le> ?t \<and> ?t < 128)"
    using assms(2) by (auto simp: stack_to_lib_id_old_def page_granular_def find_Some_iff
        split: option.splits)
  have neg: "to_char (- 1) = - 1" by simp
  show ?thesis
  proof (cases "?m = - 1")
    case False
    with m char_flags [of ?m] assms(4) at show ?thesis
      by (simp add: mem_to_lib_id_def stack_to_lib_id_def page_owner_def Let_def)
  next
    case True
    with t char_flags [of ?t] assms(4) at neg show ?thesis
      by (auto simp: mem_to_lib_id_def stack_to_lib_id_def page_owner_def Let_def)
  qed
qed

section \<open>The state the loader leaves\<close>

text \<open>The part of the module table that only the scan and the friend keys write.\<close>

definition core :: "mon \<Rightarrow> (string \<times> bool \<times> nat) list \<times> nat" where
  "core s = (map (\<lambda>p. (pm_name p, pm_must p, pm_pkey p)) (pmap s), pmap_max s)"

lemma core_upd_pm:
  "(\<And>p. pm_name (f p) = pm_name p \<and> pm_must (f p) = pm_must p \<and> pm_pkey (f p) = pm_pkey p) \<Longrightarrow>
     core (upd_pm s i f) = core s"
  by (cases "nat i < length (pmap s)")
    (simp_all add: core_def upd_pm_def map_update list_update_same_conv list_update_beyond)

lemma core_mpk [simp]: "core (s\<lparr>mpk := m\<rparr>) = core s"
  by (simp add: core_def)

lemma core_eqD:
  assumes "core s' = core s"
  shows "length (pmap s') = length (pmap s)" "pmap_max s' = pmap_max s"
    and "i < length (pmap s) \<Longrightarrow> pm_must (pmap s' ! i) = pm_must (pmap s ! i)"
    and "i < length (pmap s) \<Longrightarrow> pm_pkey (pmap s' ! i) = pm_pkey (pmap s ! i)"
    and "i < length (pmap s) \<Longrightarrow> pm_name (pmap s' ! i) = pm_name (pmap s ! i)"
proof -
  let ?f = "\<lambda>p. (pm_name p, pm_must p, pm_pkey p)"
  from assms have m: "map ?f (pmap s') = map ?f (pmap s)" by (simp add: core_def)
  then show len: "length (pmap s') = length (pmap s)" using map_eq_imp_length_eq by blast
  show "pmap_max s' = pmap_max s" using assms by (simp add: core_def)
  assume i: "i < length (pmap s)"
  from m have "map ?f (pmap s') ! i = map ?f (pmap s) ! i" by simp
  with i len show "pm_must (pmap s' ! i) = pm_must (pmap s ! i)"
    "pm_pkey (pmap s' ! i) = pm_pkey (pmap s ! i)" "pm_name (pmap s' ! i) = pm_name (pmap s ! i)"
    by simp_all
qed

lemma core_cmp_attach: "cmp_attach s mid start sz = Inr s' \<Longrightarrow> core s' = core s"
  by (auto simp: cmp_attach_def res_simps split: if_splits option.splits)

lemma core_stack_attach: "stack_attach s mid start sz = Inr s' \<Longrightarrow> core s' = core s"
  by (auto simp: stack_attach_def res_simps core_def split: if_splits dest!: core_cmp_attach)

lemma core_add_tabs:
  "add_ipc_tab_stack s mid t n = Inr s' \<Longrightarrow> core s' = core s"
  "add_ipc_tab_globals s mid t n = Inr s' \<Longrightarrow> core s' = core s"
  "add_ipc_tab_heap s mid t n = Inr s' \<Longrightarrow> core s' = core s"
  by (auto simp: add_ipc_tab_stack_def add_ipc_tab_globals_def add_ipc_tab_heap_def res_simps core_upd_pm)

lemma core_add_tab:
  "add_tab add t mid s = Inr s' \<Longrightarrow> (\<And>s mid p n s'. add s mid p n = Inr s' \<Longrightarrow> core s' = core s) \<Longrightarrow>
     core s' = core s"
  by (auto simp: add_tab_def split: option.splits)

lemma core_mmap_pages [simp]: "core (mmap_pages st len s) = core s"
  by (simp add: mmap_pages_def)

lemma core_register_hook:
  assumes "register_hook rm r s = Inr s'"
  shows "core s' = core s"
proof (cases "reg_open r")
  case False
  with assms show ?thesis by (simp add: register_hook_def)
next
  case True
  let ?mid = "rm ! nat (reg_mod r)"
  from assms True obtain s1 s2 s3 where
    s1: "add_tab add_ipc_tab_stack (reg_stack_tab r) ?mid s = Inr s1" and
    s2: "add_tab add_ipc_tab_globals (reg_globals_tab r) ?mid s1 = Inr s2" and
    s3: "add_tab add_ipc_tab_heap (reg_heap_tab r) ?mid s2 = Inr s3" and
    rest: "(if reg_call r = 0 then Inr s3 else case reg_stack r of None \<Rightarrow> Inr s3
       | Some stk \<Rightarrow> stack_attach (mmap_pages stk (STACK_SIZE * 2) s3) ?mid stk (STACK_SIZE * 2)) = Inr s'"
    by (auto simp: register_hook_def Let_def res_simps split: if_splits)
  from rest have "core s' = core s3"
    by (auto split: if_splits option.splits dest: core_stack_attach)
  also have "\<dots> = core s2" using s3 by (rule core_add_tab) (rule core_add_tabs)
  also have "\<dots> = core s1" using s2 by (rule core_add_tab) (rule core_add_tabs)
  also have "\<dots> = core s" using s1 by (rule core_add_tab) (rule core_add_tabs)
  finally show ?thesis .
qed

lemma core_create_cubicles:
  assumes "create_cubicles libs s = Inr (c, s')"
  shows "core s' = core s"
proof -
  from assms obtain c' where "iterr create_lib libs (calls_init, s) = Inr (c', s')"
    by (auto simp: create_cubicles_def res_simps)
  moreover have "core (snd b) = core (snd a)" if "create_lib x a = Inr b" for x a b
  proof -
    from that obtain rm where "iterr (register_hook rm) (snd x) (snd a) = Inr (snd b)"
      by (cases a) (auto simp: create_lib_def Let_def res_simps)
    then show ?thesis
      by (rule iterr_invariant [where P = "\<lambda>t. core t = core (snd a)"]) (auto dest: core_register_hook)
  qed
  ultimately have "core (snd (c', s')) = core s"
    by (elim iterr_invariant [where P = "\<lambda>t. core (snd t) = core s"]) auto
  then show ?thesis by simp
qed

lemma core_parse: "iterr (parse_module env) is s = Inr s' \<Longrightarrow> core s' = core s"
  by (erule iterr_invariant [where P = "\<lambda>t. core t = core s"])
    (auto simp: parse_module_def res_simps core_upd_pm)

lemma core_patch_slot: "patch_slot env mid sl s = Inr (sl', s') \<Longrightarrow> core s' = core s"
  by (auto simp: patch_slot_def res_simps core_upd_pm split: option.splits if_splits)

lemma core_patch_slots: "patch_slots env mid sls s = Inr (sls', s') \<Longrightarrow> core s' = core s"
  by (induction sls arbitrary: s sls') (auto simp: res_simps dest!: core_patch_slot)

lemma core_patch_plt: "patch_plt env mid s = Inr (sls', s') \<Longrightarrow> core s' = core s"
  by (auto simp: patch_plt_def res_simps split: option.splits dest: core_patch_slots)

lemma core_prot_init: "prot_init s mid = Inr s' \<Longrightarrow> core s' = core s"
  by (auto simp: prot_init_def res_simps split: option.splits)

lemma core_gen_memory_map:
  "gen_memory_map maps wd s = Inr s' \<Longrightarrow> core s' = core s \<and> mpk s' = mpk s \<and> pmap s' = pmap s"
  by (auto simp: gen_memory_map_def fill_mmap_def core_def split: if_splits option.splits nat.splits)


text \<open>Locking: every isolated module's key is disabled.\<close>

lemma lock_loop:
  assumes "iterr lock_module [0..<n] s = Inr s'"
  shows "core s' = core s \<and> pmap s' = pmap s \<and> page_key (mpk s') = page_key (mpk s) \<and> n \<le> length (pmap s) \<and>
    (\<forall>i < n. pm_must (pmap s ! i) \<longrightarrow> 0 < pm_pkey (pmap s ! i) \<and> pkru_ad (mpk s') (pm_pkey (pmap s ! i)))"
  using assms
proof (induction n arbitrary: s')
  case (Suc n)
  then obtain t where t: "iterr lock_module [0..<n] s = Inr t" and l: "lock_module n t = Inr s'"
    by (auto simp: iterr_append res_simps)
  from Suc.IH [OF t] l show ?case
    by (auto simp: lock_module_def res_simps mon_simps mod_of_def valid_mid_def less_Suc_eq split: if_splits)
qed simp

text \<open>Protecting: each isolated module's pages get its key, unless a later module overlaps.\<close>

definition range_of :: "mon \<Rightarrow> nat \<Rightarrow> nat \<Rightarrow> bool" where
  "range_of s i p \<longleftrightarrow> pm_must (pmap s ! i) \<and> pm_size (pmap s ! i) \<noteq> 0 \<and>
     in_pages (pm_start (pmap s ! i)) (pm_size (pmap s ! i)) p"

lemma patch_slots_others:
  "patch_slots env mid sls s = Inr (sls', s') \<Longrightarrow> 0 \<le> mid \<Longrightarrow>
     length (pmap s') = length (pmap s) \<and> mpk s' = mpk s \<and>
     (\<forall>j. int j \<noteq> mid \<longrightarrow> pmap s' ! j = pmap s ! j)"
proof (induction sls arbitrary: s sls')
  case (Cons sl sls)
  then obtain sl1 s1 sls1 where p: "patch_slot env mid sl s = Inr (sl1, s1)"
    and r: "patch_slots env mid sls s1 = Inr (sls1, s')" by (auto simp: res_simps)
  from p have "length (pmap s1) = length (pmap s) \<and> mpk s1 = mpk s \<and>
     (\<forall>j. int j \<noteq> mid \<longrightarrow> pmap s1 ! j = pmap s ! j)"
    by (auto simp: patch_slot_def res_simps upd_pm_def nat_eq_iff Cons.prems(2)
        split: option.splits if_splits)
  with Cons.IH [OF r Cons.prems(2)] show ?case by simp
qed simp


lemma patch_plt_others:
  "patch_plt env mid s = Inr (sls', s') \<Longrightarrow> 0 \<le> mid \<Longrightarrow>
     length (pmap s') = length (pmap s) \<and> mpk s' = mpk s \<and>
     (\<forall>j. int j \<noteq> mid \<longrightarrow> pmap s' ! j = pmap s ! j)"
  by (auto simp: patch_plt_def res_simps split: option.splits dest: patch_slots_others)

lemma prot_init_keys:
  assumes "prot_init s mid = Inr s'"
  shows "pmap s' = pmap s" "page_key (mpk s') =
     (\<lambda>p. if pm_size (mod_of s mid) \<noteq> 0 \<and> in_pages (pm_start (mod_of s mid)) (pm_size (mod_of s mid)) p
          then Some (key_of s mid) else page_key (mpk s) p)"
proof -
  from assms obtain m where m: "pkey_mprotect (mpk s) (pm_start (mod_of s mid)) (pm_size (mod_of s mid))
      (key_of s mid) = Some m" and s': "s' = s\<lparr>mpk := m\<rparr>"
    by (auto simp: prot_init_def res_simps mon_simps split: option.splits)
  show "pmap s' = pmap s" by (simp add: s')
  show "page_key (mpk s') =
     (\<lambda>p. if pm_size (mod_of s mid) \<noteq> 0 \<and> in_pages (pm_start (mod_of s mid)) (pm_size (mod_of s mid)) p
          then Some (key_of s mid) else page_key (mpk s) p)"
    using pkey_mprotect_SomeD(3,4) [OF m] by (cases "pm_size (mod_of s mid) = 0") (auto simp: s')
qed

lemma protect_module_step:
  assumes "protect_module env n (g, s) = Inr (g', s')"
  shows "core s' = core s \<and> (\<forall>j. j \<noteq> n \<longrightarrow> pmap s' ! j = pmap s ! j) \<and>
     (\<forall>p. page_key (mpk s') p = (if range_of s' n p then Some (pm_pkey (pmap s' ! n)) else page_key (mpk s) p))"
proof (cases "pm_size (pmap s ! n) = 0")
  case True
  with assms show ?thesis
    by (auto simp: protect_module_def res_simps mon_simps mod_of_def range_of_def split: if_splits)
next
  case False
  with assms obtain sls s1 where p: "patch_plt env (int n) s = Inr (sls, s1)"
    and i: "(if pm_must (pmap s ! n) then prot_init s1 (int n) else Inr s1) = Inr s'" and v: "valid_mid s (int n)"
    by (auto simp: protect_module_def res_simps mon_simps mod_of_def)
  note oth = patch_plt_others [OF p]
  have core1: "core s1 = core s" using core_patch_plt [OF p] .
  have must: "pm_must (pmap s1 ! n) = pm_must (pmap s ! n)"
    using core_eqD(3) [OF core1, of n] v by (simp add: valid_mid_def)
  show ?thesis
  proof (cases "pm_must (pmap s ! n)")
    case True
    with i have pr: "prot_init s1 (int n) = Inr s'" by simp
    note k = prot_init_keys [OF pr]
    from core_prot_init [OF pr] core1 oth k must True show ?thesis
      by (auto simp: range_of_def mod_of_def)
  next
    case False
    with i core1 oth must show ?thesis by (auto simp: range_of_def)
  qed
qed

lemma range_of_cong: "pmap s' ! i = pmap s ! i \<Longrightarrow> range_of s' i p = range_of s i p"
  by (simp add: range_of_def)

lemma protect_loop:
  assumes "iterr (protect_module env) [0..<n] (g, s) = Inr (g', s')"
  shows "core s' = core s \<and> (\<forall>i < n. \<forall>p. range_of s' i p \<longrightarrow> (\<forall>j < n. j \<noteq> i \<longrightarrow> \<not> range_of s' j p) \<longrightarrow>
     page_key (mpk s') p = Some (pm_pkey (pmap s' ! i)))"
  using assms
proof (induction n arbitrary: g' s')
  case (Suc n)
  then obtain g1 t where t: "iterr (protect_module env) [0..<n] (g, s) = Inr (g1, t)"
    and l: "protect_module env n (g1, t) = Inr (g', s')"
    by (auto simp: iterr_append res_simps)
  note step = protect_module_step [OF l]
  have "page_key (mpk s') p = Some (pm_pkey (pmap s' ! i))"
    if i: "i < Suc n" "range_of s' i p" and d: "\<forall>j < Suc n. j \<noteq> i \<longrightarrow> \<not> range_of s' j p" for i p
  proof (cases "i = n")
    case True
    with i step show ?thesis by simp
  next
    case False
    then have eq: "pmap s' ! i = pmap t ! i" using step by simp
    have "\<not> range_of s' n p" using d False by blast
    then have same: "page_key (mpk s') p = page_key (mpk t) p" using step by simp
    have "\<forall>j < n. j \<noteq> i \<longrightarrow> \<not> range_of t j p"
    proof (intro allI impI)
      fix j
      assume j: "j < n" "j \<noteq> i"
      with step have "pmap s' ! j = pmap t ! j" by simp
      from range_of_cong [OF this] d j show "\<not> range_of t j p" by (metis less_SucI)
    qed
    moreover have "range_of t i p" using i(2) range_of_cong [OF eq] by simp
    ultimately show ?thesis using Suc.IH [OF t] False i(1) same eq by auto
  qed
  with Suc.IH [OF t] step show ?case by auto
qed simp


text \<open>Friends: all members of a flavour's list have the key of one of them.\<close>

fun friend_base :: "build \<Rightarrow> int" where
  "friend_base Nginx = E_APP"
| "friend_base _ = E_VFSCORE"

lemma copy_key_nth:
  assumes "length (pmap s) = 100" "0 \<le> dst" "dst < 100"
  shows "length (pmap (copy_key dst src s)) = 100" "mpk (copy_key dst src s) = mpk s"
    "pmap_max (copy_key dst src s) = pmap_max s"
    "pm_must (pmap (copy_key dst src s) ! i) = pm_must (pmap s ! i)"
    "pm_pkey (pmap (copy_key dst src s) ! i) = (if int i = dst then key_of s src else pm_pkey (pmap s ! i))"
  using assms by (auto simp: copy_key_def upd_pm_def nth_list_update split: if_splits)

lemma friend_keys_nth:
  assumes "length (pmap s) = 100"
  shows "length (pmap (friend_keys bld s)) = 100" "pmap_max (friend_keys bld s) = pmap_max s"
    "pm_must (pmap (friend_keys bld s) ! i) = pm_must (pmap s ! i)"
    "pm_pkey (pmap (friend_keys bld s) ! i) =
       (if int i \<in> set (flist bld) then key_of s (friend_base bld) else pm_pkey (pmap s ! i))"
  using assms
  by (cases bld; auto simp: copy_key_nth module_defs mod_of_def)+


lemma friend_keys_distinct:
  assumes own: "\<And>k l. k < 100 \<Longrightarrow> l < 100 \<Longrightarrow> pm_must (pmap s ! k) \<Longrightarrow> pm_must (pmap s ! l) \<Longrightarrow>
        pm_pkey (pmap s ! k) = pm_pkey (pmap s ! l) \<Longrightarrow> k = l"
    and none: "\<And>k. k < 100 \<Longrightarrow> \<not> pm_must (pmap s ! k) \<Longrightarrow> pm_pkey (pmap s ! k) = 0"
    and len: "length (pmap s) = 100"
    and i: "i < 100" "pm_must (pmap s ! i)" and j: "j < 100" "pm_must (pmap s ! j)"
    and pos: "0 < pm_pkey (pmap (friend_keys bld s) ! i)" "0 < pm_pkey (pmap (friend_keys bld s) ! j)"
  shows "pm_pkey (pmap (friend_keys bld s) ! i) = pm_pkey (pmap (friend_keys bld s) ! j) \<longleftrightarrow>
     friends bld (int i) (int j)"
proof -
  let ?b = "nat (friend_base bld)"
  have b: "?b < 100" "int ?b = friend_base bld" by (cases bld; simp add: module_defs)+
  have bin: "bld \<noteq> Default \<Longrightarrow> int ?b \<in> set (flist bld)" by (cases bld; simp add: module_defs)
  have dist: "pm_pkey (pmap s ! k) = pm_pkey (pmap s ! l) \<longleftrightarrow> k = l"
    if "k < 100" "l < 100" "pm_must (pmap s ! k)" "pm_must (pmap s ! l)" for k l
    using own that by auto
  have mb: "mod_of s (friend_base bld) = pmap s ! ?b" by (simp add: mod_of_def)
  have base: "0 < key_of s (friend_base bld) \<Longrightarrow> pm_must (mod_of s (friend_base bld))"
    using none [of ?b] b by (auto simp: mb)
  note keys = friend_keys_nth(4) [OF len, of bld]
  show ?thesis
  proof (cases "int i \<in> set (flist bld)"; cases "int j \<in> set (flist bld)")
    assume ij: "int i \<in> set (flist bld)" "int j \<notin> set (flist bld)"
    then have "bld \<noteq> Default" by auto
    with ij bin have "j \<noteq> ?b" by auto
    moreover have "pm_must (pmap s ! ?b)" using pos(1) base ij by (simp add: keys mb)
    ultimately show ?thesis using ij dist [of ?b j] b j by (auto simp: keys friends_iff mb)
  next
    assume ij: "int i \<notin> set (flist bld)" "int j \<in> set (flist bld)"
    then have "bld \<noteq> Default" by auto
    with ij bin have "i \<noteq> ?b" by auto
    moreover have "pm_must (pmap s ! ?b)" using pos(2) base ij by (simp add: keys mb)
    ultimately show ?thesis using ij dist [of i ?b] b i by (auto simp: keys friends_iff mb)
  qed (use dist [of i j] i j in \<open>auto simp: keys friends_iff\<close>)
qed

lemma loader_isolation:
  assumes "loader_main argc bld env s = Inr (c, g, s')" "fresh_mon s"
  shows "(\<forall>i < pmap_max s'. \<forall>j < pmap_max s'. pm_must (pmap s' ! i) \<longrightarrow> pm_must (pmap s' ! j) \<longrightarrow>
        (pm_pkey (pmap s' ! i) = pm_pkey (pmap s' ! j) \<longleftrightarrow> friends bld (int i) (int j))) \<and>
     (\<forall>i < pmap_max s'. pm_must (pmap s' ! i) \<longrightarrow> 0 < pm_pkey (pmap s' ! i) \<and>
        (pkru_ad (mpk s') (pm_pkey (pmap s' ! i)) \<longleftrightarrow> pm_pkey (pmap s' ! i) \<noteq> key_of s' (get_module_id s' (Some ''liblinuxuplat.so'')))) \<and>
     (\<forall>i < pmap_max s'. \<forall>p. range_of s' i p \<longrightarrow> (\<forall>j < pmap_max s'. j \<noteq> i \<longrightarrow> \<not> range_of s' j p) \<longrightarrow>
        page_key (mpk s') p = Some (pm_pkey (pmap s' ! i)))"
proof -
  define n where "n = pmap_max s'"
  define plat where "plat = get_module_id s' (Some ''liblinuxuplat.so'')"
  from assms(1) obtain s1 s2 s3 s5 s6 s7 where
    s1: "scan_modules (env_dir env) s = Inr s1" and
    s2: "create_cubicles (env_libs env) s1 = Inr (c, s2)" and
    s3: "iterr (parse_module env) [0..<pmap_max s2] s2 = Inr s3" and
    s5: "iterr (protect_module env) [0..<pmap_max (friend_keys bld s3)] (\<lambda>_. [], friend_keys bld s3) = Inr (g, s5)" and
    s6: "iterr lock_module [0..<pmap_max s5] s5 = Inr s6" and
    s7: "gen_memory_map (env_maps2 env) (env_cwd env) s6 = Inr s7" and
    s8: "cmp_unlock s7 (get_module_id s7 (Some ''liblinuxuplat.so'')) = Inr s'"
    unfolding loader_main_def by (auto simp: res_simps Let_def split: if_splits)
  have "core s3 = core s1" using core_create_cubicles [OF s2] core_parse [OF s3] by simp
  note c3 = core_eqD [OF this]
  have wf1: "keys_wf s1" "length (pmap s1) = 100"
    using scan_modules_wf [OF s1 fresh_keys_wf [OF assms(2)]] assms(2) by (auto simp: fresh_mon_def)
  let ?s4 = "friend_keys bld s3"
  have len3: "length (pmap s3) = 100" using c3(1) wf1(2) by simp
  note f = friend_keys_nth [OF len3, of bld]
  note pl = protect_loop [OF s5]
  note c5 = core_eqD [OF conjunct1 [OF pl]]
  note lk = lock_loop [OF s6]
  note gm = core_gen_memory_map [OF s7]
  from s8 have s': "s' = s7\<lparr>mpk := (mpk s7)\<lparr>pkru_ad := (pkru_ad (mpk s7))(key_of s7 plat := False)\<rparr>\<rparr>"
    and plat: "plat = get_module_id s7 (Some ''liblinuxuplat.so'')"
    by (auto simp: mon_simps plat_def get_module_id_def)
  have pm: "pmap s' = pmap s5" and n: "n = pmap_max s5"
    using lk gm by (auto simp: s' n_def core_def)
  have n100: "n \<le> 100" using lk c5(1) f(1) by (simp add: n)
  have nf: "n = pmap_max (friend_keys bld s3)" using c5(2) by (simp add: n)
  have kl: "key_of s' plat = key_of s7 plat" by (simp add: s')
  have B: "0 < pm_pkey (pmap s' ! i) \<and>
      (pkru_ad (mpk s') (pm_pkey (pmap s' ! i)) \<longleftrightarrow> pm_pkey (pmap s' ! i) \<noteq> key_of s' plat)"
    if i: "i < n" "pm_must (pmap s' ! i)" for i
    using lk gm i unfolding kl by (auto simp: s' pm n)
  have A: "pm_pkey (pmap s' ! i) = pm_pkey (pmap s' ! j) \<longleftrightarrow> friends bld (int i) (int j)"
    if ij: "i < n" "j < n" "pm_must (pmap s' ! i)" "pm_must (pmap s' ! j)" for i j
  proof -
    have lt: "i < 100" "j < 100" using ij n100 by auto
    have w: "length (pmap s1) = 100" "length (pmap s3) = 100" "length (pmap ?s4) = 100"
      using wf1(2) len3 f(1) by auto
    have must: "pm_must (pmap s' ! k) = pm_must (pmap s3 ! k)"
      and key: "pm_pkey (pmap s' ! k) = pm_pkey (pmap ?s4 ! k)" if "k < 100" for k
      using c5(3,4) [of k] f(3) [of k] that w by (simp_all add: pm)
    have "pm_pkey (pmap ?s4 ! i) = pm_pkey (pmap ?s4 ! j) \<longleftrightarrow> friends bld (int i) (int j)"
    proof (rule friend_keys_distinct [OF _ _ w(2) lt(1) _ lt(2)])
      show "k = l" if "k < 100" "l < 100" "pm_must (pmap s3 ! k)" "pm_must (pmap s3 ! l)"
        "pm_pkey (pmap s3 ! k) = pm_pkey (pmap s3 ! l)" for k l
        using wf1(1) that c3(3,4) [of k] c3(3,4) [of l] w by (simp add: keys_wf_def)
      show "pm_pkey (pmap s3 ! k) = 0" if "k < 100" "\<not> pm_must (pmap s3 ! k)" for k
        using wf1(1) that c3(3,4) [of k] w by (simp add: keys_wf_def)
      show "pm_must (pmap s3 ! i)" "pm_must (pmap s3 ! j)" using must lt ij by auto
      show "0 < pm_pkey (pmap ?s4 ! i)" "0 < pm_pkey (pmap ?s4 ! j)"
        using B [OF ij(1,3)] B [OF ij(2,4)] key lt by auto
    qed
    then show ?thesis using key lt by simp
  qed
  have C: "page_key (mpk s') p = Some (pm_pkey (pmap s' ! i))"
    if "i < n" "range_of s' i p" "\<forall>j < n. j \<noteq> i \<longrightarrow> \<not> range_of s' j p" for i p
    using pl lk gm that nf by (auto simp: s' pm range_of_def)
  from A B C show ?thesis unfolding n_def plat_def by blast
qed


section \<open>Linkage tables after hooking\<close>

text \<open>Where a call to function \<open>f\<close> of module \<open>lib\<close> goes from module \<open>own\<close>.\<close>

definition call_target :: "loader_env \<Rightarrow> string \<Rightarrow> string \<Rightarrow> string \<Rightarrow> u64 \<Rightarrow> u64" where
  "call_target env own lib f target =
     (if lib = own \<or> lib \<in> set shared_list then target
      else case find (\<lambda>(g, m, h). m = lib \<and> g = f) (env_hooks env) of
             Some (_, _, h) \<Rightarrow> if h = 0 then target else h
           | None \<Rightarrow> target)"

lemma install_hook_target:
  assumes "install_hook env addr target lib f = Inr (r, t)" "lib \<noteq> own"
  shows "t = call_target env own lib f target"
  using assms
  by (auto simp: install_hook_def call_target_def res_simps split: if_splits option.splits)

lemma patch_slot_known:
  assumes "patch_slot env mid sl s = Inr (sl', s')" "mem_to_lib s (sl_target sl) = Some lib"
  shows "s' = s \<and> sl' = sl\<lparr>sl_target := call_target env (pm_name (mod_of s mid)) lib (sl_name sl) (sl_target sl)\<rparr>"
proof (cases "lib = pm_name (mod_of s mid)")
  case True
  with assms show ?thesis by (auto simp: patch_slot_def res_simps mon_simps call_target_def)
next
  case False
  with assms show ?thesis
    by (auto simp: patch_slot_def res_simps mon_simps dest: install_hook_target [OF _ False])
qed

lemma patch_slots_known:
  "patch_slots env mid sls s = Inr (sls', s') \<Longrightarrow> (\<And>sl. sl \<in> set sls \<Longrightarrow> mem_to_lib s (sl_target sl) \<noteq> None) \<Longrightarrow>
     s' = s \<and> sls' = map (\<lambda>sl. sl\<lparr>sl_target := call_target env (pm_name (mod_of s mid))
        (the (mem_to_lib s (sl_target sl))) (sl_name sl) (sl_target sl)\<rparr>) sls"
proof (induction sls arbitrary: sls')
  case (Cons sl sls)
  then obtain sl1 s1 sls1 where p: "patch_slot env mid sl s = Inr (sl1, s1)"
    and r: "patch_slots env mid sls s1 = Inr (sls1, s')" and l: "sls' = sl1 # sls1"
    by (auto simp: res_simps)
  from Cons.prems(2) [of sl] obtain lib where "mem_to_lib s (sl_target sl) = Some lib" by auto
  with patch_slot_known [OF p this] Cons.IH [of sls1] Cons.prems(2) r l show ?case by auto
qed simp


end
