(* ===== verification/Ukalloc.thy ===== *)
theory Ukalloc
  imports Prelude
begin

text \<open>
  The allocator interface (\<^verbatim>\<open>lib/ukalloc\<close>): allocation of bytes on top of a page allocator
  (\<^verbatim>\<open>alloc.c\<close>), the compatibility functions, the dispatch functions of \<^verbatim>\<open>alloc.h\<close>, and
  the list of registered allocators. Sizes and addresses are 64-bit words and wrap around as
  in the code. The page allocator is a pair of functions, the fields \<^verbatim>\<open>palloc\<close> and
  \<^verbatim>\<open>pfree\<close> of \<^verbatim>\<open>struct uk_alloc\<close>; the locale \<open>page_allocator\<close> says what they promise.
\<close>

section \<open>Registered allocators\<close>

text \<open>
  Allocators are addresses; 0 is \<^verbatim>\<open>NULL\<close>. The list is \<^verbatim>\<open>uk_alloc_head\<close> and the field
  \<^verbatim>\<open>next\<close> of every allocator. A list with a cycle makes the loops run forever.
\<close>

record alloc_list =
  uk_alloc_head :: u64
  al_next :: "u64 \<Rightarrow> u64"

partial_function (option) last_alloc :: "(u64 \<Rightarrow> u64) \<Rightarrow> u64 \<Rightarrow> u64 option" where
  "last_alloc nxt this = (if nxt this = 0 then Some this else last_alloc nxt (nxt this))"

definition uk_alloc_register :: "alloc_list \<Rightarrow> u64 \<Rightarrow> alloc_list option" where
  "uk_alloc_register l a =
     (if uk_alloc_head l = 0 then Some \<lparr>uk_alloc_head = a, al_next = (al_next l)(a := 0)\<rparr>
      else case last_alloc (al_next l) (uk_alloc_head l) of
             None \<Rightarrow> None
           | Some this \<Rightarrow> Some (l\<lparr>al_next := (al_next l)(this := a, a := 0)\<rparr>))"

definition uk_alloc_get_default :: "alloc_list \<Rightarrow> u64" where
  "uk_alloc_get_default l = uk_alloc_head l"

text \<open>The search for \<open>a\<close> behind the element \<open>this\<close>: its predecessor, 0 if it is not there.\<close>

partial_function (option) alloc_prev :: "(u64 \<Rightarrow> u64) \<Rightarrow> u64 \<Rightarrow> u64 \<Rightarrow> u64 option" where
  "alloc_prev nxt a this =
     (if nxt this = 0 then Some 0 else if nxt this = a then Some this else alloc_prev nxt a (nxt this))"

definition uk_alloc_set_default :: "alloc_list \<Rightarrow> u64 \<Rightarrow> alloc_list option" where
  "uk_alloc_set_default l a =
     (let head = uk_alloc_get_default l
      in if a = head then Some l
         else if head = 0 then Some (l\<lparr>uk_alloc_head := a\<rparr>)
         else case alloc_prev (al_next l) a head of
                None \<Rightarrow> None
              | Some prev \<Rightarrow>
                  if prev \<noteq> 0
                  then let n1 = (al_next l)(prev := al_next l a)
                       in Some (l\<lparr>al_next := n1(a := n1 head)\<rparr>)
                  else Some \<lparr>uk_alloc_head = a, al_next = (al_next l)(a := head)\<rparr>)"

section \<open>Blocks in whole pages\<close>

definition align_up :: "u64 \<Rightarrow> u64 \<Rightarrow> u64" where
  "align_up v a = (v + a - 1) AND NOT (a - 1)"

definition align_down :: "u64 \<Rightarrow> u64 \<Rightarrow> u64" where
  "align_down v a = v AND NOT (a - 1)"

definition size_to_num_pages :: "u64 \<Rightarrow> u64" where
  "size_to_num_pages sz = align_up sz 4096 div 4096"

definition page_off :: "u64 \<Rightarrow> u64" where
  "page_off x = x AND (4096 - 1)"

record metadata_ifpages =
  md_num_pages :: u64
  md_base :: u64

definition sizeof_metadata :: u64 where "sizeof_metadata = 16"

definition METADATA_IFPAGES_SIZE_POW2 :: u64 where "METADATA_IFPAGES_SIZE_POW2 = 16"

text \<open>
  The heap: the state of the page allocator, the block descriptors in memory, the bytes of
  the blocks and \<^verbatim>\<open>errno\<close>. A descriptor never lies inside the part of a block that is
  handed out, so descriptors and bytes are kept apart.
\<close>

record 's heap =
  hp_pages :: 's
  hp_meta :: "u64 \<Rightarrow> metadata_ifpages"
  hp_mem :: "u64 \<Rightarrow> u8"
  hp_errno :: int

type_synonym 's palloc = "'s \<Rightarrow> u64 \<Rightarrow> (u64 \<times> 's) res"
type_synonym 's pfree = "'s \<Rightarrow> u64 \<Rightarrow> u64 \<Rightarrow> 's res"

definition memcpy :: "u64 \<Rightarrow> u64 \<Rightarrow> u64 \<Rightarrow> (u64 \<Rightarrow> u8) \<Rightarrow> u64 \<Rightarrow> u8" where
  "memcpy dst src n mem a = (if a - dst < n then mem (src + (a - dst)) else mem a)"

definition memset :: "u64 \<Rightarrow> u8 \<Rightarrow> u64 \<Rightarrow> (u64 \<Rightarrow> u8) \<Rightarrow> u64 \<Rightarrow> u8" where
  "memset dst v n mem a = (if a - dst < n then v else mem a)"

definition uk_get_metadata :: "u64 \<Rightarrow> u64 res" where
  "uk_get_metadata ptr =
     (if \<not> ptr \<ge> 4096 + sizeof_metadata then Inl Assert
      else let metadata = align_down ptr 4096
           in Inr (if metadata = ptr then metadata - 4096 else metadata))"

definition uk_getmallocsize :: "'s heap \<Rightarrow> u64 \<Rightarrow> u64 res" where
  "uk_getmallocsize h ptr =
     bindr (uk_get_metadata ptr) (\<lambda>metadata.
       Inr (md_base (hp_meta h metadata) + md_num_pages (hp_meta h metadata) * 4096 - ptr))"

definition put_metadata :: "u64 \<Rightarrow> u64 \<Rightarrow> u64 \<Rightarrow> 's heap \<Rightarrow> 's heap" where
  "put_metadata metadata num_pages base h =
     h\<lparr>hp_meta := (hp_meta h)(metadata := \<lparr>md_num_pages = num_pages, md_base = base\<rparr>)\<rparr>"

text \<open>Results of 0 are \<^verbatim>\<open>NULL\<close>.\<close>

definition uk_malloc_ifpages :: "'s palloc \<Rightarrow> u64 \<Rightarrow> 's heap \<Rightarrow> (u64 \<times> 's heap) res" where
  "uk_malloc_ifpages palloc sz h =
     (let realsize = sizeof_metadata + sz
      in if sz = 0 then Inr (0, h)
         else let num_pages = size_to_num_pages realsize
              in bindr (palloc (hp_pages h) num_pages) (\<lambda>(intptr, s).
                   let h1 = h\<lparr>hp_pages := s\<rparr>
                   in if intptr = 0 then Inr (0, h1)
                      else Inr (intptr + sizeof_metadata, put_metadata intptr num_pages intptr h1)))"

definition uk_free_ifpages :: "'s pfree \<Rightarrow> u64 \<Rightarrow> 's heap \<Rightarrow> 's heap res" where
  "uk_free_ifpages pfree ptr h =
     (if ptr = 0 then Inr h
      else bindr (uk_get_metadata ptr) (\<lambda>metadata.
        let md = hp_meta h metadata
        in if md_base md = 0 \<or> md_num_pages md = 0 then Inl Assert
           else bindr (pfree (hp_pages h) (md_base md) (md_num_pages md)) (\<lambda>s.
             Inr (h\<lparr>hp_pages := s\<rparr>))))"

definition uk_realloc_ifpages ::
  "'s palloc \<Rightarrow> 's pfree \<Rightarrow> u64 \<Rightarrow> u64 \<Rightarrow> 's heap \<Rightarrow> (u64 \<times> 's heap) res" where
  "uk_realloc_ifpages palloc pfree ptr sz h =
     (if ptr = 0 then uk_malloc_ifpages palloc sz h
      else if sz = 0 then bindr (uk_free_ifpages pfree ptr h) (\<lambda>h'. Inr (0, h'))
      else bindr (uk_malloc_ifpages palloc sz h) (\<lambda>(retptr, h1).
        if retptr = 0 then Inr (0, h1)
        else bindr (uk_getmallocsize h1 ptr) (\<lambda>mallocsize.
          let n = (if sz < mallocsize then sz else mallocsize);
              h2 = h1\<lparr>hp_mem := memcpy retptr ptr n (hp_mem h1)\<rparr>
          in bindr (uk_free_ifpages pfree ptr h2) (\<lambda>h3. Inr (retptr, h3)))))"

text \<open>
  The result is the error code, the value stored to \<^verbatim>\<open>*memptr\<close> (none if nothing is stored) and
  the heap.
\<close>

definition uk_posix_memalign_ifpages ::
  "'s palloc \<Rightarrow> u64 \<Rightarrow> u64 \<Rightarrow> 's heap \<Rightarrow> (int \<times> u64 option \<times> 's heap) res" where
  "uk_posix_memalign_ifpages palloc align sz h =
     (if (align - 1) AND align \<noteq> 0 \<or> align mod 8 \<noteq> 0 then Inr (EINVAL, None, h)
      else if sz = 0 then Inr (EINVAL, Some 0, h)
      else let (align', padding) =
                 (if align \<ge> 4096 then (align, 4096)
                  else if align < METADATA_IFPAGES_SIZE_POW2 then (METADATA_IFPAGES_SIZE_POW2, 0)
                  else (align, sizeof_metadata));
               realsize = sz + padding + align';
               num_pages = size_to_num_pages realsize
           in bindr (palloc (hp_pages h) num_pages) (\<lambda>(intptr, s).
                let h1 = h\<lparr>hp_pages := s\<rparr>
                in if intptr = 0 then Inr (ENOMEM, None, h1)
                   else let memptr = align_up (intptr + sizeof_metadata) align'
                        in bindr (uk_get_metadata memptr) (\<lambda>metadata.
                             if \<not> intptr \<le> metadata then Inl Assert
                             else Inr (0, Some memptr, put_metadata metadata num_pages intptr h1))))"

section \<open>Compatibility functions\<close>

text \<open>They are built from the other functions of the allocator, which are their parameters.\<close>

definition uk_pfree_compat :: "(u64 \<Rightarrow> 'h \<Rightarrow> 'h res) \<Rightarrow> u64 \<Rightarrow> u64 \<Rightarrow> 'h \<Rightarrow> 'h res" where
  "uk_pfree_compat free ptr num_pages h = (if page_off ptr \<noteq> 0 then Inl Assert else free ptr h)"

text \<open>\<open>junk\<close> is the content of the uninitialised variable \<^verbatim>\<open>ptr\<close>.\<close>

definition uk_palloc_compat ::
  "(u64 \<Rightarrow> u64 \<Rightarrow> 'h \<Rightarrow> (int \<times> u64 option \<times> 'h) res) \<Rightarrow> u64 \<Rightarrow> u64 \<Rightarrow> 'h \<Rightarrow> (u64 \<times> 'h) res" where
  "uk_palloc_compat posix_memalign junk num_pages h =
     bindr (posix_memalign 4096 (num_pages * 4096) h) (\<lambda>(r, p, h').
       Inr (if r \<noteq> 0 then 0 else (case p of None \<Rightarrow> junk | Some v \<Rightarrow> v), h'))"

definition uk_realloc_compat ::
  "(u64 \<Rightarrow> 's heap \<Rightarrow> (u64 \<times> 's heap) res) \<Rightarrow> (u64 \<Rightarrow> 's heap \<Rightarrow> 's heap res) \<Rightarrow>
     u64 \<Rightarrow> u64 \<Rightarrow> 's heap \<Rightarrow> (u64 \<times> 's heap) res" where
  "uk_realloc_compat malloc free ptr sz h =
     (if ptr = 0 then malloc sz h
      else if sz = 0 then bindr (free ptr h) (\<lambda>h'. Inr (0, h'))
      else bindr (malloc sz h) (\<lambda>(retptr, h1).
        if retptr = 0 then Inr (0, h1)
        else let h2 = h1\<lparr>hp_mem := memcpy retptr ptr sz (hp_mem h1)\<rparr>
             in bindr (free ptr h2) (\<lambda>h3. Inr (retptr, h3))))"

definition uk_calloc_compat ::
  "(u64 \<Rightarrow> 's heap \<Rightarrow> (u64 \<times> 's heap) res) \<Rightarrow> u64 \<Rightarrow> u64 \<Rightarrow> 's heap \<Rightarrow> (u64 \<times> 's heap) res" where
  "uk_calloc_compat malloc nmemb sz h =
     (let tlen = nmemb * sz
      in bindr (malloc tlen h) (\<lambda>(ptr, h1).
           if ptr = 0 then Inr (0, h1)
           else Inr (ptr, h1\<lparr>hp_mem := memset ptr 0 tlen (hp_mem h1)\<rparr>)))"

definition uk_memalign_compat ::
  "(u64 \<Rightarrow> u64 \<Rightarrow> 'h \<Rightarrow> (int \<times> u64 option \<times> 'h) res) \<Rightarrow> u64 \<Rightarrow> u64 \<Rightarrow> u64 \<Rightarrow> 'h \<Rightarrow> (u64 \<times> 'h) res" where
  "uk_memalign_compat posix_memalign junk align sz h =
     bindr (posix_memalign align sz h) (\<lambda>(r, p, h').
       Inr (if r \<noteq> 0 then 0 else (case p of None \<Rightarrow> junk | Some v \<Rightarrow> v), h'))"

section \<open>An allocator and its dispatch functions\<close>

record 's uk_alloc =
  ua_malloc :: "u64 \<Rightarrow> 's heap \<Rightarrow> (u64 \<times> 's heap) res"
  ua_calloc :: "u64 \<Rightarrow> u64 \<Rightarrow> 's heap \<Rightarrow> (u64 \<times> 's heap) res"
  ua_realloc :: "u64 \<Rightarrow> u64 \<Rightarrow> 's heap \<Rightarrow> (u64 \<times> 's heap) res"
  ua_posix_memalign :: "u64 \<Rightarrow> u64 \<Rightarrow> 's heap \<Rightarrow> (int \<times> u64 option \<times> 's heap) res"
  ua_memalign :: "u64 \<Rightarrow> u64 \<Rightarrow> 's heap \<Rightarrow> (u64 \<times> 's heap) res"
  ua_free :: "u64 \<Rightarrow> 's heap \<Rightarrow> 's heap res"
  ua_palloc :: "u64 \<Rightarrow> 's heap \<Rightarrow> (u64 \<times> 's heap) res"
  ua_pfree :: "u64 \<Rightarrow> u64 \<Rightarrow> 's heap \<Rightarrow> 's heap res"
  ua_addmem :: "(u64 \<Rightarrow> u64 \<Rightarrow> 's heap \<Rightarrow> (int \<times> 's heap) res) option"

definition on_pages :: "('s \<Rightarrow> ('a \<times> 's) res) \<Rightarrow> 's heap \<Rightarrow> ('a \<times> 's heap) res" where
  "on_pages f h = bindr (f (hp_pages h)) (\<lambda>(x, s). Inr (x, h\<lparr>hp_pages := s\<rparr>))"

definition uk_alloc_init_palloc ::
  "'s palloc \<Rightarrow> 's pfree \<Rightarrow> ('s \<Rightarrow> u64 \<Rightarrow> u64 \<Rightarrow> (int \<times> 's) res) \<Rightarrow> u64 \<Rightarrow> 's uk_alloc" where
  "uk_alloc_init_palloc palloc pfree addmem junk =
     \<lparr>ua_malloc = uk_malloc_ifpages palloc,
      ua_calloc = uk_calloc_compat (uk_malloc_ifpages palloc),
      ua_realloc = uk_realloc_ifpages palloc pfree,
      ua_posix_memalign = uk_posix_memalign_ifpages palloc,
      ua_memalign = uk_memalign_compat (uk_posix_memalign_ifpages palloc) junk,
      ua_free = uk_free_ifpages pfree,
      ua_palloc = (\<lambda>n. on_pages (\<lambda>s. palloc s n)),
      ua_pfree = (\<lambda>p n h. bindr (pfree (hp_pages h) p n) (\<lambda>s. Inr (h\<lparr>hp_pages := s\<rparr>))),
      ua_addmem = Some (\<lambda>base len. on_pages (\<lambda>s. addmem s base len))\<rparr>"

definition uk_alloc_init_malloc ::
  "(u64 \<Rightarrow> 's heap \<Rightarrow> (u64 \<times> 's heap) res) \<Rightarrow> (u64 \<Rightarrow> u64 \<Rightarrow> 's heap \<Rightarrow> (u64 \<times> 's heap) res) \<Rightarrow>
   (u64 \<Rightarrow> u64 \<Rightarrow> 's heap \<Rightarrow> (u64 \<times> 's heap) res) \<Rightarrow> (u64 \<Rightarrow> 's heap \<Rightarrow> 's heap res) \<Rightarrow>
   (u64 \<Rightarrow> u64 \<Rightarrow> 's heap \<Rightarrow> (int \<times> u64 option \<times> 's heap) res) \<Rightarrow>
   (u64 \<Rightarrow> u64 \<Rightarrow> 's heap \<Rightarrow> (u64 \<times> 's heap) res) \<Rightarrow>
   (u64 \<Rightarrow> u64 \<Rightarrow> 's heap \<Rightarrow> (int \<times> 's heap) res) option \<Rightarrow> u64 \<Rightarrow> 's uk_alloc" where
  "uk_alloc_init_malloc malloc_f calloc_f realloc_f free_f posix_memalign_f memalign_f addmem_f junk =
     \<lparr>ua_malloc = malloc_f, ua_calloc = calloc_f, ua_realloc = realloc_f,
      ua_posix_memalign = posix_memalign_f, ua_memalign = memalign_f, ua_free = free_f,
      ua_palloc = uk_palloc_compat posix_memalign_f junk, ua_pfree = uk_pfree_compat free_f,
      ua_addmem = addmem_f\<rparr>"

text \<open>A missing allocator is \<open>None\<close>.\<close>

definition uk_do_malloc :: "'s uk_alloc option \<Rightarrow> u64 \<Rightarrow> 's heap \<Rightarrow> (u64 \<times> 's heap) res" where
  "uk_do_malloc a sz h = (case a of None \<Rightarrow> Inl Assert | Some al \<Rightarrow> ua_malloc al sz h)"

definition uk_malloc :: "'s uk_alloc option \<Rightarrow> u64 \<Rightarrow> 's heap \<Rightarrow> (u64 \<times> 's heap) res" where
  "uk_malloc a sz h = (if a = None then Inr (0, h\<lparr>hp_errno := ENOMEM\<rparr>) else uk_do_malloc a sz h)"

definition uk_do_calloc :: "'s uk_alloc option \<Rightarrow> u64 \<Rightarrow> u64 \<Rightarrow> 's heap \<Rightarrow> (u64 \<times> 's heap) res" where
  "uk_do_calloc a nmemb sz h = (case a of None \<Rightarrow> Inl Assert | Some al \<Rightarrow> ua_calloc al nmemb sz h)"

definition uk_calloc :: "'s uk_alloc option \<Rightarrow> u64 \<Rightarrow> u64 \<Rightarrow> 's heap \<Rightarrow> (u64 \<times> 's heap) res" where
  "uk_calloc a nmemb sz h =
     (if a = None then Inr (0, h\<lparr>hp_errno := ENOMEM\<rparr>) else uk_do_calloc a nmemb sz h)"

definition uk_do_realloc :: "'s uk_alloc option \<Rightarrow> u64 \<Rightarrow> u64 \<Rightarrow> 's heap \<Rightarrow> (u64 \<times> 's heap) res" where
  "uk_do_realloc a ptr sz h = (case a of None \<Rightarrow> Inl Assert | Some al \<Rightarrow> ua_realloc al ptr sz h)"

definition uk_realloc :: "'s uk_alloc option \<Rightarrow> u64 \<Rightarrow> u64 \<Rightarrow> 's heap \<Rightarrow> (u64 \<times> 's heap) res" where
  "uk_realloc a ptr sz h =
     (if a = None then Inr (0, h\<lparr>hp_errno := ENOMEM\<rparr>) else uk_do_realloc a ptr sz h)"

definition uk_do_posix_memalign ::
  "'s uk_alloc option \<Rightarrow> u64 \<Rightarrow> u64 \<Rightarrow> 's heap \<Rightarrow> (int \<times> u64 option \<times> 's heap) res" where
  "uk_do_posix_memalign a align sz h =
     (case a of None \<Rightarrow> Inl Assert | Some al \<Rightarrow> ua_posix_memalign al align sz h)"

definition uk_posix_memalign ::
  "'s uk_alloc option \<Rightarrow> u64 \<Rightarrow> u64 \<Rightarrow> 's heap \<Rightarrow> (int \<times> u64 option \<times> 's heap) res" where
  "uk_posix_memalign a align sz h =
     (if a = None then Inr (ENOMEM, Some 0, h) else uk_do_posix_memalign a align sz h)"

definition uk_do_memalign :: "'s uk_alloc option \<Rightarrow> u64 \<Rightarrow> u64 \<Rightarrow> 's heap \<Rightarrow> (u64 \<times> 's heap) res" where
  "uk_do_memalign a align sz h = (case a of None \<Rightarrow> Inl Assert | Some al \<Rightarrow> ua_memalign al align sz h)"

definition uk_memalign :: "'s uk_alloc option \<Rightarrow> u64 \<Rightarrow> u64 \<Rightarrow> 's heap \<Rightarrow> (u64 \<times> 's heap) res" where
  "uk_memalign a align sz h = (if a = None then Inr (0, h) else uk_do_memalign a align sz h)"

definition uk_do_free :: "'s uk_alloc option \<Rightarrow> u64 \<Rightarrow> 's heap \<Rightarrow> 's heap res" where
  "uk_do_free a ptr h = (case a of None \<Rightarrow> Inl Assert | Some al \<Rightarrow> ua_free al ptr h)"

definition uk_free :: "'s uk_alloc option \<Rightarrow> u64 \<Rightarrow> 's heap \<Rightarrow> 's heap res" where
  "uk_free a ptr h = uk_do_free a ptr h"

definition uk_do_palloc :: "'s uk_alloc option \<Rightarrow> u64 \<Rightarrow> 's heap \<Rightarrow> (u64 \<times> 's heap) res" where
  "uk_do_palloc a n h = (case a of None \<Rightarrow> Inl Assert | Some al \<Rightarrow> ua_palloc al n h)"

definition uk_palloc :: "'s uk_alloc option \<Rightarrow> u64 \<Rightarrow> 's heap \<Rightarrow> (u64 \<times> 's heap) res" where
  "uk_palloc a n h = (if a = None then Inr (0, h) else uk_do_palloc a n h)"

definition uk_do_pfree :: "'s uk_alloc option \<Rightarrow> u64 \<Rightarrow> u64 \<Rightarrow> 's heap \<Rightarrow> 's heap res" where
  "uk_do_pfree a ptr n h = (case a of None \<Rightarrow> Inl Assert | Some al \<Rightarrow> ua_pfree al ptr n h)"

definition uk_pfree :: "'s uk_alloc option \<Rightarrow> u64 \<Rightarrow> u64 \<Rightarrow> 's heap \<Rightarrow> 's heap res" where
  "uk_pfree a ptr n h = uk_do_pfree a ptr n h"

definition uk_alloc_addmem :: "'s uk_alloc option \<Rightarrow> u64 \<Rightarrow> u64 \<Rightarrow> 's heap \<Rightarrow> (int \<times> 's heap) res" where
  "uk_alloc_addmem a base len h =
     (case a of
        None \<Rightarrow> Inl Assert
      | Some al \<Rightarrow> case ua_addmem al of None \<Rightarrow> Inr (- ENOTSUP, h) | Some f \<Rightarrow> f base len h)"

section \<open>Alignment\<close>

lemma u64_less_exp: "unat (a :: u64) < 2 ^ 64"
  using u64_less [of a] by simp

lemma and_not_mask: "(v :: u64) AND NOT (mask k) = push_bit k (drop_bit k v)"
  by (rule bit_eqI) (auto simp: bit_and_iff bit_not_iff bit_mask_iff bit_push_bit_iff bit_drop_bit_eq)

lemma unat_push_drop: "unat (push_bit k (drop_bit k v) :: u64) = unat v div 2 ^ k * 2 ^ k"
proof -
  have "unat v div 2 ^ k * 2 ^ k \<le> unat v" by simp
  then have "unat v div 2 ^ k * 2 ^ k < 2 ^ 64" using u64_less_exp [of v] by (rule order.strict_trans1)
  moreover have "unat (push_bit k (drop_bit k v)) = take_bit 64 (push_bit k (unat (drop_bit k v)))"
    by (simp add: unsigned_push_bit_eq)
  ultimately show ?thesis
    by (simp add: unat_drop_bit_eq drop_bit_eq_div [where 'a = nat] push_bit_eq_mult [where 'a = nat] take_bit_nat_eq_self)
qed

lemma unat_align_down: "unat (align_down v (2 ^ k)) = unat v div 2 ^ k * 2 ^ k"
proof -
  have "(2 ^ k - 1 :: u64) = mask k" by (simp add: mask_eq_exp_minus_1)
  then show ?thesis by (simp only: align_down_def and_not_mask unat_push_drop)
qed

lemma unat_pow2: "k < 64 \<Longrightarrow> unat (2 ^ k :: u64) = 2 ^ k"
proof -
  assume "k < 64"
  then have "(2::nat) ^ k < 2 ^ 64" by (rule power_strict_increasing) simp
  moreover have "(2 ^ k :: u64) = of_nat (2 ^ k)" by simp
  ultimately show ?thesis by (simp only: unat_of_nat mod_less) simp
qed

lemma unat_align_up:
  assumes "k < 64" "unat v + 2 ^ k \<le> 2 ^ 64"
  shows "unat (align_up v (2 ^ k)) = (unat v + 2 ^ k - 1) div 2 ^ k * 2 ^ k"
proof -
  have m: "(2 ^ k - 1 :: u64) = mask k" by (simp add: mask_eq_exp_minus_1)
  have "unat (2 ^ k - 1 :: u64) = 2 ^ k - 1"
    using assms(1) by (simp add: unat_minus_one unat_pow2)
  then have "unat (v + (2 ^ k - 1)) = unat v + (2 ^ k - 1)"
    using assms(2) by (simp add: unat_word_ariths)
  then show ?thesis
    unfolding align_up_def add_diff_eq [symmetric] m and_not_mask unat_push_drop
    by (simp only: m [symmetric]) (simp add: Suc_leI)
qed

lemma size_to_num_pages_val:
  assumes "unat sz + 4096 \<le> 2 ^ 64"
  shows "unat (size_to_num_pages sz) = (unat sz + 4095) div 4096"
proof -
  have "unat (align_up sz 4096) = (unat sz + 4095) div 4096 * 4096"
    using unat_align_up [of 12 sz] assms by simp
  then show ?thesis by (simp add: size_to_num_pages_def unat_div)
qed

text \<open>The test of \<^verbatim>\<open>posix_memalign\<close> accepts the powers of two, and 0.\<close>

lemma power_of_two_test:
  assumes "(a - 1) AND a = (0 :: u64)" "a \<noteq> 0"
  obtains k where "k < 64" "a = 2 ^ k"
proof -
  from assms(2) have pos: "0 < unat a" by (simp add: unat_gt_0)
  obtain k where k: "2 ^ k \<le> unat a" "unat a < 2 ^ (k + 1)"
    using ex_power_ivl1 [of 2 "unat a"] pos by auto
  have "2 ^ k < (2::nat) ^ 64" using k(1) u64_less_exp [of a] by (rule order.strict_trans1)
  then have k64: "k < 64" by (simp only: power_strict_increasing_iff)
  have "unat a = 2 ^ k"
  proof (rule ccontr)
    assume ne: "unat a \<noteq> 2 ^ k"
    have "unat (a - 1) = unat a - 1" using pos by (simp add: unat_minus_one assms(2))
    then have "unat (a - 1) div 2 ^ k = 1" "unat a div 2 ^ k = 1"
      using k ne by (auto intro!: div_nat_eqI)
    then have "bit (unat (a - 1)) k" "bit (unat a) k" by (simp_all add: bit_iff_odd)
    then have "bit (a - 1) k" "bit a k" by (simp_all add: bit_unsigned_iff)
    with assms(1) show False by (metis bit_0_eq bit_and_iff bot_apply bot_bool_def)
  qed
  then have "unat a = unat (2 ^ k :: u64)" using k64 by (simp add: unat_pow2)
  then have "a = 2 ^ k" by (rule word_unat_eq_iff [THEN iffD2])
  with k64 that show thesis by blast
qed

section \<open>What a page allocator promises\<close>

text \<open>
  \<open>freep\<close> are the free pages, \<open>blk n\<close> is the number of pages a request for \<open>n\<close> pages takes,
  and \<open>live\<close> says that a block has been handed out and not been released.
\<close>

definition block :: "(u64 \<Rightarrow> nat) \<Rightarrow> u64 \<Rightarrow> u64 \<Rightarrow> nat set" where
  "block blk p n = {page_of p..<page_of p + blk n}"

locale page_allocator =
  fixes palloc :: "'s palloc" and pfree :: "'s pfree" and inv :: "'s \<Rightarrow> bool"
    and freep :: "'s \<Rightarrow> nat set" and live :: "'s \<Rightarrow> u64 \<Rightarrow> u64 \<Rightarrow> bool" and blk :: "u64 \<Rightarrow> nat"
  assumes palloc: "inv s \<Longrightarrow> n \<noteq> 0 \<Longrightarrow> unat n \<le> 2 ^ 51 \<Longrightarrow>
      (palloc s n = Inr (0, s)) \<or>
      (\<exists>p s'. palloc s n = Inr (p, s') \<and> inv s' \<and> p \<noteq> 0 \<and> page_aligned p \<and> page_of p + blk n \<le> 2 ^ 52 \<and>
         block blk p n \<subseteq> freep s \<and> freep s' = freep s - block blk p n \<and> live s' p n \<and>
         (\<forall>q m. live s q m \<longrightarrow> live s' q m))"
    and blk: "n \<noteq> 0 \<Longrightarrow> unat n \<le> blk n"
    and pfree: "inv s \<Longrightarrow> live s p n \<Longrightarrow>
      \<exists>s'. pfree s p n = Inr s' \<and> inv s' \<and> freep s' = freep s \<union> block blk p n \<and>
        (\<forall>q m. live s q m \<longrightarrow> block blk q m \<inter> block blk p n = {} \<longrightarrow> live s' q m)"
    and live_used: "live s p n \<Longrightarrow> block blk p n \<inter> freep s = {}"

text \<open>
  A pointer that \<^verbatim>\<open>free\<close> accepts: its descriptor names a block that is in use. \<open>holds\<close>
  says that the bytes of the block behind the pointer lie in the pages of that block.
\<close>

definition descriptor :: "'s heap \<Rightarrow> u64 \<Rightarrow> metadata_ifpages" where
  "descriptor h ptr = (case uk_get_metadata ptr of Inl e \<Rightarrow> hp_meta h 0 | Inr m \<Rightarrow> hp_meta h m)"

definition has_block :: "('s \<Rightarrow> u64 \<Rightarrow> u64 \<Rightarrow> bool) \<Rightarrow> 's heap \<Rightarrow> u64 \<Rightarrow> bool" where
  "has_block live h ptr \<longleftrightarrow> ptr \<noteq> 0 \<and> (\<exists>m. uk_get_metadata ptr = Inr m) \<and>
     md_base (descriptor h ptr) \<noteq> 0 \<and> md_num_pages (descriptor h ptr) \<noteq> 0 \<and>
     live (hp_pages h) (md_base (descriptor h ptr)) (md_num_pages (descriptor h ptr))"

definition block_of :: "(u64 \<Rightarrow> nat) \<Rightarrow> 's heap \<Rightarrow> u64 \<Rightarrow> nat set" where
  "block_of blk h ptr = block blk (md_base (descriptor h ptr)) (md_num_pages (descriptor h ptr))"

definition holds :: "'s heap \<Rightarrow> u64 \<Rightarrow> u64 \<Rightarrow> bool" where
  "holds h ptr sz \<longleftrightarrow> (let d = descriptor h ptr in page_aligned (md_base d) \<and>
     unat (md_base d) + 16 \<le> unat ptr \<and> unat ptr + unat sz \<le> unat (md_base d) + 4096 * unat (md_num_pages d) \<and>
     unat (md_base d) + 4096 * unat (md_num_pages d) \<le> 2 ^ 64)"

lemma descriptor_cong: "hp_meta h' = hp_meta h \<Longrightarrow> descriptor h' p = descriptor h p"
  by (simp add: descriptor_def split: sum.split)

lemma get_metadata_header:
  assumes "page_aligned p" "p \<noteq> 0" "unat p + 4096 \<le> 2 ^ 64" "16 \<le> unat d" "unat d < 4096"
  shows "uk_get_metadata (p + d) = Inr p"
proof -
  from assms(1,2) have p: "unat p mod 4096 = 0" "0 < unat p" by (auto simp: page_aligned_iff unat_gt_0)
  then have ge: "4096 \<le> unat p" by (auto simp: mod_eq_0_iff_dvd dest: dvd_imp_le)
  have v: "unat (p + d) = unat p + unat d" using assms(3,5) by (simp add: unat_word_ariths)
  from p(1) obtain k where k: "unat p = 4096 * k" by (auto elim: dvdE)
  have "unat (align_down (p + d) 4096) = unat p"
    using unat_align_down [of "p + d" 12] v k assms(5) by simp
  then have "align_down (p + d) 4096 = p" by (rule word_unat_eq_iff [THEN iffD2])
  moreover have "\<not> p + d < 4112" using ge v assms(4) by (simp add: word_less_nat_alt)
  moreover have "p \<noteq> p + d" using v assms(4) by (metis add_cancel_left_right not_numeral_le_zero)
  ultimately show ?thesis by (simp add: uk_get_metadata_def sizeof_metadata_def Let_def not_less)
qed

lemma get_metadata_page:
  assumes "unat ptr mod 4096 = 0" "8192 \<le> unat ptr"
  shows "uk_get_metadata ptr = Inr (ptr - 4096)"
proof -
  from assms(1) obtain k where k: "unat ptr = 4096 * k" by (auto elim: dvdE)
  have "unat (align_down ptr 4096) = unat ptr" using unat_align_down [of ptr 12] k by simp
  then have "align_down ptr 4096 = ptr" by (rule word_unat_eq_iff [THEN iffD2])
  moreover have "\<not> ptr < 4112" using assms(2) by (simp add: word_less_nat_alt)
  ultimately show ?thesis by (simp add: uk_get_metadata_def sizeof_metadata_def Let_def not_less)
qed

lemma block_rest:
  fixes b n ptr osz :: u64
  assumes "unat ptr + unat osz \<le> unat b + 4096 * unat n" "unat b + 4096 * unat n \<le> 2 ^ 64" "0 < unat ptr"
  shows "unat osz \<le> unat (b + n * 4096 - ptr)"
proof -
  let ?d = "unat b + 4096 * unat n - unat ptr"
  have "b + n * 4096 - ptr = of_nat ?d" using assms(1) by (simp add: of_nat_diff)
  moreover have "?d < 2 ^ 64" using assms by linarith
  ultimately have "unat (b + n * 4096 - ptr) = ?d" by (simp only: unat_of_nat) simp
  then show ?thesis using assms(1) by linarith
qed

lemma pages_in_block: "page_of p + b \<le> 2 ^ 52 \<Longrightarrow> page_aligned p \<Longrightarrow> unat p + 4096 * b \<le> 2 ^ 64"
proof -
  assume a: "page_of p + b \<le> 2 ^ 52" "page_aligned p"
  then obtain k where "unat p = 4096 * k" by (auto simp: page_aligned_iff elim: dvdE)
  with a show ?thesis by (simp add: page_of_def)
qed

text \<open>An aligned block, with its descriptor in the page before it when the alignment is a page or more.\<close>

lemma memalign_place:
  assumes p: "page_aligned p" "p \<noteq> 0" and k: "4 \<le> k" "k < 62"
    and room: "unat p + 4096 * N \<le> 2 ^ 64" "unat sz + (if 12 \<le> k then 4096 else 0) + 2 ^ k \<le> 4096 * N"
  obtains m where "uk_get_metadata (align_up (p + 16) (2 ^ k)) = Inr m" "p \<le> m"
    "2 ^ k dvd unat (align_up (p + 16) (2 ^ k))" "unat p + 16 \<le> unat (align_up (p + 16) (2 ^ k))"
    "unat (align_up (p + 16) (2 ^ k)) + unat sz \<le> unat p + 4096 * N"
proof -
  let ?q = "align_up (p + 16) (2 ^ k)"
  have "unat p \<noteq> 0" using p(2) by (simp add: unat_eq_zero_iff)
  with p(1) obtain P where P: "unat p = 4096 * P" "0 < P" by (auto simp: page_aligned_iff elim!: dvdE)
  have k2: "(16::nat) \<le> 2 ^ k" using power_increasing [OF k(1), of "2::nat"] by simp
  then have N: "1 \<le> N" using room(2) by (cases N) simp_all
  have v: "unat (p + 16) = unat p + 16" using room(1) N by (simp add: unat_word_ariths)
  have le: "unat p + 16 + 2 ^ k \<le> 2 ^ 64" using room P
  proof (cases "12 \<le> k")
    case False
    then have "(2::nat) ^ k \<le> 2 ^ 11" by (intro power_increasing) simp_all
    with room(1) N show ?thesis by simp
  qed auto
  have q: "unat ?q = (unat p + 16 + 2 ^ k - 1) div 2 ^ k * 2 ^ k"
    using unat_align_up [of k "p + 16"] v le k by simp
  then have dvd: "2 ^ k dvd unat ?q" by simp
  show thesis
  proof (cases "12 \<le> k")
    case False
    then have small: "(2::nat) ^ k \<le> 2 ^ 11" by (intro power_increasing) simp_all
    have "(2::nat) ^ k dvd 4096" using False le_imp_power_dvd [of k 12 "2::nat"] by simp
    then obtain c where c: "unat p = 2 ^ k * c" using P by (metis dvd_def dvd_mult2)
    have "unat ?q = unat p + 2 ^ k"
    proof -
      have "(unat p + 16 + 2 ^ k - 1) div 2 ^ k = c + 1"
        unfolding c using k2 by (intro div_nat_eqI) (simp_all add: algebra_simps)
      then show ?thesis unfolding q by (simp add: c algebra_simps)
    qed
    moreover have "unat (p + 2 ^ k) = unat p + 2 ^ k"
      using k le by (simp add: unat_word_ariths unat_pow2)
    ultimately have qe: "?q = p + 2 ^ k" "unat ?q = unat p + 2 ^ k" by (simp_all add: word_unat_eq_iff)
    have "uk_get_metadata ?q = Inr p"
      unfolding qe(1) by (rule get_metadata_header [OF p]) (use room(1) N small k2 k in \<open>simp_all add: unat_pow2\<close>)
    then show thesis using dvd qe(2) room(2) k2 by (intro that [of p]) simp_all
  next
    case True
    have d4: "(4096::nat) dvd 2 ^ k" using True le_imp_power_dvd [of 12 k "2::nat"] by simp
    obtain Q where Q: "unat ?q = 4096 * Q" using dvd_trans [OF d4 dvd] by (rule dvdE)
    obtain K where K: "(2::nat) ^ k = 4096 * K" using d4 by (rule dvdE)
    define x where "x = unat p + 16 + 2 ^ k - 1"
    have pos: "(0::nat) < 2 ^ k" by simp
    have "x div 2 ^ k * 2 ^ k + x mod 2 ^ k = x" "x mod 2 ^ k < 2 ^ k"
      by (rule div_mult_mod_eq, rule mod_less_divisor [OF pos])
    then have "x < unat ?q + 2 ^ k" "unat ?q \<le> x" unfolding q x_def [symmetric] by linarith+
    then have "unat p + 16 \<le> unat ?q" "unat ?q \<le> unat p + 15 + 2 ^ k" unfolding x_def by linarith+
    then have b: "P + 1 \<le> Q" "Q \<le> P + K" using P Q K by simp_all
    have "uk_get_metadata ?q = Inr (?q - 4096)"
      by (rule get_metadata_page) (use Q b P in simp_all)
    moreover have "unat (?q - 4096) = unat ?q - 4096"
      using Q b by (simp add: unat_sub word_le_nat_alt)
    then have "p \<le> ?q - 4096" using Q b P by (simp add: word_le_nat_alt)
    ultimately show thesis using dvd b Q K P room(2) True by (intro that) simp_all
  qed
qed

context page_allocator
begin

text \<open>Releasing a block gives back exactly its pages.\<close>

lemma free_ok:
  assumes "inv (hp_pages h)" "has_block live h ptr"
  shows "\<exists>s'. uk_free_ifpages pfree ptr h = Inr (h\<lparr>hp_pages := s'\<rparr>) \<and> inv s' \<and>
    freep s' = freep (hp_pages h) \<union> block_of blk h ptr \<and>
    (\<forall>q m. live (hp_pages h) q m \<longrightarrow> block blk q m \<inter> block_of blk h ptr = {} \<longrightarrow> live s' q m)"
proof -
  from assms(2) obtain m where m: "uk_get_metadata ptr = Inr m" "ptr \<noteq> 0"
    "md_base (hp_meta h m) \<noteq> 0" "md_num_pages (hp_meta h m) \<noteq> 0"
    "live (hp_pages h) (md_base (hp_meta h m)) (md_num_pages (hp_meta h m))"
    by (auto simp: has_block_def descriptor_def)
  from pfree [OF assms(1) m(5)] m show ?thesis
    by (auto simp: uk_free_ifpages_def block_of_def descriptor_def)
qed

text \<open>A block of bytes: the pages were free, hold the descriptor and the bytes, and are in use now.\<close>

lemma malloc_ok:
  assumes inv: "inv (hp_pages h)" and sz: "sz \<noteq> 0" "unat sz \<le> 2 ^ 62"
  shows "uk_malloc_ifpages palloc sz h = Inr (0, h) \<or>
    (\<exists>ptr h'. uk_malloc_ifpages palloc sz h = Inr (ptr, h') \<and> inv (hp_pages h') \<and> has_block live h' ptr \<and>
       holds h' ptr sz \<and> block_of blk h' ptr \<subseteq> freep (hp_pages h) \<and>
       freep (hp_pages h') = freep (hp_pages h) - block_of blk h' ptr \<and> hp_mem h' = hp_mem h \<and>
       (\<forall>q m. live (hp_pages h) q m \<longrightarrow> live (hp_pages h') q m) \<and>
       (\<forall>a. page_of a \<notin> block_of blk h' ptr \<longrightarrow> hp_meta h' a = hp_meta h a))"
proof -
  let ?n = "size_to_num_pages (16 + sz)"
  have r: "unat (16 + sz) = 16 + unat sz" using sz(2) by (simp add: unat_word_ariths)
  have n: "unat ?n = (16 + unat sz + 4095) div 4096"
    using size_to_num_pages_val [of "16 + sz"] sz(2) r by simp
  have n1: "1 \<le> unat ?n" using n by simp
  have n0: "?n \<noteq> 0" using n by (auto simp: unat_eq_zero_iff [symmetric])
  have n51: "unat ?n \<le> 2 ^ 51" using n sz(2) by simp
  have fits: "16 + unat sz \<le> 4096 * unat ?n" using n by linarith
  consider "palloc (hp_pages h) ?n = Inr (0, hp_pages h)" |
    (ok) p s' where "palloc (hp_pages h) ?n = Inr (p, s')" "inv s'" "p \<noteq> 0" "page_aligned p"
      "page_of p + blk ?n \<le> 2 ^ 52" "block blk p ?n \<subseteq> freep (hp_pages h)"
      "freep s' = freep (hp_pages h) - block blk p ?n" "live s' p ?n" "\<forall>q m. live (hp_pages h) q m \<longrightarrow> live s' q m"
    using palloc [OF inv n0 n51] by blast
  then show ?thesis
  proof cases
    case 1
    then show ?thesis using sz(1) by (simp add: uk_malloc_ifpages_def sizeof_metadata_def)
  next
    case ok
    let ?h = "put_metadata p ?n p (h\<lparr>hp_pages := s'\<rparr>)"
    have bn: "unat ?n \<le> blk ?n" by (rule blk [OF n0])
    have end1: "unat p + 4096 * blk ?n \<le> 2 ^ 64" by (rule pages_in_block [OF ok(5,4)])
    have end2: "unat p + 4096 * unat ?n \<le> 2 ^ 64" using end1 bn by simp
    have gm: "uk_get_metadata (p + 16) = Inr p"
      by (rule get_metadata_header [OF ok(4,3)]) (use end2 n1 in simp_all)
    have v: "unat (p + 16) = unat p + 16"
      using end2 n1 by (simp add: unat_word_ariths)
    have d: "descriptor ?h (p + 16) = \<lparr>md_num_pages = ?n, md_base = p\<rparr>"
      by (simp add: descriptor_def gm put_metadata_def)
    have "uk_malloc_ifpages palloc sz h = Inr (p + 16, ?h)"
      using ok(1,3) sz(1) by (simp add: uk_malloc_ifpages_def sizeof_metadata_def Let_def)
    moreover have "has_block live ?h (p + 16)"
      using gm d ok(3,8) n0 v by (auto simp: has_block_def put_metadata_def unat_eq_zero_iff [symmetric])
    moreover have "holds ?h (p + 16) sz" using d ok(4) end2 fits v by (simp add: holds_def)
    moreover have "page_of p \<in> block blk p ?n" using bn n1 by (simp add: block_def)
    ultimately show ?thesis using ok d by (auto simp: block_of_def put_metadata_def)
  qed
qed

lemma memalign_ok:
  assumes inv: "inv (hp_pages h)" and sz: "sz \<noteq> 0" "unat sz \<le> 2 ^ 61"
    and al: "(align - 1) AND align = 0" "align mod 8 = 0" "align \<noteq> 0" "unat align \<le> 2 ^ 61"
  shows "uk_posix_memalign_ifpages palloc align sz h = Inr (ENOMEM, None, h) \<or>
    (\<exists>ptr h'. uk_posix_memalign_ifpages palloc align sz h = Inr (0, Some ptr, h') \<and> inv (hp_pages h') \<and>
       has_block live h' ptr \<and> holds h' ptr sz \<and> unat align dvd unat ptr \<and>
       block_of blk h' ptr \<subseteq> freep (hp_pages h) \<and> freep (hp_pages h') = freep (hp_pages h) - block_of blk h' ptr)"
proof -
  obtain j where j: "j < 64" "align = 2 ^ j" using power_of_two_test [OF al(1,3)] by blast
  have "(2::nat) ^ j \<le> 2 ^ 61" using al(4) j by (simp add: unat_pow2)
  then have j61: "j \<le> 61" by (simp only: power_increasing_iff)
  define k where "k = max j 4"
  define pad :: u64 where "pad = (if 12 \<le> j then 4096 else if j < 4 then 0 else 16)"
  have j12: "align \<ge> 4096 \<longleftrightarrow> 12 \<le> j" "align < 16 \<longleftrightarrow> j < 4"
    using power_increasing_iff [of "2::nat" 12 j] power_strict_increasing_iff [of "2::nat" j 4] j
    by (simp_all add: word_le_nat_alt word_less_nat_alt unat_pow2)
  have ap: "(if align \<ge> 4096 then (align, 4096)
      else if align < METADATA_IFPAGES_SIZE_POW2 then (METADATA_IFPAGES_SIZE_POW2, 0)
      else (align, sizeof_metadata)) = (2 ^ k, pad)"
    unfolding METADATA_IFPAGES_SIZE_POW2_def sizeof_metadata_def j12 pad_def k_def using j by (simp add: max_def)
  have k: "4 \<le> k" "k < 62" "12 \<le> k \<longleftrightarrow> 12 \<le> j" "j \<le> k" using j61 by (auto simp: k_def)
  have pad: "unat pad \<le> 4096" "12 \<le> k \<Longrightarrow> unat pad = 4096" using k(3) by (auto simp: pad_def)
  have k61: "(2::nat) ^ k \<le> 2 ^ 61" using k(2) by (intro power_increasing) simp_all
  let ?n = "size_to_num_pages (sz + pad + 2 ^ k)"
  have r: "unat (sz + pad + 2 ^ k) = unat sz + unat pad + 2 ^ k"
    using sz(2) pad(1) k61 k(2) by (simp add: unat_word_ariths unat_pow2)
  then have n: "unat ?n = (unat sz + unat pad + 2 ^ k + 4095) div 4096"
    using size_to_num_pages_val [of "sz + pad + 2 ^ k"] sz(2) pad(1) k61 by simp
  then have fits: "unat sz + unat pad + 2 ^ k \<le> 4096 * unat ?n" by linarith
  have "1 \<le> (2::nat) ^ k" by simp
  then have n1: "1 \<le> unat ?n" using fits by linarith
  then have n0: "?n \<noteq> 0" by (auto simp: unat_eq_zero_iff [symmetric])
  have n51: "unat ?n \<le> 2 ^ 51" using n sz(2) pad(1) k61 by simp
  have code: "uk_posix_memalign_ifpages palloc align sz h = bindr (palloc (hp_pages h) ?n) (\<lambda>(intptr, s).
      if intptr = 0 then Inr (ENOMEM, None, h\<lparr>hp_pages := s\<rparr>)
      else let memptr = align_up (intptr + 16) (2 ^ k)
           in bindr (uk_get_metadata memptr) (\<lambda>metadata. if \<not> intptr \<le> metadata then Inl Assert
                else Inr (0, Some memptr, put_metadata metadata ?n intptr (h\<lparr>hp_pages := s\<rparr>))))"
    unfolding uk_posix_memalign_ifpages_def ap unfolding sizeof_metadata_def using sz(1) al(1,2) by (simp add: Let_def)
  consider "palloc (hp_pages h) ?n = Inr (0, hp_pages h)" |
    (ok) p s' where "palloc (hp_pages h) ?n = Inr (p, s')" "inv s'" "p \<noteq> 0" "page_aligned p"
      "page_of p + blk ?n \<le> 2 ^ 52" "block blk p ?n \<subseteq> freep (hp_pages h)"
      "freep s' = freep (hp_pages h) - block blk p ?n" "live s' p ?n"
    using palloc [OF inv n0 n51] by blast
  then show ?thesis
  proof cases
    case 1
    then show ?thesis unfolding code by simp
  next
    case ok
    have "unat p + 4096 * blk ?n \<le> 2 ^ 64" by (rule pages_in_block [OF ok(5,4)])
    then have room: "unat p + 4096 * unat ?n \<le> 2 ^ 64" using blk [OF n0] by simp
    have "unat sz + (if 12 \<le> k then 4096 else 0) + 2 ^ k \<le> 4096 * unat ?n"
      using fits pad(2) by auto
    from memalign_place [OF ok(4,3) k(1,2) room this]
    obtain m where m: "uk_get_metadata (align_up (p + 16) (2 ^ k)) = Inr m" "p \<le> m"
      "2 ^ k dvd unat (align_up (p + 16) (2 ^ k))" "unat p + 16 \<le> unat (align_up (p + 16) (2 ^ k))"
      "unat (align_up (p + 16) (2 ^ k)) + unat sz \<le> unat p + 4096 * unat ?n" by blast
    let ?q = "align_up (p + 16) (2 ^ k)" and ?h = "put_metadata m ?n p (h\<lparr>hp_pages := s'\<rparr>)"
    have d: "descriptor ?h ?q = \<lparr>md_num_pages = ?n, md_base = p\<rparr>"
      by (simp add: descriptor_def m(1) put_metadata_def)
    have "uk_posix_memalign_ifpages palloc align sz h = Inr (0, Some ?q, ?h)"
      unfolding code using ok(1,3) m(1,2) by (simp add: Let_def)
    moreover have "?q \<noteq> 0" using m(4) by (auto simp: unat_eq_zero_iff [symmetric])
    then have "has_block live ?h ?q"
      using m(1) d ok(3,8) n0 by (auto simp: has_block_def put_metadata_def)
    moreover have "holds ?h ?q sz" using d ok(4) m(4,5) room by (simp add: holds_def)
    moreover have "unat align dvd unat ?q"
      using m(3) k(4) j le_imp_power_dvd [OF k(4), of "2::nat"] by (auto simp: unat_pow2 intro: dvd_trans)
    ultimately show ?thesis using ok d by (auto simp: block_of_def put_metadata_def)
  qed
qed

text \<open>The descriptor of a block lies in the pages of the block.\<close>

lemma descriptor_page:
  assumes "has_block live h ptr" "holds h ptr sz" "sz \<noteq> 0"
  obtains m where "uk_get_metadata ptr = Inr m" "page_of m \<in> block_of blk h ptr" "descriptor h ptr = hp_meta h m"
    "uk_getmallocsize h ptr = Inr (md_base (hp_meta h m) + md_num_pages (hp_meta h m) * 4096 - ptr)"
proof -
  from assms(1) obtain m where m: "uk_get_metadata ptr = Inr m" "md_num_pages (hp_meta h m) \<noteq> 0"
    by (auto simp: has_block_def descriptor_def)
  then have d: "descriptor h ptr = hp_meta h m" by (simp add: descriptor_def)
  let ?b = "md_base (hp_meta h m)" and ?n = "md_num_pages (hp_meta h m)"
  have H: "page_aligned ?b" "unat ?b + 16 \<le> unat ptr" "unat ptr + unat sz \<le> unat ?b + 4096 * unat ?n"
    using assms(2) by (simp_all add: holds_def d Let_def)
  have sz: "0 < unat sz" using assms(3) by (simp add: unat_gt_0)
  from H(1) obtain B where B: "unat ?b = 4096 * B" by (auto simp: page_aligned_iff elim: dvdE)
  define P where "P = unat ptr div 4096"
  have dn: "unat (align_down ptr 4096) = 4096 * P" using unat_align_down [of ptr 12] by (simp add: P_def)
  have P: "4096 * P \<le> unat ptr" "unat ptr < 4096 * P + 4096" by (simp_all add: P_def)
  have BP: "B \<le> P" "P < B + unat ?n" using H(2,3) B P sz by linarith+
  have "page_of m \<in> {B..<B + unat ?n}"
  proof (cases "align_down ptr 4096 = ptr")
    case True
    then have m': "m = ptr - 4096" using m(1) by (auto simp: uk_get_metadata_def Let_def split: if_splits)
    have "4096 * B + 16 \<le> 4096 * P" using True dn H(2) B by simp
    then have "B + 1 \<le> P" by linarith
    then have ge: "4096 * B + 4096 \<le> unat ptr" using True dn by simp
    then have "unat m = unat ptr - 4096" using m' by (simp add: unat_sub word_le_nat_alt)
    moreover have "unat ptr = 4096 * P" using True dn by simp
    ultimately have "unat m = 4096 * (P - 1)" by (simp add: diff_mult_distrib2)
    then have "page_of m = P - 1" by (simp add: page_of_def)
    then show ?thesis using BP \<open>B + 1 \<le> P\<close> by auto
  next
    case False
    then have "m = align_down ptr 4096" using m(1) by (auto simp: uk_get_metadata_def Let_def split: if_splits)
    with dn BP show ?thesis by (simp add: page_of_def)
  qed
  moreover have "unat ?n \<le> blk ?n" by (rule blk [OF m(2)])
  ultimately have "page_of m \<in> block_of blk h ptr"
    using B by (simp add: block_of_def block_def d page_of_def)
  moreover have "uk_getmallocsize h ptr = Inr (?b + ?n * 4096 - ptr)" by (simp add: uk_getmallocsize_def m(1))
  ultimately show thesis using that m(1) d by blast
qed

text \<open>Growing or shrinking a block keeps its content, up to the smaller of the two sizes.\<close>

lemma realloc_ok:
  assumes inv: "inv (hp_pages h)" and old: "has_block live h ptr" "holds h ptr osz" "osz \<noteq> 0"
    and sz: "sz \<noteq> 0" "unat sz \<le> 2 ^ 62"
  shows "uk_realloc_ifpages palloc pfree ptr sz h = Inr (0, h) \<or>
    (\<exists>new h'. uk_realloc_ifpages palloc pfree ptr sz h = Inr (new, h') \<and> inv (hp_pages h') \<and>
       has_block live h' new \<and> holds h' new sz \<and> block_of blk h' new \<inter> block_of blk h ptr = {} \<and>
       freep (hp_pages h') = freep (hp_pages h) - block_of blk h' new \<union> block_of blk h ptr \<and>
       (\<forall>i. i < sz \<and> i < osz \<longrightarrow> hp_mem h' (new + i) = hp_mem h (ptr + i)))"
proof -
  obtain m where m: "uk_get_metadata ptr = Inr m" "page_of m \<in> block_of blk h ptr" "descriptor h ptr = hp_meta h m"
    "uk_getmallocsize h ptr = Inr (md_base (hp_meta h m) + md_num_pages (hp_meta h m) * 4096 - ptr)"
    by (rule descriptor_page [OF old])
  have ptr: "ptr \<noteq> 0" using old(1) by (simp add: has_block_def)
  have used: "block_of blk h ptr \<inter> freep (hp_pages h) = {}"
    using old(1) live_used unfolding has_block_def block_of_def by blast
  consider "uk_malloc_ifpages palloc sz h = Inr (0, h)" |
    (ok) new h1 where "uk_malloc_ifpages palloc sz h = Inr (new, h1)" "inv (hp_pages h1)" "has_block live h1 new"
      "holds h1 new sz" "block_of blk h1 new \<subseteq> freep (hp_pages h)"
      "freep (hp_pages h1) = freep (hp_pages h) - block_of blk h1 new" "hp_mem h1 = hp_mem h"
      "\<forall>q m. live (hp_pages h) q m \<longrightarrow> live (hp_pages h1) q m"
      "\<forall>a. page_of a \<notin> block_of blk h1 new \<longrightarrow> hp_meta h1 a = hp_meta h a"
    using malloc_ok [OF inv sz] by blast
  then show ?thesis
  proof cases
    case 1
    then show ?thesis using ptr sz(1) by (simp add: uk_realloc_ifpages_def)
  next
    case ok
    let ?n = "md_base (hp_meta h m) + md_num_pages (hp_meta h m) * 4096 - ptr"
    have disj: "block_of blk h1 new \<inter> block_of blk h ptr = {}" using ok(5) used by blast
    then have meta: "hp_meta h1 m = hp_meta h m" using ok(9) m(2) by blast
    have size1: "uk_getmallocsize h1 ptr = Inr ?n" using m(1) meta by (simp add: uk_getmallocsize_def)
    let ?k = "if sz < ?n then sz else ?n"
    let ?h2 = "h1\<lparr>hp_mem := memcpy new ptr ?k (hp_mem h1)\<rparr>"
    have d2: "descriptor ?h2 ptr = descriptor h ptr" using m(1) meta by (simp add: descriptor_def)
    have b2: "block_of blk ?h2 ptr = block_of blk h ptr" by (simp add: block_of_def d2)
    have "has_block live ?h2 ptr" using old(1) ok(8) unfolding has_block_def d2 by auto
    from free_ok [of ?h2 ptr, unfolded b2] this ok(2)
    obtain s' where s': "uk_free_ifpages pfree ptr ?h2 = Inr (?h2\<lparr>hp_pages := s'\<rparr>)" "inv s'"
      "freep s' = freep (hp_pages h1) \<union> block_of blk h ptr"
      "\<forall>q m. live (hp_pages h1) q m \<longrightarrow> block blk q m \<inter> block_of blk h ptr = {} \<longrightarrow> live s' q m" by auto
    let ?h3 = "?h2\<lparr>hp_pages := s'\<rparr>"
    have new0: "new \<noteq> 0" using ok(3) by (simp add: has_block_def)
    have run: "uk_realloc_ifpages palloc pfree ptr sz h = Inr (new, ?h3)"
      using ok(1) ptr sz(1) new0 size1 s'(1) by (simp add: uk_realloc_ifpages_def Let_def)
    have d3: "descriptor ?h3 new = descriptor h1 new" by (rule descriptor_cong) simp
    have blk3: "block_of blk ?h3 new = block_of blk h1 new" by (simp add: block_of_def d3)
    have "has_block live ?h3 new"
      using ok(3) s'(4) disj unfolding has_block_def d3 block_of_def [of blk h1 new] by auto
    moreover have "holds ?h3 new sz" using ok(4) by (simp add: holds_def d3)
    moreover have "i < ?k" if "i < sz" "i < osz" for i
    proof -
      have H: "unat ptr + unat osz \<le> unat (md_base (hp_meta h m)) + 4096 * unat (md_num_pages (hp_meta h m))"
        "unat (md_base (hp_meta h m)) + 4096 * unat (md_num_pages (hp_meta h m)) \<le> 2 ^ 64"
        using old(2) by (simp_all add: holds_def m(3) Let_def)
      moreover have "0 < unat ptr" using ptr by (simp add: unat_gt_0)
      ultimately have "unat osz \<le> unat ?n" by (rule block_rest)
      with that show ?thesis by (auto simp: word_less_nat_alt)
    qed
    then have "\<forall>i. i < sz \<and> i < osz \<longrightarrow> hp_mem ?h3 (new + i) = hp_mem h (ptr + i)"
      using ok(7) by (auto simp: memcpy_def)
    ultimately show ?thesis using run s'(2,3) ok(6) disj blk3 by auto
  qed
qed

end

section \<open>The list of allocators\<close>

fun alloc_chain :: "(u64 \<Rightarrow> u64) \<Rightarrow> u64 \<Rightarrow> u64 list \<Rightarrow> bool" where
  "alloc_chain nxt p [] \<longleftrightarrow> p = 0"
| "alloc_chain nxt p (x # xs) \<longleftrightarrow> p = x \<and> x \<noteq> 0 \<and> alloc_chain nxt (nxt x) xs"

definition allocs :: "alloc_list \<Rightarrow> u64 list \<Rightarrow> bool" where
  "allocs l xs \<longleftrightarrow> alloc_chain (al_next l) (uk_alloc_head l) xs \<and> distinct xs"

lemma alloc_chain_upd: "alloc_chain nxt p xs \<Longrightarrow> x \<notin> set xs \<Longrightarrow> alloc_chain (nxt(x := v)) p xs"
  by (induction xs arbitrary: p) auto

lemma alloc_chain_zero: "alloc_chain nxt p xs \<Longrightarrow> p = 0 \<longleftrightarrow> xs = []"
  by (cases xs) auto

lemma alloc_chain_append:
  "alloc_chain nxt p (xs @ y # ys) \<Longrightarrow> distinct (xs @ y # ys) \<Longrightarrow> alloc_chain nxt' v zs \<Longrightarrow>
     (\<And>x. x \<in> set xs \<Longrightarrow> nxt' x = nxt x) \<Longrightarrow> nxt' y = v \<Longrightarrow> alloc_chain nxt' p (xs @ y # zs)"
  by (induction xs arbitrary: p) auto

lemma alloc_chain_at:
  "alloc_chain nxt p (xs @ y # a # zs) \<Longrightarrow> y \<noteq> 0 \<and> alloc_chain nxt (nxt a) zs"
  by (induction xs arbitrary: p) auto

lemma last_alloc_chain:
  "alloc_chain nxt p (xs @ [x]) \<Longrightarrow> last_alloc nxt p = Some x"
proof (induction xs arbitrary: p)
  case Nil
  then show ?case by (subst last_alloc.simps) simp
next
  case (Cons y ys)
  then have "p = y" "alloc_chain nxt (nxt y) (ys @ [x])" by simp_all
  moreover from this(2) have "nxt y \<noteq> 0" by (cases ys) auto
  ultimately show ?case using Cons.IH by (subst last_alloc.simps) simp
qed

lemma register_appends:
  assumes "allocs l xs" "a \<notin> set xs" "a \<noteq> 0"
  shows "\<exists>l'. uk_alloc_register l a = Some l' \<and> allocs l' (xs @ [a])"
proof (cases xs rule: rev_cases)
  case Nil
  with assms show ?thesis by (simp add: uk_alloc_register_def allocs_def)
next
  case (snoc ys y)
  have ch: "alloc_chain (al_next l) (uk_alloc_head l) (ys @ y # [])" and d: "distinct (ys @ y # [])"
    using assms(1) snoc by (simp_all add: allocs_def)
  have "uk_alloc_head l \<noteq> 0" using alloc_chain_zero [OF ch] by simp
  moreover have "alloc_chain ((al_next l)(y := a, a := 0)) (uk_alloc_head l) (ys @ y # [a])"
    by (rule alloc_chain_append [OF ch d]) (use assms(2,3) snoc d in auto)
  ultimately show ?thesis
    using last_alloc_chain [of "al_next l" "uk_alloc_head l" ys y] ch assms snoc d
    by (auto simp: uk_alloc_register_def allocs_def)
qed

lemma alloc_prev_chain:
  "alloc_chain nxt p (xs @ y # a # zs) \<Longrightarrow> distinct (xs @ y # a # zs) \<Longrightarrow> alloc_prev nxt a p = Some y"
proof (induction xs arbitrary: p)
  case Nil
  then show ?case by (subst alloc_prev.simps) simp
next
  case (Cons x xs)
  then have p: "p = x" "alloc_chain nxt (nxt x) (xs @ y # a # zs)" by simp_all
  then have "nxt x = hd (xs @ y # a # zs)" "nxt x \<noteq> 0" by (cases xs; auto)+
  then have "nxt x \<noteq> a" using Cons.prems(2) by (cases xs) auto
  with p \<open>nxt x \<noteq> 0\<close> Cons show ?case by (subst alloc_prev.simps) simp
qed

text \<open>
  C24: Making a registered allocator the default does not do so: the list keeps its head, and
  the allocator is dropped from the list.
\<close>

theorem set_default_drops_allocator:
  assumes "allocs l (h # ys @ a # zs)"
  shows "\<exists>l'. uk_alloc_set_default l a = Some l' \<and> uk_alloc_get_default l' = h \<and> allocs l' (h # ys @ zs)"
proof -
  let ?n = "al_next l"
  obtain xs y where xs: "h # ys = xs @ [y]" by (metis append_butlast_last_id list.distinct(1))
  have split: "h # ys @ vs = xs @ y # vs" for vs using arg_cong [OF xs, of "\<lambda>us. us @ vs"] by simp
  have ch: "alloc_chain ?n (uk_alloc_head l) (xs @ y # a # zs)" and d: "distinct (xs @ y # a # zs)"
    using assms unfolding allocs_def split by blast+
  have hd: "uk_alloc_head l = h" "h \<noteq> 0" "a \<noteq> h" using assms by (auto simp: allocs_def)
  have y: "y \<noteq> 0" "alloc_chain ?n (?n a) zs" using alloc_chain_at [OF ch] by auto
  let ?n1 = "?n(y := ?n a)"
  have tail: "alloc_chain (?n1(a := ?n1 h)) (?n a) zs"
    using y d by (intro alloc_chain_upd) auto
  have "alloc_chain (?n1(a := ?n1 h)) (uk_alloc_head l) (xs @ y # zs)"
    by (rule alloc_chain_append [OF ch d tail]) (use d in auto)
  then show ?thesis
    using alloc_prev_chain [OF ch d] hd y(1) d
    unfolding uk_alloc_set_default_def uk_alloc_get_default_def allocs_def split Let_def
    by simp
qed

theorem set_default_drops_allocator_witness:
  "let l = \<lparr>uk_alloc_head = 8, al_next = (\<lambda>p. if p = 8 then 16 else if p = 16 then 24 else 0)\<rparr>
   in allocs l [8, 16, 24] \<and>
      (\<exists>l'. uk_alloc_set_default l 24 = Some l' \<and> uk_alloc_get_default l' = 8 \<and> allocs l' [8, 16])"
proof -
  let ?l = "\<lparr>uk_alloc_head = 8, al_next = (\<lambda>p. if p = 8 then 16 else if p = 16 then 24 else 0)\<rparr>"
  have l: "allocs ?l [8, 16, 24]" by (simp add: allocs_def)
  show ?thesis using set_default_drops_allocator [of ?l 8 "[16]" 24 "[]"] l by (simp add: Let_def)
qed

end
