(* ===== verification/Crosscall.thy ===== *)
theory Crosscall
  imports Monitor_Fault Monitor_Load Ukalloc
begin

text \<open>
  Cross-cubicle calls: the wrapper \<^verbatim>\<open>hooked_*\<close> that \<^verbatim>\<open>kernel/fig.py\<close> generates for every
  exported function, with the coroutine switch of \<^verbatim>\<open>kernel/coro.h\<close> and the allocator
  wrappers \<^verbatim>\<open>gen_pre_wrap\<close> and \<^verbatim>\<open>gen_post_wrap\<close>. A call and the matching return
  are two operations on the state, so that calls of the callee's body, faults and window
  updates can happen in between; a step relation puts them together.
\<close>

section \<open>Coroutines\<close>

datatype coro_state_t = CORO_NEW | CORO_RUNNING | CORO_FINISHED

record coro_t =
  co_state :: coro_state_t
  co_yield_value :: u64

text \<open>
  \<^verbatim>\<open>coro_resume\<close> up to the context switch: a new coroutine starts, a finished one is not
  entered. \<^verbatim>\<open>coro_yield\<close> stores the value that \<^verbatim>\<open>coro_resume\<close> returns.
\<close>

definition coro_resume :: "coro_t \<Rightarrow> coro_t option" where
  "coro_resume co =
     (case co_state co of
        CORO_NEW \<Rightarrow> Some (co\<lparr>co_state := CORO_RUNNING\<rparr>)
      | CORO_FINISHED \<Rightarrow> None
      | CORO_RUNNING \<Rightarrow> Some co)"

definition coro_yield :: "coro_t \<Rightarrow> u64 \<Rightarrow> coro_t" where
  "coro_yield co v = co\<lparr>co_yield_value := v\<rparr>"

section \<open>Allocator wrappers\<close>

text \<open>
  \<open>meta\<close> is the memory the wrappers read: the block descriptor at an address. Arguments are
  numbered from 0, so \<open>args ! 1\<close> is \<^verbatim>\<open>arg1\<close>.
\<close>

definition attach_block ::
  "(u64 \<Rightarrow> metadata_ifpages) \<Rightarrow> int \<Rightarrow> u64 \<Rightarrow> u64 \<Rightarrow> mon \<Rightarrow> mon res" where
  "attach_block meta mid tmp fix s =
     bindr (cmp_attach s mid tmp 4096) (\<lambda>s1.
       heap_attach s1 mid (sint (md_base (meta tmp))) ((md_num_pages (meta tmp) - fix) * 4096))"

definition pre_wrap ::
  "string \<Rightarrow> (u64 \<Rightarrow> metadata_ifpages) \<Rightarrow> u64 list \<Rightarrow> int \<Rightarrow> mon \<Rightarrow> mon res" where
  "pre_wrap name meta args callee s =
     (if name = ''uk_free_ifpages'' \<and> args ! 1 \<noteq> 0 then
        attach_block meta callee
          (if args ! 1 AND 0xfff \<noteq> 0 then args ! 1 - sizeof_metadata else args ! 1 - 4096) 0 s
      else if name = ''uk_realloc_ifpages'' \<and> args ! 1 \<noteq> 0 then
        attach_block meta callee (args ! 1 - sizeof_metadata) 0 s
      else Inr s)"

text \<open>
  After the call: \<open>caller\<close> is \<^verbatim>\<open>remap[prev_module[layer-1]]\<close>, \<open>deref\<close> reads a pointer from
  memory and \<open>desc\<close> a memory region descriptor (base and length).
\<close>

definition post_memalign ::
  "(u64 \<Rightarrow> metadata_ifpages) \<Rightarrow> int \<Rightarrow> u64 \<Rightarrow> mon \<Rightarrow> mon res" where
  "post_memalign meta caller tt s =
     (let page_begin = page_base tt
      in if page_begin = tt then attach_block meta caller (page_begin - 4096) 1 s
         else attach_block meta caller page_begin 0 s)"

definition post_realloc ::
  "(u64 \<Rightarrow> metadata_ifpages) \<Rightarrow> int \<Rightarrow> u64 \<Rightarrow> mon \<Rightarrow> mon res" where
  "post_realloc meta caller tmp s =
     bindr (heap_attach s caller (sint tmp) 4096) (\<lambda>s1.
       heap_attach s1 caller (sint (md_base (meta tmp))) (md_num_pages (meta tmp) * 4096))"

definition post_wrap ::
  "string \<Rightarrow> (u64 \<Rightarrow> metadata_ifpages) \<Rightarrow> (u64 \<Rightarrow> u64) \<Rightarrow> (u64 \<Rightarrow> u64 \<times> u64) \<Rightarrow> u64 list \<Rightarrow> int \<Rightarrow>
     u64 \<Rightarrow> mon \<Rightarrow> mon res" where
  "post_wrap name meta deref desc args caller ret s =
     (if name = ''uk_posix_memalign_ifpages'' \<and> ret = 0 then
        post_memalign meta caller (deref (args ! 1)) s
      else if (name = ''uk_malloc_ifpages'' \<or> name = ''uk_calloc_compat'') \<and> ret \<noteq> 0 then
        attach_block meta caller (ret - sizeof_metadata) 0 s
      else if name = ''uk_realloc_ifpages'' \<and> ret \<noteq> 0 then
        post_realloc meta caller (ret - sizeof_metadata) s
      else if name = ''ukplat_memregion_get'' \<and> ret \<noteq> 0xffffffff then
        bindr (cmp_attach s caller (args ! 1) 4096) (\<lambda>s1.
          Inr (setup_heap s1 (fst (desc (args ! 1))) (snd (desc (args ! 1)))))
      else Inr s)"

section \<open>Call and return\<close>

text \<open>
  The frames of the calls that have not returned: a direct call between friends, or a call
  through the wrapper with the values of its local variables \<^verbatim>\<open>callee\<close> and \<^verbatim>\<open>prev\<close>.
\<close>

datatype frame =
    Direct
  | Hooked (fr_name: string) (fr_args: "u64 list") (fr_callee: int) (fr_prev: int)

record sys =
  sy_calls :: calls
  sy_mon :: mon
  sy_coro :: "string \<Rightarrow> coro_t"
  sy_frames :: "frame list"

text \<open>Reading \<^verbatim>\<open>prev_module[i]\<close> and \<^verbatim>\<open>remap[m]\<close>.\<close>

definition prev_at :: "calls \<Rightarrow> nat \<Rightarrow> int res" where
  "prev_at c i = (if i < length (prev_module c) then Inr (prev_module c ! i) else Inl Oob)"

definition remap_at :: "calls \<Rightarrow> int \<Rightarrow> int res" where
  "remap_at c m = (if 0 \<le> m \<and> m < int (length (remap c)) then Inr (remap c ! nat m) else Inl Oob)"

text \<open>Functions whose wrapper returns without calling anything (\<^verbatim>\<open>get_hook\<close>).\<close>

definition stub_hook :: "string \<Rightarrow> bool" where
  "stub_hook name \<longleftrightarrow> name = ''ukplat_lcpu_restore_irqf'' \<or> name = ''ukplat_lcpu_save_irqf''"

text \<open>
  The wrapper up to the first instruction of the callee. Every function has one coroutine and
  one stack; entering it again while it runs would overwrite that stack.
\<close>

definition hooked_call ::
  "build \<Rightarrow> (u64 \<Rightarrow> metadata_ifpages) \<Rightarrow> string \<Rightarrow> int \<Rightarrow> u64 list \<Rightarrow> sys \<Rightarrow> sys res" where
  "hooked_call bld meta name m args y =
     (if stub_hook name then Inr y
      else let c = sy_calls y
      in bindr (prev_at c (layer c)) (\<lambda>cur.
         if friends bld cur m then Inr (y\<lparr>sy_frames := Direct # sy_frames y\<rparr>)
         else if layer c + 1 \<ge> length (prev_module c) then Inl Oob
         else if co_state (sy_coro y name) = CORO_RUNNING then Inl Undef
         else let c1 = c\<lparr>layer := layer c + 1, prev_module := (prev_module c)[layer c + 1 := m]\<rparr>
         in bindr (prev_at c1 (layer c1)) (\<lambda>top.
            bindr (remap_at c1 top) (\<lambda>callee.
            bindr (cmp_unlock (sy_mon y) callee) (\<lambda>s1.
            bindr (pre_wrap name meta args callee s1) (\<lambda>s2.
              case coro_resume ((sy_coro y name)\<lparr>co_state := CORO_NEW\<rparr>) of
                None \<Rightarrow> Inl Undef
              | Some co \<Rightarrow>
                  bindr (prev_at c1 (layer c1 - 1)) (\<lambda>below.
                  bindr (remap_at c1 below) (\<lambda>prev.
                  bindr (cmp_lock s2 prev) (\<lambda>s3.
                    Inr \<lparr>sy_calls = c1, sy_mon = s3, sy_coro = (sy_coro y)(name := co),
                         sy_frames = Hooked name args callee prev # sy_frames y\<rparr>)))))))))"

text \<open>The rest of the wrapper, from the return of the callee.\<close>

definition hooked_return ::
  "(u64 \<Rightarrow> metadata_ifpages) \<Rightarrow> (u64 \<Rightarrow> u64) \<Rightarrow> (u64 \<Rightarrow> u64 \<times> u64) \<Rightarrow> u64 \<Rightarrow> sys \<Rightarrow> sys res" where
  "hooked_return meta deref desc ret y =
     (case sy_frames y of
        [] \<Rightarrow> Inl Undef
      | Direct # fs \<Rightarrow> Inr (y\<lparr>sy_frames := fs\<rparr>)
      | Hooked name args callee prev # fs \<Rightarrow>
          let c = sy_calls y
          in bindr (cmp_unlock (sy_mon y) prev) (\<lambda>s1.
             let co = coro_yield ((sy_coro y name)\<lparr>co_state := CORO_FINISHED\<rparr>) ret
             in bindr (cmp_lock s1 callee) (\<lambda>s2.
                bindr (prev_at c (layer c - 1)) (\<lambda>below.
                bindr (remap_at c below) (\<lambda>caller.
                bindr (post_wrap name meta deref desc args caller (co_yield_value co) s2) (\<lambda>s3.
                  Inr \<lparr>sy_calls = c\<lparr>layer := layer c - 1\<rparr>, sy_mon = s3,
                       sy_coro = (sy_coro y)(name := co), sy_frames = fs\<rparr>))))))"

section \<open>Steps of the running system\<close>

text \<open>
  The module whose code runs is \<^verbatim>\<open>prev_module[layer]\<close>. Wrappers are installed only for isolated
  modules, so the target of a call is one.
\<close>

definition key_at :: "sys \<Rightarrow> int \<Rightarrow> nat" where
  "key_at y m = key_of (sy_mon y) (remap (sy_calls y) ! nat m)"

definition running :: "sys \<Rightarrow> int" where
  "running y = prev_module (sy_calls y) ! layer (sy_calls y)"

definition isolated_mod :: "sys \<Rightarrow> int \<Rightarrow> bool" where
  "isolated_mod y m \<longleftrightarrow> 0 \<le> m \<and> m < int (length (remap (sy_calls y))) \<and>
     valid_mid (sy_mon y) (remap (sy_calls y) ! nat m) \<and>
     pm_must (mod_of (sy_mon y) (remap (sy_calls y) ! nat m))"

inductive sys_step :: "build \<Rightarrow> sys \<Rightarrow> sys \<Rightarrow> bool" for bld where
  call: "hooked_call bld meta name m args y = Inr y' \<Longrightarrow> isolated_mod y m \<Longrightarrow> sys_step bld y y'"
| return: "hooked_return meta deref desc ret y = Inr y' \<Longrightarrow> sys_step bld y y'"
| fault: "deliver_fault (sy_mon y) rip rsp addr = Inr s' \<Longrightarrow> sys_step bld y (y\<lparr>sy_mon := s'\<rparr>)"
| windows: "sys_step bld y (y\<lparr>sy_mon := (sy_mon y)\<lparr>ipc_mem := f\<rparr>\<rparr>)"

inductive_cases sys_stepE: "sys_step bld y y'"

section \<open>What the wrappers leave alone\<close>

text \<open>Attaching pages and setting up the heap change neither the module table nor the rights.\<close>

definition same_rights :: "mon \<Rightarrow> mon \<Rightarrow> bool" where
  "same_rights s s' \<longleftrightarrow> pmap s' = pmap s \<and> pkru_ad (mpk s') = pkru_ad (mpk s)"

lemma same_rights_refl [simp]: "same_rights s s"
  by (simp add: same_rights_def)

lemma same_rights_trans: "same_rights s t \<Longrightarrow> same_rights t u \<Longrightarrow> same_rights s u"
  by (simp add: same_rights_def)

lemma same_rights_attach:
  assumes "cmp_attach s mid start sz = Inr s'"
  shows "same_rights s s'"
proof (cases "sz = 0")
  case True
  with assms show ?thesis by (simp add: cmp_attach_def)
next
  case False
  with assms obtain m where "pkey_mprotect (mpk s) start sz (key_of s mid) = Some m" "s' = s\<lparr>mpk := m\<rparr>"
    by (auto simp: cmp_attach_Inr)
  with pkey_mprotect_SomeD(2) [OF this(1)] show ?thesis by (simp add: same_rights_def)
qed

lemma same_rights_heap_attach:
  assumes "heap_attach s mid start sz = Inr s'"
  shows "same_rights s s'"
proof -
  have loop: "same_rights s t" if "iterr (heap_cfg_write idx mid) js s = Inr t" for idx js t
    using that by (rule iterr_invariant [where P = "same_rights s"])
      (auto simp: heap_cfg_write_def same_rights_def split: if_splits)
  from assms show ?thesis
    by (auto simp: heap_attach_def Let_def res_simps split: if_splits
        dest!: loop same_rights_attach intro: same_rights_trans)
qed

lemma same_rights_setup_heap: "same_rights s (setup_heap s base len)"
  by (simp add: setup_heap_def same_rights_def)

lemmas same_rights_ops = same_rights_attach same_rights_heap_attach same_rights_setup_heap

lemma attach_block_rights: "attach_block meta mid tmp fix s = Inr s' \<Longrightarrow> same_rights s s'"
  by (auto simp: attach_block_def res_simps intro: same_rights_trans [OF same_rights_attach same_rights_heap_attach])

lemma post_memalign_rights: "post_memalign meta mid tt s = Inr s' \<Longrightarrow> same_rights s s'"
  by (auto simp: post_memalign_def Let_def split: if_splits intro: attach_block_rights)

lemma post_realloc_rights: "post_realloc meta mid tmp s = Inr s' \<Longrightarrow> same_rights s s'"
  by (auto simp: post_realloc_def res_simps
      intro: same_rights_trans [OF same_rights_heap_attach same_rights_heap_attach])

lemma pre_wrap_rights: "pre_wrap name meta args callee s = Inr s' \<Longrightarrow> same_rights s s'"
  unfolding pre_wrap_def by (auto split: if_splits intro: attach_block_rights)

lemma post_wrap_rights:
  assumes "post_wrap name meta deref desc args caller ret s = Inr s'"
  shows "same_rights s s'"
proof -
  consider "post_memalign meta caller (deref (args ! 1)) s = Inr s'"
    | "attach_block meta caller (ret - sizeof_metadata) 0 s = Inr s'"
    | "post_realloc meta caller (ret - sizeof_metadata) s = Inr s'"
    | "bindr (cmp_attach s caller (args ! 1) 4096) (\<lambda>s1.
          Inr (setup_heap s1 (fst (desc (args ! 1))) (snd (desc (args ! 1))))) = Inr s'"
    | "Inr s = (Inr s' :: mon res)"
    using assms unfolding post_wrap_def by metis
  then show ?thesis
    by cases (auto simp: res_simps intro: post_memalign_rights attach_block_rights post_realloc_rights
        same_rights_trans [OF same_rights_attach same_rights_setup_heap])
qed


section \<open>The invariant of cross-cubicle calls\<close>

text \<open>
  The frames and the arrays \<^verbatim>\<open>prev_module\<close> and \<^verbatim>\<open>layer\<close> tell the same story.
\<close>

fun frames_ok :: "calls \<Rightarrow> nat \<Rightarrow> frame list \<Rightarrow> bool" where
  "frames_ok c l [] \<longleftrightarrow> l = 0"
| "frames_ok c l (Direct # fs) \<longleftrightarrow> frames_ok c l fs"
| "frames_ok c l (Hooked n a callee prev # fs) \<longleftrightarrow>
     0 < l \<and> callee = remap c ! nat (prev_module c ! l) \<and>
     prev = remap c ! nat (prev_module c ! (l - 1)) \<and> frames_ok c (l - 1) fs"

text \<open>Isolated modules have the same key exactly if they are friends.\<close>

definition keys_by_friends :: "build \<Rightarrow> sys \<Rightarrow> bool" where
  "keys_by_friends bld y \<longleftrightarrow> (\<forall>m. isolated_mod y m \<longrightarrow> 0 < key_at y m) \<and>
     (\<forall>a b. isolated_mod y a \<longrightarrow> isolated_mod y b \<longrightarrow> (key_at y a = key_at y b \<longleftrightarrow> friends bld a b))"

definition only_running_enabled :: "sys \<Rightarrow> bool" where
  "only_running_enabled y \<longleftrightarrow>
     (\<forall>m. isolated_mod y m \<longrightarrow> (pkru_ad (mpk (sy_mon y)) (key_at y m) \<longleftrightarrow> key_at y m \<noteq> key_at y (running y)))"

definition sys_inv :: "build \<Rightarrow> sys \<Rightarrow> bool" where
  "sys_inv bld y \<longleftrightarrow> layer (sy_calls y) < length (prev_module (sy_calls y)) \<and>
     (\<forall>i \<le> layer (sy_calls y). isolated_mod y (prev_module (sy_calls y) ! i)) \<and>
     (\<forall>i < layer (sy_calls y).
        \<not> friends bld (prev_module (sy_calls y) ! i) (prev_module (sy_calls y) ! Suc i)) \<and>
     keys_by_friends bld y \<and> frames_ok (sy_calls y) (layer (sy_calls y)) (sy_frames y) \<and>
     only_running_enabled y"

lemma frames_ok_update:
  "frames_ok c l fs \<Longrightarrow> l < k \<Longrightarrow>
     frames_ok (c\<lparr>layer := n, prev_module := (prev_module c)[k := m]\<rparr>) l fs"
proof (induction fs arbitrary: l)
  case (Cons f fs)
  then show ?case by (cases f) auto
qed simp

lemma frames_ok_layer: "frames_ok (c\<lparr>layer := n\<rparr>) l fs = frames_ok c l fs"
proof (induction fs arbitrary: l)
  case (Cons f fs)
  then show ?case by (cases f) auto
qed simp

text \<open>A call through the wrapper, as a whole.\<close>

lemma prev_at_Inr [res_simps]: "prev_at c i = Inr m \<longleftrightarrow> i < length (prev_module c) \<and> m = prev_module c ! i"
  by (auto simp: prev_at_def)

lemma remap_at_Inr [res_simps]:
  "remap_at c m = Inr i \<longleftrightarrow> 0 \<le> m \<and> m < int (length (remap c)) \<and> i = remap c ! nat m"
  by (auto simp: remap_at_def)

definition entered :: "sys \<Rightarrow> string \<Rightarrow> int \<Rightarrow> u64 list \<Rightarrow> sys \<Rightarrow> bool" where
  "entered y name m args y' \<longleftrightarrow>
     (let c = sy_calls y; callee = remap c ! nat m; prev = remap c ! nat (running y)
      in layer c + 1 < length (prev_module c) \<and>
         sy_calls y' = c\<lparr>layer := layer c + 1, prev_module := (prev_module c)[layer c + 1 := m]\<rparr> \<and>
         pmap (sy_mon y') = pmap (sy_mon y) \<and>
         pkru_ad (mpk (sy_mon y')) =
           (pkru_ad (mpk (sy_mon y)))(key_of (sy_mon y) callee := False, key_of (sy_mon y) prev := True) \<and>
         sy_frames y' = Hooked name args callee prev # sy_frames y)"

lemma hooked_call_Inr:
  assumes "hooked_call bld meta name m args y = Inr y'"
  shows "y' = y \<or>
    friends bld (running y) m \<and> y' = y\<lparr>sy_frames := Direct # sy_frames y\<rparr> \<or>
    \<not> friends bld (running y) m \<and> entered y name m args y'"
proof (cases "stub_hook name \<or> friends bld (running y) m")
  case True
  with assms show ?thesis by (auto simp: hooked_call_def Let_def res_simps running_def split: if_splits)
next
  case False
  let ?c = "sy_calls y"
  let ?c1 = "?c\<lparr>layer := layer ?c + 1, prev_module := (prev_module ?c)[layer ?c + 1 := m]\<rparr>"
  let ?callee = "remap ?c ! nat m" and ?prev = "remap ?c ! nat (running y)"
  from assms False have l: "layer ?c + 1 < length (prev_module ?c)"
    by (auto simp: hooked_call_def Let_def res_simps running_def split: if_splits)
  from assms False l obtain s1 s2 s3 co where
    s1: "cmp_unlock (sy_mon y) ?callee = Inr s1" and
    s2: "pre_wrap name meta args ?callee s1 = Inr s2" and
    s3: "cmp_lock s2 ?prev = Inr s3" and
    y': "y' = \<lparr>sy_calls = ?c1, sy_mon = s3, sy_coro = (sy_coro y)(name := co),
            sy_frames = Hooked name args ?callee ?prev # sy_frames y\<rparr>"
    by (auto simp: hooked_call_def Let_def res_simps running_def split: if_splits option.splits)
  from pre_wrap_rights [OF s2] s1 s3 have "pmap s3 = pmap (sy_mon y)" "pkru_ad (mpk s3) =
      (pkru_ad (mpk (sy_mon y)))(key_of (sy_mon y) ?callee := False, key_of (sy_mon y) ?prev := True)"
    by (auto simp: mon_simps same_rights_def mod_of_def)
  with False l show ?thesis unfolding entered_def Let_def y' by simp
qed

definition left :: "sys \<Rightarrow> int \<Rightarrow> int \<Rightarrow> frame list \<Rightarrow> sys \<Rightarrow> bool" where
  "left y callee prev fs y' \<longleftrightarrow>
     sy_calls y' = (sy_calls y)\<lparr>layer := layer (sy_calls y) - 1\<rparr> \<and> pmap (sy_mon y') = pmap (sy_mon y) \<and>
     pkru_ad (mpk (sy_mon y')) =
       (pkru_ad (mpk (sy_mon y)))(key_of (sy_mon y) prev := False, key_of (sy_mon y) callee := True) \<and>
     sy_frames y' = fs"

lemma hooked_return_Inr:
  assumes "hooked_return meta deref desc ret y = Inr y'"
  shows "(\<exists>fs. sy_frames y = Direct # fs \<and> y' = y\<lparr>sy_frames := fs\<rparr>) \<or>
    (\<exists>name args callee prev fs. sy_frames y = Hooked name args callee prev # fs \<and> left y callee prev fs y')"
proof (cases "sy_frames y")
  case Nil
  with assms show ?thesis by (simp add: hooked_return_def)
next
  case (Cons f fs)
  show ?thesis
  proof (cases f)
    case Direct
    with assms Cons show ?thesis by (simp add: hooked_return_def)
  next
    case (Hooked name args callee prev)
    with assms Cons obtain s1 s2 s3 co caller r where
      s1: "cmp_unlock (sy_mon y) prev = Inr s1" and s2: "cmp_lock s1 callee = Inr s2" and
      s3: "post_wrap name meta deref desc args caller r s2 = Inr s3" and
      y': "y' = \<lparr>sy_calls = (sy_calls y)\<lparr>layer := layer (sy_calls y) - 1\<rparr>, sy_mon = s3,
                 sy_coro = (sy_coro y)(name := co), sy_frames = fs\<rparr>"
      by (auto simp: hooked_return_def Let_def res_simps)
    from post_wrap_rights [OF s3] s1 s2 have "pmap s3 = pmap (sy_mon y)" "pkru_ad (mpk s3) =
        (pkru_ad (mpk (sy_mon y)))(key_of (sy_mon y) prev := False, key_of (sy_mon y) callee := True)"
      by (auto simp: mon_simps same_rights_def mod_of_def)
    then show ?thesis unfolding left_def y' using Cons Hooked by simp
  qed
qed


section \<open>Every step keeps the invariant\<close>

lemma view_cong:
  assumes "remap (sy_calls y') = remap (sy_calls y)" "pmap (sy_mon y') = pmap (sy_mon y)"
  shows "isolated_mod y' = isolated_mod y" "key_at y' = key_at y"
  using assms by (simp_all add: isolated_mod_def key_at_def valid_mid_def mod_of_def fun_eq_iff)

lemma sys_inv_cong:
  assumes "sy_calls y' = sy_calls y" "pmap (sy_mon y') = pmap (sy_mon y)"
    "pkru_ad (mpk (sy_mon y')) = pkru_ad (mpk (sy_mon y))"
    "frames_ok (sy_calls y) (layer (sy_calls y)) (sy_frames y')" "sys_inv bld y"
  shows "sys_inv bld y'"
proof -
  note v = view_cong [OF arg_cong [OF assms(1), of remap] assms(2)]
  show ?thesis
    using assms(4,5) unfolding sys_inv_def keys_by_friends_def only_running_enabled_def running_def
      v assms(1,3) by blast
qed

lemma entered_inv:
  assumes inv: "sys_inv bld y" and m: "isolated_mod y m" "\<not> friends bld (running y) m"
    and ent: "entered y name m args y'"
  shows "sys_inv bld y'"
proof -
  let ?c = "sy_calls y" and ?c' = "sy_calls y'"
  from ent have c': "?c' = ?c\<lparr>layer := layer ?c + 1, prev_module := (prev_module ?c)[layer ?c + 1 := m]\<rparr>"
    and l: "layer ?c + 1 < length (prev_module ?c)" and pm: "pmap (sy_mon y') = pmap (sy_mon y)"
    and pk: "pkru_ad (mpk (sy_mon y')) = (pkru_ad (mpk (sy_mon y)))(key_at y m := False, key_at y (running y) := True)"
    and fr: "sy_frames y' = Hooked name args (remap ?c ! nat m) (remap ?c ! nat (running y)) # sy_frames y"
    by (auto simp: entered_def Let_def key_at_def)
  have r: "remap ?c' = remap ?c" by (simp add: c')
  note v = view_cong [OF r pm]
  have run: "isolated_mod y (running y)" using inv by (auto simp: sys_inv_def running_def)
  have run': "running y' = m" using l by (simp add: running_def c')
  have ne: "key_at y (running y) \<noteq> key_at y m"
    using inv run m by (auto simp: sys_inv_def keys_by_friends_def)
  have old: "prev_module ?c' ! i = prev_module ?c ! i" if "i \<le> layer ?c" for i
    using that by (simp add: c')
  have "isolated_mod y' (prev_module ?c' ! i)" if "i \<le> layer ?c'" for i
  proof (cases "i \<le> layer ?c")
    case True
    with old inv show ?thesis by (simp add: v sys_inv_def)
  next
    case False
    with that have "i = layer ?c'" by (simp add: c')
    with run' m(1) show ?thesis by (simp add: running_def v)
  qed
  moreover have "\<not> friends bld (prev_module ?c' ! i) (prev_module ?c' ! Suc i)" if "i < layer ?c'" for i
  proof (cases "i < layer ?c")
    case True
    with old [of i] old [of "Suc i"] inv show ?thesis by (simp add: sys_inv_def)
  next
    case False
    with that have "i = layer ?c" by (simp add: c')
    with old [of i] m(2) l show ?thesis by (simp add: running_def c')
  qed
  moreover have "keys_by_friends bld y'"
    using inv by (simp add: sys_inv_def keys_by_friends_def v)
  moreover have "frames_ok ?c' (layer ?c') (sy_frames y')"
  proof -
    have "frames_ok ?c' (layer ?c) (sy_frames y)"
      using inv unfolding c' by (intro frames_ok_update) (simp_all add: sys_inv_def)
    then show ?thesis using old [of "layer ?c"] l by (simp add: fr r running_def) (simp add: c')
  qed
  moreover have "only_running_enabled y'"
    using inv ne unfolding only_running_enabled_def v run' pk by (auto simp: sys_inv_def only_running_enabled_def)
  moreover have "layer ?c' < length (prev_module ?c')" using l by (simp add: c')
  ultimately show ?thesis unfolding sys_inv_def by blast
qed

lemma left_inv:
  assumes inv: "sys_inv bld y" and fr: "sy_frames y = Hooked name args callee prev # fs"
    and lft: "left y callee prev fs y'"
  shows "sys_inv bld y'"
proof -
  let ?c = "sy_calls y" and ?c' = "sy_calls y'"
  from inv fr have l: "0 < layer ?c" and fs: "frames_ok ?c (layer ?c - 1) fs"
    and callee: "key_of (sy_mon y) callee = key_at y (running y)"
    and prev: "key_of (sy_mon y) prev = key_at y (prev_module ?c ! (layer ?c - 1))"
    by (auto simp: sys_inv_def key_at_def running_def)
  from lft have c': "?c' = ?c\<lparr>layer := layer ?c - 1\<rparr>" and pm: "pmap (sy_mon y') = pmap (sy_mon y)"
    and pk: "pkru_ad (mpk (sy_mon y')) = (pkru_ad (mpk (sy_mon y)))
        (key_at y (prev_module ?c ! (layer ?c - 1)) := False, key_at y (running y) := True)"
    and fs': "sy_frames y' = fs"
    by (auto simp: left_def callee prev)
  have r: "remap ?c' = remap ?c" by (simp add: c')
  note v = view_cong [OF r pm]
  have run': "running y' = prev_module ?c ! (layer ?c - 1)" by (simp add: running_def c')
  have iso: "isolated_mod y (running y)" "isolated_mod y (running y')"
    using inv unfolding run' by (auto simp: sys_inv_def running_def)
  have nf: "\<forall>i < layer ?c. \<not> friends bld (prev_module ?c ! i) (prev_module ?c ! Suc i)"
    using inv by (simp add: sys_inv_def)
  have "\<not> friends bld (running y') (running y)"
    using nf [rule_format, of "layer ?c - 1"] l unfolding run' by (simp add: running_def)
  then have ne: "key_at y (running y') \<noteq> key_at y (running y)"
    using inv iso by (auto simp: sys_inv_def keys_by_friends_def)
  have "only_running_enabled y'"
    using inv ne unfolding only_running_enabled_def v pk run' [symmetric]
    by (auto simp: sys_inv_def only_running_enabled_def)
  moreover have "frames_ok ?c' (layer ?c') fs" using fs by (simp add: c' frames_ok_layer)
  moreover have "keys_by_friends bld y'"
    using inv by (simp add: sys_inv_def keys_by_friends_def v)
  moreover have "layer ?c' < length (prev_module ?c')"
      "\<forall>i \<le> layer ?c'. isolated_mod y' (prev_module ?c' ! i)"
      "\<forall>i < layer ?c'. \<not> friends bld (prev_module ?c' ! i) (prev_module ?c' ! Suc i)"
    using inv unfolding sys_inv_def v by (auto simp: c')
  ultimately show ?thesis by (simp add: sys_inv_def fs')
qed

lemma deliver_fault_rights:
  assumes "deliver_fault s rip rsp addr = Inr s'"
  shows "same_rights s s'"
proof -
  let ?s0 = "s\<lparr>mpk := (mpk s)\<lparr>pkru_ad := (\<lambda>k. k \<noteq> 0)\<rparr>\<rparr>"
  from deliver_fault_Inr [OF assms] obtain t where t: "sig_handler ?s0 rip rsp addr = Inr t"
    and s': "s' = t\<lparr>mpk := (mpk t)\<lparr>pkru_ad := pkru_ad (mpk s)\<rparr>\<rparr>" by blast
  from sig_handler_static [OF t] have "pmap t = pmap s" by (simp add: static_def)
  then show ?thesis by (simp add: same_rights_def s')
qed

lemma sys_step_inv:
  assumes "sys_step bld y y'" "sys_inv bld y"
  shows "sys_inv bld y'"
  using assms(1)
proof (cases rule: sys_step.cases)
  case (call meta name m args)
  from hooked_call_Inr [OF call(1)] show ?thesis
  proof (elim disjE conjE)
    assume "y' = y\<lparr>sy_frames := Direct # sy_frames y\<rparr>"
    then show ?thesis
      by (intro sys_inv_cong [OF _ _ _ _ assms(2)]) (use assms(2) in \<open>simp_all add: sys_inv_def\<close>)
  next
    assume "\<not> friends bld (running y) m" "entered y name m args y'"
    with assms(2) call(2) show ?thesis by (rule entered_inv)
  qed (simp add: assms(2))
next
  case (return meta deref desc ret)
  from hooked_return_Inr [OF return] show ?thesis
  proof (elim disjE exE conjE)
    fix fs
    assume fs: "sy_frames y = Direct # fs" "y' = y\<lparr>sy_frames := fs\<rparr>"
    then show ?thesis
      by (intro sys_inv_cong [OF _ _ _ _ assms(2)]) (use assms(2) in \<open>simp_all add: sys_inv_def\<close>)
  next
    fix name args callee prev fs
    assume "sy_frames y = Hooked name args callee prev # fs" "left y callee prev fs y'"
    with assms(2) show ?thesis by (rule left_inv)
  qed
next
  case (fault rip rsp addr s')
  from deliver_fault_rights [OF fault(2)]
  have "pmap s' = pmap (sy_mon y)" "pkru_ad (mpk s') = pkru_ad (mpk (sy_mon y))"
    by (simp_all add: same_rights_def)
  then show ?thesis
    unfolding fault(1)
    by (intro sys_inv_cong [OF _ _ _ _ assms(2)]) (use assms(2) in \<open>simp_all add: sys_inv_def\<close>)
next
  case (windows f)
  show ?thesis
    unfolding windows
    by (intro sys_inv_cong [OF _ _ _ _ assms(2)]) (use assms(2) in \<open>simp_all add: sys_inv_def\<close>)
qed


lemma sys_steps_inv: "(sys_step bld)\<^sup>*\<^sup>* y y' \<Longrightarrow> sys_inv bld y \<Longrightarrow> sys_inv bld y'"
  by (induction rule: rtranclp_induct) (auto intro: sys_step_inv)

lemma stranger_page_closed:
  assumes "sys_inv bld y" "isolated_mod y m" "\<not> friends bld (running y) m"
    "page_key (mpk (sy_mon y)) (page_of a) = Some (key_at y m)"
  shows "\<not> accessible (mpk (sy_mon y)) a"
proof -
  have "isolated_mod y (running y)" using assms(1) by (auto simp: sys_inv_def running_def)
  then have "key_at y (running y) \<noteq> key_at y m"
    using assms(1-3) by (auto simp: sys_inv_def keys_by_friends_def)
  then have "pkru_ad (mpk (sy_mon y)) (key_at y m)"
    using assms(1,2) by (auto simp: sys_inv_def only_running_enabled_def)
  with assms(4) show ?thesis by (simp add: accessible_def)
qed

text \<open>The frames determine the depth and, above the bottom, the running module's table index.\<close>

lemma frames_ok_same:
  "frames_ok c l fs \<Longrightarrow> frames_ok c' l' fs \<Longrightarrow>
     l = l' \<and> (0 < l \<longrightarrow> remap c ! nat (prev_module c ! l) = remap c' ! nat (prev_module c' ! l'))"
proof (induction fs arbitrary: l l')
  case (Cons f fs)
  then show ?case by (cases f) fastforce+
qed simp

section \<open>The loader establishes the invariant\<close>

text \<open>Every entry of the module table is empty or belongs to the file its index stands for.\<close>

definition entry_ok :: "nat \<Rightarrow> string \<Rightarrow> bool \<Rightarrow> bool" where
  "entry_ok i n must \<longleftrightarrow> n = [] \<and> \<not> must \<or>
     (if i < E_END then n = modnames ! i else get_id n = - 1) \<and> (must \<longleftrightarrow> n \<in> set must_list)"

definition names_wf :: "mon \<Rightarrow> bool" where
  "names_wf s \<longleftrightarrow> E_END \<le> pmap_max s \<and>
     (\<forall>i < length (pmap s). entry_ok i (pm_name (pmap s ! i)) (pm_must (pmap s ! i)))"

lemma length_modnames [simp]: "length modnames = 26"
  by (simp add: modnames_def)

lemma modnames_distinct: "distinct modnames"
  by (simp add: modnames_def)

lemma get_id_modnames: "i < E_END \<Longrightarrow> get_id (modnames ! i) = int i"
  using name_index_distinct [OF modnames_distinct, of i 0] by (simp add: get_id_def)

lemma modnames_get_id: "get_id n \<noteq> - 1 \<Longrightarrow> modnames ! nat (get_id n) = n"
  using name_index_nth [of 0 modnames n] by (simp add: get_id_def)

lemma fresh_names_wf: "fresh_mon s \<Longrightarrow> names_wf s"
  by (simp add: fresh_mon_def names_wf_def empty_pm_def entry_ok_def)

lemma scan_module_names:
  assumes "scan_module n s = Inr s'" "names_wf s"
  shows "names_wf s'"
proof (cases "n = ''.'' \<or> n = ''..''")
  case True
  with assms show ?thesis by (auto simp: scan_module_def)
next
  case False
  let ?i = "scan_index n s"
  from False scan_module_Inr [OF assms(1)] obtain must k where
    must: "is_must n = Inr must" and i: "?i < length (pmap s)" and
    p: "pmap s' = (pmap s)[?i := scanned n must k (pmap s ! ?i)]" and
    mx: "pmap_max s' = (if get_id n = - 1 then pmap_max s + 1 else pmap_max s)"
    by auto
  have E: "E_END \<le> pmap_max s" using assms(2) by (simp add: names_wf_def)
  have at: "if ?i < E_END then n = modnames ! ?i else get_id n = - 1"
    using E get_id_range [of n] modnames_get_id [of n] by (auto simp: scan_index_def)
  have new: "entry_ok ?i n must"
    using at is_must_iff [OF must] unfolding entry_ok_def by blast
  have "entry_ok j (pm_name (pmap s' ! j)) (pm_must (pmap s' ! j))" if "j < length (pmap s')" for j
    using assms(2) that i new by (cases "j = ?i") (simp_all add: p scanned_def names_wf_def)
  moreover have "E_END \<le> pmap_max s'" using E mx by simp
  ultimately show ?thesis unfolding names_wf_def by blast
qed

lemma scan_modules_names: "scan_modules dir s = Inr s' \<Longrightarrow> names_wf s \<Longrightarrow> names_wf s'"
  unfolding scan_modules_def
  by (erule iterr_invariant [where P = names_wf]) (auto intro: scan_module_names)

lemma names_wf_core: "core s' = core s \<Longrightarrow> names_wf s \<Longrightarrow> names_wf s'"
  using core_eqD [of s' s] by (simp add: names_wf_def)

text \<open>The index of a known module in the table is its number in the enumeration.\<close>

lemma module_index:
  assumes "names_wf s" "m < E_END"
  shows "get_module_id s (Some (modnames ! m)) = - 1 \<or> get_module_id s (Some (modnames ! m)) = int m"
proof (cases "get_module_id s (Some (modnames ! m)) = - 1")
  case False
  let ?ns = "map pm_name (take (pmap_max s) (pmap s))"
  let ?i = "nat (get_module_id s (Some (modnames ! m)))"
  have g: "get_module_id s (Some (modnames ! m)) = name_index 0 ?ns (modnames ! m)"
    by (simp add: get_module_id_def)
  with False name_index_range [of 0 ?ns "modnames ! m"]
  have r: "0 \<le> get_module_id s (Some (modnames ! m))" "?i < length ?ns" by auto
  from name_index_nth [of 0 ?ns "modnames ! m"] False g r have nm: "pm_name (pmap s ! ?i) = modnames ! m"
    by simp
  have "[] \<notin> set modnames" by (simp add: modnames_def)
  moreover have "modnames ! m \<in> set modnames" using assms(2) by simp
  ultimately have "modnames ! m \<noteq> []" by metis
  with assms(1) r(2) nm have "if ?i < E_END then modnames ! m = modnames ! ?i else get_id (modnames ! m) = - 1"
    by (auto simp: names_wf_def entry_ok_def)
  with get_id_modnames [OF assms(2)] have "?i < 26" "modnames ! m = modnames ! ?i"
    by (auto split: if_splits)
  then have "m = ?i"
    using nth_eq_iff_index_eq [OF modnames_distinct, of m ?i] assms(2) by simp
  with r(1) show ?thesis by simp
qed simp

lemma get_module_id_core: "core s' = core s \<Longrightarrow> get_module_id s' = get_module_id s"
proof -
  assume c: "core s' = core s"
  then have "map fst (fst (core s')) = map fst (fst (core s))" by simp
  then have "map pm_name (pmap s') = map pm_name (pmap s)" by (simp add: core_def comp_def)
  then have "map pm_name (take (pmap_max s') (pmap s')) = map pm_name (take (pmap_max s) (pmap s))"
    using core_eqD(2) [OF c] by (simp add: take_map [symmetric])
  then show ?thesis by (simp add: get_module_id_def fun_eq_iff split: option.split)
qed

lemma create_lib_core: "create_lib x (c, s) = Inr (c', s') \<Longrightarrow> core s' = core s"
proof -
  assume "create_lib x (c, s) = Inr (c', s')"
  then obtain rm where "iterr (register_hook rm) (snd x) s = Inr s'"
    by (auto simp: create_lib_def Let_def res_simps)
  then show ?thesis
    by (rule iterr_invariant [where P = "\<lambda>t. core t = core s"]) (auto dest: core_register_hook)
qed

definition remap_ok :: "mon \<Rightarrow> int set \<Rightarrow> calls \<Rightarrow> bool" where
  "remap_ok s M c \<longleftrightarrow> length (remap c) = 26 \<and> length (prev_module c) = 16 \<and> layer c = 0 \<and>
     (\<forall>m \<in> M. 0 \<le> m \<and> m < 26 \<longrightarrow> remap c ! nat m = get_module_id s (Some (modnames ! nat m)))"

lemma module_id_char: "names_wf s \<Longrightarrow> m < 26 \<Longrightarrow>
    to_char (get_module_id s (Some (modnames ! m))) = get_module_id s (Some (modnames ! m))"
  using module_index [of s m] by auto

lemma remap_ok_update:
  assumes "remap_ok s M c" "names_wf s" "0 \<le> m" "m < 26"
  shows "remap_ok s (insert m M) (c\<lparr>remap := (remap c)[nat m := to_char (get_module_id s (Some (modnames ! nat m)))]\<rparr>)"
  using assms module_id_char [OF assms(2), of "nat m"]
  by (auto simp: remap_ok_def nth_list_update nat_less_iff)

lemma create_libs_remap:
  assumes "iterr create_lib libs (calls_init, s) = Inr (c, s')" "names_wf s"
    "\<And>x. x \<in> set libs \<Longrightarrow> 0 \<le> fst x \<and> fst x < 26"
  shows "core s' = core s \<and> remap_ok s (fst ` set libs) c"
  using assms(1,3)
proof (induction libs arbitrary: c s' rule: rev_induct)
  case Nil
  then show ?case by (auto simp: remap_ok_def calls_init_def)
next
  case (snoc x xs)
  then obtain c1 s1 where 1: "iterr create_lib xs (calls_init, s) = Inr (c1, s1)"
    and x: "create_lib x (c1, s1) = Inr (c, s')"
    by (auto simp: iterr_append res_simps)
  from snoc.IH [OF 1] snoc.prems(2) have IH: "core s1 = core s" "remap_ok s (fst ` set xs) c1" by auto
  have c: "c = c1\<lparr>remap := (remap c1)[nat (fst x) := to_char (get_module_id s (Some (modnames ! nat (fst x))))]\<rparr>"
    using x get_module_id_core [OF IH(1)] by (auto simp: create_lib_def Let_def res_simps)
  have "0 \<le> fst x \<and> fst x < 26" using snoc.prems(2) by simp
  with remap_ok_update [OF IH(2) assms(2)] create_lib_core [OF x] IH(1) show ?case by (simp add: c)
qed

lemma create_cubicles_remap:
  assumes "create_cubicles libs s = Inr (c, s')" "names_wf s" "fst ` set libs = {1..25}"
  shows "core s' = core s \<and> remap_ok s {0..25} c \<and> prev_module c ! 0 = E_LINUXUPLAT"
proof -
  from assms(1) obtain c1 where 1: "iterr create_lib libs (calls_init, s) = Inr (c1, s')"
    and c: "c = c1\<lparr>remap := (remap c1)[nat E_APP := to_char (get_module_id s' (Some ''app.so''))],
              prev_module := (prev_module c1)[layer c1 := E_LINUXUPLAT]\<rparr>"
    by (auto simp: create_cubicles_def res_simps)
  have "0 \<le> fst x \<and> fst x < 26" if "x \<in> set libs" for x
  proof -
    from that assms(3) have "fst x \<in> {1..25}" by blast
    then show ?thesis by simp
  qed
  from create_libs_remap [OF 1 assms(2) this] have r: "core s' = core s" "remap_ok s {1..25} c1"
    by (auto simp: assms(3))
  have app: "''app.so'' = modnames ! nat 0" by (simp add: modnames_def)
  have "remap_ok s (insert 0 {1..25}) (c1\<lparr>remap := (remap c1)[nat 0 := to_char (get_module_id s (Some (modnames ! nat 0)))]\<rparr>)"
    by (rule remap_ok_update [OF r(2) assms(2)]) simp_all
  moreover have "insert 0 {1..25} = {0..25 :: int}" by auto
  ultimately show ?thesis
    using r get_module_id_core [OF r(1)] by (auto simp: c app E_APP_def remap_ok_def)
qed


text \<open>Names and isolation flags survive the whole of \<^verbatim>\<open>main\<close>; friend keys change only keys.\<close>

definition names_of :: "mon \<Rightarrow> (string \<times> bool) list \<times> nat" where
  "names_of s = (map (\<lambda>p. (pm_name p, pm_must p)) (pmap s), pmap_max s)"

lemma names_of_core: "core s' = core s \<Longrightarrow> names_of s' = names_of s"
proof -
  assume c: "core s' = core s"
  then have "map (\<lambda>(n, m, k). (n, m)) (fst (core s')) = map (\<lambda>(n, m, k). (n, m)) (fst (core s))" by simp
  with core_eqD(2) [OF c] show ?thesis by (simp add: names_of_def core_def comp_def)
qed

lemma names_of_copy_key: "names_of (copy_key dst src s) = names_of s"
  by (cases "nat dst < length (pmap s)")
    (simp_all add: copy_key_def names_of_def upd_pm_def map_update list_update_same_conv list_update_beyond)

lemma names_of_friend_keys: "names_of (friend_keys bld s) = names_of s"
  by (cases bld) (simp_all add: names_of_copy_key)

lemma names_ofD:
  assumes "names_of s' = names_of s"
  shows "get_module_id s' = get_module_id s" "names_wf s' = names_wf s" "length (pmap s') = length (pmap s)"
    "pmap_max s' = pmap_max s"
proof -
  let ?f = "\<lambda>p. (pm_name p, pm_must p)"
  from assms have m: "map ?f (pmap s') = map ?f (pmap s)" and x: "pmap_max s' = pmap_max s"
    by (simp_all add: names_of_def)
  from m show len: "length (pmap s') = length (pmap s)" using map_eq_imp_length_eq by blast
  show "pmap_max s' = pmap_max s" by fact
  have "map fst (map ?f (pmap s')) = map fst (map ?f (pmap s))" using m by simp
  then have "map pm_name (pmap s') = map pm_name (pmap s)" by (simp add: comp_def)
  then have "map pm_name (take (pmap_max s') (pmap s')) = map pm_name (take (pmap_max s) (pmap s))"
    using x by (simp add: take_map [symmetric])
  then show "get_module_id s' = get_module_id s"
    by (simp add: get_module_id_def fun_eq_iff split: option.split)
  have "pm_name (pmap s' ! i) = pm_name (pmap s ! i) \<and> pm_must (pmap s' ! i) = pm_must (pmap s ! i)"
    if "i < length (pmap s)" for i
    using arg_cong [OF m, of "\<lambda>xs. xs ! i"] that len by simp
  then show "names_wf s' = names_wf s" by (simp add: names_wf_def len x)
qed

lemma loader_calls:
  assumes "loader_main argc bld env s = Inr (c, g, s')" "fresh_mon s" "fst ` set (env_libs env) = {1..25}"
  shows "names_wf s'" "remap_ok s' {0..25} c" "prev_module c ! 0 = E_LINUXUPLAT" "length (pmap s') = 100"
    "valid_mid s' (get_module_id s' (Some ''liblinuxuplat.so''))"
proof -
  from assms(1) obtain s1 s2 s3 s5 s6 s7 where
    s1: "scan_modules (env_dir env) s = Inr s1" and
    s2: "create_cubicles (env_libs env) s1 = Inr (c, s2)" and
    s3: "iterr (parse_module env) [0..<pmap_max s2] s2 = Inr s3" and
    s5: "iterr (protect_module env) [0..<pmap_max (friend_keys bld s3)] (\<lambda>_. [], friend_keys bld s3) = Inr (g, s5)" and
    s6: "iterr lock_module [0..<pmap_max s5] s5 = Inr s6" and
    s7: "gen_memory_map (env_maps2 env) (env_cwd env) s6 = Inr s7" and
    s8: "cmp_unlock s7 (get_module_id s7 (Some ''liblinuxuplat.so'')) = Inr s'"
    unfolding loader_main_def by (auto simp: res_simps Let_def split: if_splits)
  have wf1: "names_wf s1" using s1 fresh_names_wf [OF assms(2)] by (rule scan_modules_names)
  note cc = create_cubicles_remap [OF s2 wf1 assms(3)]
  have "names_of s' = names_of s7" using s8 by (auto simp: mon_simps names_of_def)
  also have "\<dots> = names_of s5"
    using core_gen_memory_map [OF s7] lock_loop [OF s6] by (auto intro!: names_of_core)
  also have "\<dots> = names_of (friend_keys bld s3)" using protect_loop [OF s5] by (auto intro!: names_of_core)
  also have "\<dots> = names_of s1"
    using cc core_parse [OF s3] by (auto simp: names_of_friend_keys intro!: names_of_core)
  finally have n: "names_of s' = names_of s1" .
  note nd = names_ofD [OF n]
  show "names_wf s'" using wf1 by (simp add: nd)
  show "remap_ok s' {0..25} c" using cc by (simp add: remap_ok_def nd)
  show "prev_module c ! 0 = E_LINUXUPLAT" using cc by simp
  show "length (pmap s') = 100"
    using scan_modules_wf [OF s1 fresh_keys_wf [OF assms(2)]] assms(2) by (simp add: nd fresh_mon_def)
  show "valid_mid s' (get_module_id s' (Some ''liblinuxuplat.so''))"
    using s8 by (auto simp: mon_simps get_module_id_def)
qed

definition boot_sys :: "calls \<Rightarrow> mon \<Rightarrow> sys" where
  "boot_sys c s = \<lparr>sy_calls = c, sy_mon = s,
     sy_coro = (\<lambda>_. \<lparr>co_state = CORO_NEW, co_yield_value = 0\<rparr>), sy_frames = []\<rparr>"

lemma linuxuplat_name: "''liblinuxuplat.so'' = modnames ! nat E_LINUXUPLAT"
  by (simp add: modnames_def E_LINUXUPLAT_def)

lemma boot_isolated_mod:
  assumes "names_wf s" "remap_ok s {0..25} c" "length (pmap s) = 100" "isolated_mod (boot_sys c s) m"
  shows "0 \<le> m \<and> m < 26 \<and> remap c ! nat m = m \<and> pm_must (pmap s ! nat m) \<and> nat m < pmap_max s"
proof -
  from assms(2,4) have m: "0 \<le> m" "m < 26" and v: "valid_mid s (remap c ! nat m)"
    and must: "pm_must (mod_of s (remap c ! nat m))"
    and r: "remap c ! nat m = get_module_id s (Some (modnames ! nat m))"
    by (auto simp: isolated_mod_def boot_sys_def remap_ok_def)
  from module_index [OF assms(1), of "nat m"] m v r have "remap c ! nat m = m"
    by (auto simp: valid_mid_def)
  with m must assms(1) show ?thesis by (auto simp: mod_of_def names_wf_def)
qed


lemma loader_sys_inv:
  assumes "loader_main argc bld env s = Inr (c, g, s')" "fresh_mon s" "fst ` set (env_libs env) = {1..25}"
  shows "sys_inv bld (boot_sys c s')"
proof -
  note lc = loader_calls [OF assms] and iso = loader_isolation [OF assms(1,2)]
  let ?y = "boot_sys c s'" and ?p = "get_module_id s' (Some ''liblinuxuplat.so'')"
  note im = boot_isolated_mod [OF lc(1,2,4)]
  have key: "key_at ?y m = pm_pkey (pmap s' ! nat m)" if "isolated_mod ?y m" for m
    using im [OF that] by (simp add: key_at_def boot_sys_def mod_of_def)
  have p: "?p = 19"
    using module_index [OF lc(1), of 19] lc(5) by (auto simp: linuxuplat_name E_LINUXUPLAT_def valid_mid_def)
  have r19: "remap c ! 19 = 19"
    using lc(2) p unfolding remap_ok_def
    by (auto simp: linuxuplat_name E_LINUXUPLAT_def dest!: bspec [where x = 19])
  have nm: "pm_name (pmap s' ! 19) = ''liblinuxuplat.so''"
    using p name_index_nth [of 0 "map pm_name (take (pmap_max s') (pmap s'))" "''liblinuxuplat.so''"]
      name_index_range [of 0 "map pm_name (take (pmap_max s') (pmap s'))" "''liblinuxuplat.so''"]
    by (auto simp: get_module_id_def)
  have "entry_ok 19 (pm_name (pmap s' ! 19)) (pm_must (pmap s' ! 19))"
    using lc(1,4) by (simp add: names_wf_def)
  then have must: "pm_must (pmap s' ! 19)" by (simp add: nm entry_ok_def must_list_def)
  have run: "running ?y = 19" using lc(2,3) by (simp add: running_def boot_sys_def remap_ok_def E_LINUXUPLAT_def)
  have iso19: "isolated_mod ?y 19"
    using lc(2,4) r19 must by (simp add: isolated_mod_def boot_sys_def remap_ok_def valid_mid_def mod_of_def)
  have kp: "key_of s' ?p = key_at ?y 19" using key [OF iso19] by (simp add: p mod_of_def)
  have pos: "0 < key_at ?y m" if "isolated_mod ?y m" for m
    using iso im [OF that] key [OF that] by auto
  moreover have "key_at ?y a = key_at ?y b \<longleftrightarrow> friends bld a b" if "isolated_mod ?y a" "isolated_mod ?y b" for a b
    using iso im [OF that(1)] im [OF that(2)] key [OF that(1)] key [OF that(2)] by auto
  ultimately have "keys_by_friends bld ?y" unfolding keys_by_friends_def by blast
  moreover have "pkru_ad (mpk (sy_mon ?y)) (key_at ?y m) \<longleftrightarrow> key_at ?y m \<noteq> key_at ?y (running ?y)"
    if "isolated_mod ?y m" for m
    using iso im [OF that] key [OF that] unfolding run kp [symmetric] by (auto simp: boot_sys_def)
  then have "only_running_enabled ?y" unfolding only_running_enabled_def by blast
  moreover have "layer (sy_calls ?y) = 0" "length (prev_module (sy_calls ?y)) = 16" "sy_frames ?y = []"
    using lc(2) by (simp_all add: boot_sys_def remap_ok_def)
  ultimately show ?thesis using iso19 run by (simp add: sys_inv_def running_def)
qed


text \<open>No step writes \<^verbatim>\<open>remap\<close> or the bottom of \<^verbatim>\<open>prev_module\<close>.\<close>

definition base_of :: "sys \<Rightarrow> int list \<times> int" where
  "base_of y = (remap (sy_calls y), prev_module (sy_calls y) ! 0)"

lemma call_base: "hooked_call bld meta name m args y = Inr y' \<Longrightarrow> base_of y' = base_of y"
  by (drule hooked_call_Inr) (auto simp: base_of_def entered_def Let_def)

lemma return_base: "hooked_return meta deref desc ret y = Inr y' \<Longrightarrow> base_of y' = base_of y"
  by (drule hooked_return_Inr) (auto simp: base_of_def left_def)

lemma sys_step_base: "sys_step bld y y' \<Longrightarrow> base_of y' = base_of y"
  by (induction rule: sys_step.induct) (auto dest: call_base return_base simp: base_of_def)

lemma sys_steps_base: "(sys_step bld)\<^sup>*\<^sup>* y y' \<Longrightarrow> base_of y' = base_of y"
  by (induction rule: rtranclp_induct) (auto dest: sys_step_base)

text \<open>
  C13 (calls return to the caller): when a call through a wrapper has returned, after any
  number of nested calls, returns, faults and window updates, the call depth is the one before
  the call, the same cubicle runs again, and exactly its key (and its friends') is enabled.
\<close>

theorem call_returns_to_caller:
  assumes "sys_inv bld y" "hooked_call bld meta name m args y = Inr y1" "isolated_mod y m"
    and "(sys_step bld)\<^sup>*\<^sup>* y1 y2" "sy_frames y2 = sy_frames y1" "sy_frames y1 \<noteq> sy_frames y"
    and "hooked_return meta' deref desc ret y2 = Inr y3"
  shows "layer (sy_calls y3) = layer (sy_calls y) \<and> sy_frames y3 = sy_frames y \<and>
     remap (sy_calls y3) ! nat (running y3) = remap (sy_calls y) ! nat (running y) \<and>
     only_running_enabled y3"
proof -
  have inv1: "sys_inv bld y1" using sys_step_inv [OF sys_step.call [OF assms(2,3)] assms(1)] .
  have inv2: "sys_inv bld y2" using sys_steps_inv [OF assms(4) inv1] .
  have inv3: "sys_inv bld y3" using sys_step_inv [OF sys_step.return [OF assms(7)] inv2] .
  have fr: "sy_frames y3 = sy_frames y"
    using hooked_call_Inr [OF assms(2)] hooked_return_Inr [OF assms(7)] assms(5,6)
    by (auto simp: entered_def left_def Let_def)
  then have "frames_ok (sy_calls y3) (layer (sy_calls y3)) (sy_frames y)"
    "frames_ok (sy_calls y) (layer (sy_calls y)) (sy_frames y)"
    using inv3 assms(1) by (simp_all add: sys_inv_def)
  note same = frames_ok_same [OF this]
  have "base_of y3 = base_of y"
    using call_base [OF assms(2)] sys_steps_base [OF assms(4)] return_base [OF assms(7)] by simp
  with same fr inv3 show ?thesis by (auto simp: running_def sys_inv_def base_of_def)
qed

section \<open>A concrete boot\<close>

text \<open>Two modules, one of them mapped on two pages; all pages are mapped.\<close>

lemma iterr_id: "(\<And>i. i \<in> set xs \<Longrightarrow> f i s = Inr s) \<Longrightarrow> iterr f xs s = Inr s"
  by (induction xs) auto

definition ex_fresh :: mon where
  "ex_fresh = \<lparr>pmap = replicate 100 empty_pm, pmap_max = E_END, stacks = [], heap_cfg = (\<lambda>_. 0),
     heap_cfg_len = 0, heap_start = 0, heap_end = 0, mmap_cfg = [], mmap_start = 0, mmap_end = 0,
     mpk = \<lparr>page_key = (\<lambda>_. Some 0), pkeys = [0], pkru_ad = (\<lambda>_. False)\<rparr>,
     ipc_mem = (\<lambda>_. \<lparr>ipc_begin = 0, ipc_size = 0, ipc_mask = 0\<rparr>)\<rparr>"

definition ex_line :: "string \<Rightarrow> u64 \<Rightarrow> u64 \<Rightarrow> int \<Rightarrow> maps_line" where
  "ex_line path st en na = \<lparr>ml_text = path, ml_start = st, ml_end = en, ml_na = na, ml_path = Some path\<rparr>"

definition ex_maps :: "maps_line list" where
  "ex_maps = [ex_line ''[heap]'' 0x1000 0x3000 0, ex_line ''/w/m/libramfs.so'' 0x100000 0x102000 7,
     ex_line ''[stack]'' 0x200000 0x201000 0]"

definition ex_env :: loader_env where
  "ex_env = \<lparr>env_gpath = ''m'', env_cwd = ''/w'', env_dir = [''libramfs.so'', ''liblinuxuplat.so''],
     env_libs = map (\<lambda>i. (i, [])) [1..25], env_maps = ex_maps, env_slots = (\<lambda>_. None),
     env_hooks = [], env_perm = (\<lambda>_. 3), env_mprotect = (\<lambda>_. True), env_fbase = (\<lambda>_. 0),
     env_maps2 = ex_maps, env_app = True, env_plat = True\<rparr>"

definition ex_boot1 :: "u64 \<Rightarrow> u64 \<Rightarrow> mon" where
  "ex_boot1 st sz = ex_fresh\<lparr>
     mpk := \<lparr>page_key = (\<lambda>_. Some 0), pkeys = [2, 1, 0], pkru_ad = (\<lambda>_. False)\<rparr>,
     pmap := (replicate 100 empty_pm)
       [2 := empty_pm\<lparr>pm_name := ''libramfs.so'', pm_must := True, pm_pkey := 1, pm_start := st, pm_size := sz\<rparr>,
        19 := empty_pm\<lparr>pm_name := ''liblinuxuplat.so'', pm_must := True, pm_pkey := 2\<rparr>]\<rparr>"

lemma ex_fresh: "fresh_mon ex_fresh"
  by (simp add: fresh_mon_def ex_fresh_def)

lemma ex_scan1: "scan_module ''libramfs.so'' ex_fresh =
    Inr (ex_fresh\<lparr>pmap := (replicate 100 empty_pm)
       [2 := empty_pm\<lparr>pm_name := ''libramfs.so'', pm_must := True, pm_pkey := 1\<rparr>],
     mpk := \<lparr>page_key = (\<lambda>_. Some 0), pkeys = [1, 0], pkru_ad = (\<lambda>_. False)\<rparr>\<rparr>)"
  by (simp add: scan_module_def get_id_def modnames_def is_must_def must_list_def pm_def
      pkey_alloc_def upd_pm_def ex_fresh_def empty_pm_def upt_rec fun_upd_idem)


lemma ex_scan2: "scan_module ''liblinuxuplat.so'' (ex_fresh\<lparr>pmap := (replicate 100 empty_pm)
       [2 := empty_pm\<lparr>pm_name := ''libramfs.so'', pm_must := True, pm_pkey := 1\<rparr>],
     mpk := \<lparr>page_key = (\<lambda>_. Some 0), pkeys = [1, 0], pkru_ad = (\<lambda>_. False)\<rparr>\<rparr>) = Inr (ex_boot1 0 0)"
  by (simp add: scan_module_def get_id_def modnames_def is_must_def must_list_def pm_def
      pkey_alloc_def upd_pm_def ex_fresh_def ex_boot1_def empty_pm_def upt_rec fun_upd_idem numeral_2_eq_2)

lemma ex_scan: "scan_modules (env_dir ex_env) ex_fresh = Inr (ex_boot1 0 0)"
  by (simp only: scan_modules_def ex_env_def loader_env.simps iterr.simps ex_scan1 ex_scan2 bindr_Inr)

lemma create_empty: "\<exists>c. iterr create_lib (map (\<lambda>i. (i, [])) is) (c0, s) = Inr (c, s)"
  by (induction "is" arbitrary: c0) (simp_all add: create_lib_def)

lemma ex_create: "\<exists>c. create_cubicles (env_libs ex_env) s = Inr (c, s)"
  using create_empty [of "[1..25]" calls_init s] by (auto simp: create_cubicles_def ex_env_def)

lemma ex_boot1_simps [simp]:
  "pmap_max (ex_boot1 st sz) = 26" "length (pmap (ex_boot1 st sz)) = 100"
  "i < 100 \<Longrightarrow> i \<noteq> 2 \<Longrightarrow> i \<noteq> 19 \<Longrightarrow> pmap (ex_boot1 st sz) ! i = empty_pm"
  "pmap (ex_boot1 st sz) ! 2 =
     empty_pm\<lparr>pm_name := ''libramfs.so'', pm_must := True, pm_pkey := 1, pm_start := st, pm_size := sz\<rparr>"
  "pmap (ex_boot1 st sz) ! 19 = empty_pm\<lparr>pm_name := ''liblinuxuplat.so'', pm_must := True, pm_pkey := 2\<rparr>"
  by (simp_all add: ex_boot1_def ex_fresh_def)

lemma upd_pm_same: "i < length (pmap s) \<Longrightarrow> f (pmap s ! i) = pmap s ! i \<Longrightarrow> upd_pm s (int i) f = s"
  by (simp add: upd_pm_def)

lemma ex_parse_other:
  assumes "i < 100" "i \<noteq> 2"
  shows "parse_module ex_env i (ex_boot1 st sz) = Inr (ex_boot1 st sz)"
proof -
  have "pm_name (pmap (ex_boot1 st sz) ! i) \<noteq> ''libramfs.so''"
    using assms by (cases "i = 19") (simp_all add: empty_pm_def)
  then have "parse_proc (env_maps ex_env) (env_gpath ex_env) (env_cwd ex_env) (pm_name (pmap (ex_boot1 st sz) ! i)) old = Inr old" for old
    by (simp add: parse_proc_def ex_env_def ex_maps_def ex_line_def module_path_def next_path_def)
  with assms show ?thesis by (simp add: parse_module_def pm_def upd_pm_same)
qed

lemma ex_parse_2: "parse_module ex_env 2 (ex_boot1 0 0) = Inr (ex_boot1 0x100000 0x2000)"
proof -
  have "parse_proc (env_maps ex_env) (env_gpath ex_env) (env_cwd ex_env) ''libramfs.so'' old = Inr (0x100000, 0x2000)" for old
    by (simp add: parse_proc_def ex_env_def ex_maps_def ex_line_def module_path_def next_path_def anon_end_def Let_def)
  then show ?thesis
    by (simp add: parse_module_def pm_def upd_pm_def)
      (simp add: ex_boot1_def ex_fresh_def list_update_swap [of 19 2])
qed

lemma upt_split_2: "[0..<26] = [0..<2] @ [2] @ [3..<26 :: nat]"
  by (simp add: upt_rec)

lemma iterr_upt_id:
  "(\<And>i. a \<le> i \<Longrightarrow> i < b \<Longrightarrow> f i s = Inr s) \<Longrightarrow> iterr f [a..<b] s = Inr s"
  by (rule iterr_id) simp

lemma ex_parse: "iterr (parse_module ex_env) [0..<26] (ex_boot1 0 0) = Inr (ex_boot1 0x100000 0x2000)"
proof -
  have "iterr (parse_module ex_env) [0..<2] (ex_boot1 0 0) = Inr (ex_boot1 0 0)"
    by (rule iterr_upt_id) (rule ex_parse_other, simp_all)
  moreover have "iterr (parse_module ex_env) [3..<26] (ex_boot1 0x100000 0x2000) = Inr (ex_boot1 0x100000 0x2000)"
    by (rule iterr_upt_id) (rule ex_parse_other, simp_all)
  ultimately show ?thesis unfolding upt_split_2 by (simp only: iterr_append ex_parse_2 iterr.simps bindr_Inr)
qed

text \<open>Protection of the mapped module.\<close>

definition ex_boot2 :: mon where
  "ex_boot2 = (ex_boot1 0x100000 0x2000)\<lparr>mpk :=
     \<lparr>page_key = (\<lambda>p. if in_pages 0x100000 0x2000 p then Some 1 else Some 0), pkeys = [2, 1, 0],
      pkru_ad = (\<lambda>_. False)\<rparr>\<rparr>"

lemma ex_protect_other:
  assumes "i < 100" "i \<noteq> 2" "pmap s = pmap (ex_boot1 st sz)"
  shows "protect_module ex_env i (g, s) = Inr (g, s)"
proof -
  have "pm_size (pmap (ex_boot1 st sz) ! i) = 0"
    using assms by (cases "i = 19") (simp_all add: empty_pm_def)
  with assms show ?thesis by (simp add: protect_module_def pm_def)
qed

lemma ex_protect_2:
  "protect_module ex_env 2 (g, ex_boot1 0x100000 0x2000) = Inr (g(2 := []), ex_boot2)"
proof -
  have "pages_of_len 0x2000 = 2" "page_of 0x100000 = 256" "page_aligned 0x100000"
    by (simp_all add: pages_of_len_def page_of_def page_aligned_iff)
  then have "pkey_mprotect (mpk (ex_boot1 0x100000 0x2000)) 0x100000 0x2000 1 = Some (mpk ex_boot2)"
    by (simp add: pkey_mprotect_def ex_boot1_def ex_boot2_def list_all_iff fun_eq_iff)
  then show ?thesis
    by (simp add: protect_module_def pm_def patch_plt_def ex_env_def prot_init_def)
      (simp add: ex_boot2_def)
qed

lemma ex_protect:
  "\<exists>g. iterr (protect_module ex_env) [0..<26] (\<lambda>_. [], ex_boot1 0x100000 0x2000) = Inr (g, ex_boot2)"
proof -
  let ?g = "(\<lambda>_ :: int. [] :: plt_slot list)"
  have "iterr (protect_module ex_env) [0..<2] (?g, ex_boot1 0x100000 0x2000) = Inr (?g, ex_boot1 0x100000 0x2000)"
    by (rule iterr_upt_id) (rule ex_protect_other, simp_all)
  moreover have "iterr (protect_module ex_env) [3..<26] (?g(2 := []), ex_boot2) = Inr (?g(2 := []), ex_boot2)"
    by (rule iterr_upt_id) (rule ex_protect_other, simp_all add: ex_boot2_def)
  ultimately show ?thesis unfolding upt_split_2 by (simp only: iterr_append ex_protect_2 iterr.simps bindr_Inr) blast
qed


lemma lock_loop_ok:
  assumes "n \<le> length (pmap s)"
    "\<And>i. i < n \<Longrightarrow> pm_must (pmap s ! i) \<Longrightarrow> 0 < pm_pkey (pmap s ! i) \<and> pm_pkey (pmap s ! i) < 16"
  shows "\<exists>s'. iterr lock_module [0..<n] s = Inr s'"
  using assms
proof (induction n)
  case (Suc n)
  then obtain t where t: "iterr lock_module [0..<n] s = Inr t" by auto
  from lock_loop [OF t] have p: "pmap t = pmap s" by simp
  have v: "valid_mid t (int n)" using Suc.prems(1) by (simp add: valid_mid_def p)
  have "\<exists>u. lock_module n t = Inr u"
  proof (cases "pm_must (pmap s ! n)")
    case True
    with Suc.prems(2) [of n] v have "\<exists>u. cmp_lock t (int n) = Inr u"
      by (auto simp: mon_simps mod_of_def p)
    with True v show ?thesis by (simp add: lock_module_def pm_valid mod_of_def p)
  next
    case False
    with v show ?thesis by (simp add: lock_module_def pm_valid mod_of_def p)
  qed
  with t show ?case by (auto simp: iterr_append)
qed simp

lemma ex_map: "\<exists>s'. gen_memory_map (env_maps2 ex_env) (env_cwd ex_env) s = Inr s'"
  by (simp add: gen_memory_map_def ex_env_def ex_maps_def ex_line_def last_line_def fill_mmap_def upt_rec)

lemma ex_names: "names_of (ex_boot1 st sz) = names_of (ex_boot1 0 0)"
  by (simp add: names_of_def map_update ex_boot1_def)

lemma ex_module_id:
  assumes "names_of s = names_of (ex_boot1 0 0)" "m \<in> {2, 19}"
  shows "get_module_id s (Some (modnames ! m)) = int m"
proof -
  have wf: "names_wf (ex_boot1 0 0)" by (rule scan_modules_names [OF ex_scan fresh_names_wf [OF ex_fresh]])
  let ?ns = "map pm_name (take 26 (pmap (ex_boot1 0 0)))"
  have "?ns ! m = modnames ! m" "m < length ?ns" using assms(2) by (auto simp: modnames_def)
  then have "modnames ! m \<in> set ?ns" by (metis nth_mem)
  then have "name_index 0 ?ns (modnames ! m) \<noteq> - 1" by (simp only: name_index_minus1) simp
  then have "get_module_id (ex_boot1 0 0) (Some (modnames ! m)) \<noteq> - 1"
    by (simp add: get_module_id_def)
  with module_index [OF wf, of m] assms show ?thesis by (auto simp: names_ofD(1) [OF assms(1)])
qed

lemma ex_boot:
  "\<exists>c g s'. loader_main 2 Default ex_env ex_fresh = Inr (c, g, s') \<and>
     pmap s' = pmap (ex_boot1 0x100000 0x2000) \<and> pmap_max s' = 26 \<and> page_key (mpk s') = page_key (mpk ex_boot2)"
proof -
  let ?b = "ex_boot1 0x100000 0x2000"
  obtain c where c: "create_cubicles (env_libs ex_env) (ex_boot1 0 0) = Inr (c, ex_boot1 0 0)" using ex_create by blast
  obtain g where g: "iterr (protect_module ex_env) [0..<26] (\<lambda>_. [], ?b) = Inr (g, ex_boot2)" using ex_protect by blast
  have p2: "pmap ex_boot2 = pmap ?b" "pmap_max ex_boot2 = 26" by (simp_all add: ex_boot2_def)
  have "0 < pm_pkey (pmap ex_boot2 ! i) \<and> pm_pkey (pmap ex_boot2 ! i) < 16" if "i < 26" "pm_must (pmap ex_boot2 ! i)" for i
    using that by (cases "i = 2"; cases "i = 19") (simp_all add: p2 empty_pm_def)
  then obtain s6 where s6: "iterr lock_module [0..<26] ex_boot2 = Inr s6"
    using lock_loop_ok [of 26 ex_boot2] p2 by auto
  obtain s7 where s7: "gen_memory_map (env_maps2 ex_env) (env_cwd ex_env) s6 = Inr s7" using ex_map by blast
  have p7: "pmap s7 = pmap ?b" "pmap_max s7 = 26" "mpk s7 = mpk s6"
    using lock_loop [OF s6] core_gen_memory_map [OF s7] p2 by (auto simp: core_def)
  then have id: "get_module_id s7 (Some ''liblinuxuplat.so'') = 19"
    using ex_module_id [of s7 19] ex_names [of "0x100000" "0x2000"]
    by (simp add: linuxuplat_name E_LINUXUPLAT_def names_of_def)
  then obtain s8 where s8: "cmp_unlock s7 19 = Inr s8"
    using p7 by (auto simp: mon_simps valid_mid_def mod_of_def)
  have "loader_main 2 Default ex_env ex_fresh = Inr (c, g, s8)"
    by (simp add: loader_main_def ex_scan c ex_parse g p2 s6 s7 id s8) (simp add: ex_env_def)
  moreover have "pmap s8 = pmap ?b" "pmap_max s8 = 26" "page_key (mpk s8) = page_key (mpk ex_boot2)"
    using s8 p7 lock_loop [OF s6] by (auto simp: mon_simps)
  ultimately show ?thesis by blast
qed



theorem scan_modules_gives_own_keys_witness:
  "\<exists>s'. scan_modules [''libramfs.so'', ''liblinuxuplat.so''] ex_fresh = Inr s' \<and>
     pm_pkey (pmap s' ! 2) \<noteq> pm_pkey (pmap s' ! 19) \<and> pm_name (pmap s' ! 2) = ''libramfs.so''"
proof -
  have sc: "scan_modules [''libramfs.so'', ''liblinuxuplat.so''] ex_fresh = Inr (ex_boot1 0 0)"
    using ex_scan by (simp add: ex_env_def)
  note own = scan_modules_gives_own_keys [OF this ex_fresh]
  have "get_id ''libramfs.so'' = 2" by (simp add: get_id_def modnames_def)
  with own have "pm_name (pmap (ex_boot1 0 0) ! 2) = ''libramfs.so''" by auto
  moreover from own have "pm_pkey (pmap (ex_boot1 0 0) ! 2) \<noteq> pm_pkey (pmap (ex_boot1 0 0) ! 19)" by auto
  ultimately show ?thesis using sc by blast
qed

theorem memory_map_is_faithful_witness:
  "\<exists>s'. gen_memory_map ex_maps ''/w'' (ex_boot1 0x100000 0x2000) = Inr s' \<and> in_mmap s' 0x100008 \<and>
     mem_to_lib_id s' 0x100008 = 2 \<and> stack_to_lib_id s' 0x100008 = - 1"
proof -
  let ?b = "ex_boot1 0x100000 0x2000"
  obtain s' where s': "gen_memory_map ex_maps ''/w'' ?b = Inr s'"
    using ex_map [of ?b] by (auto simp: ex_env_def)
  then have m: "in_mmap s' 0x100008"
    by (simp add: gen_memory_map_def ex_maps_def ex_line_def last_line_def fill_mmap_def upt_rec)
      (auto simp: in_mmap_def)
  have "page_aligned (pm_start p) \<and> page_aligned (pm_size p)" if "p \<in> set (pmap ?b)" for p
  proof -
    from that obtain i where i: "i < 100" "p = pmap ?b ! i" by (auto simp: in_set_conv_nth)
    show ?thesis by (cases "i = 2"; cases "i = 19") (simp_all add: i empty_pm_def page_aligned_iff)
  qed
  then have gran: "page_granular ?b" by (simp add: page_granular_def) (simp add: ex_boot1_def ex_fresh_def)
  have lines: "\<forall>l \<in> set ex_maps. page_aligned (ml_start l) \<and> 0 \<le> sint (ml_start l)"
    by (simp add: ex_maps_def ex_line_def page_aligned_iff)
  have "find (\<lambda>p. covers (pm_start p) (pm_size p) 0x100008) (pmap ?b) = Some (pmap ?b ! 2)"
    unfolding find_Some_iff
  proof (intro exI [of _ 2] conjI allI impI)
    fix j :: nat
    assume "j < 2"
    then show "\<not> covers (pm_start (pmap ?b ! j)) (pm_size (pmap ?b ! j)) 0x100008"
      by (simp add: empty_pm_def covers_def)
  qed (simp_all add: covers_def)
  then have "mem_to_lib ?b 0x100008 = Some (modnames ! 2)" by (simp add: mem_to_lib_def modnames_def)
  then have "get_module_id ?b (mem_to_lib ?b 0x100008) = 2"
    using ex_module_id [of ?b 2] ex_names [of "0x100000" "0x2000"] by simp
  with memory_map_is_faithful [OF s' gran lines m] s' m show ?thesis by simp
qed


lemma ex_sys:
  "\<exists>c g s'. loader_main 2 Default ex_env ex_fresh = Inr (c, g, s') \<and>
     pmap s' = pmap (ex_boot1 0x100000 0x2000) \<and> page_key (mpk s') 256 = Some 1 \<and>
     remap c ! 2 = 2 \<and> remap c ! 19 = 19 \<and> length (remap c) = 26 \<and> length (prev_module c) = 16 \<and>
     layer c = 0 \<and> prev_module c ! 0 = 19"
proof -
  from ex_boot obtain c g s' where b: "loader_main 2 Default ex_env ex_fresh = Inr (c, g, s')"
    and p: "pmap s' = pmap (ex_boot1 0x100000 0x2000)" "pmap_max s' = 26"
    and k: "page_key (mpk s') = page_key (mpk ex_boot2)" by blast
  have "set (map fst (env_libs ex_env)) = {1..25}" by (simp add: ex_env_def comp_def)
  then have "fst ` set (env_libs ex_env) = {1..25}" by simp
  note lc = loader_calls [OF b ex_fresh this]
  have n: "names_of s' = names_of (ex_boot1 0 0)"
    using p ex_names [of "0x100000" "0x2000"] by (simp add: names_of_def)
  have "remap c ! nat m = get_module_id s' (Some (modnames ! nat m))" if "m \<in> {0..25}" for m
    using lc(2) that by (simp add: remap_ok_def)
  from this [of 2] this [of 19] have "remap c ! 2 = 2" "remap c ! 19 = 19"
    using ex_module_id [OF n, of 2] ex_module_id [OF n, of 19] by simp_all
  with b p k lc(2,3) show ?thesis
    by (auto simp: remap_ok_def E_LINUXUPLAT_def ex_boot2_def in_pages_def page_of_def pages_of_len_def)
qed


theorem call_returns_to_caller_witness:
  "\<exists>y y1 y3. hooked_call Default (\<lambda>_. undefined) ''ramfs_init'' 2 [] y = Inr y1 \<and> sy_frames y1 \<noteq> sy_frames y \<and>
     hooked_return (\<lambda>_. undefined) (\<lambda>_. 0) (\<lambda>_. (0, 0)) 7 y1 = Inr y3 \<and>
     layer (sy_calls y3) = 0 \<and> only_running_enabled y3"
proof -
  from ex_sys obtain c g s' where b: "loader_main 2 Default ex_env ex_fresh = Inr (c, g, s')"
    and p: "pmap s' = pmap (ex_boot1 0x100000 0x2000)"
    and c: "remap c ! 2 = 2" "remap c ! 19 = 19" "length (remap c) = 26" "length (prev_module c) = 16" "layer c = 0"
      "prev_module c ! 0 = 19" by blast
  let ?y = "boot_sys c s'"
  have "set (map fst (env_libs ex_env)) = {1..25}" by (simp add: ex_env_def comp_def)
  then have libs: "fst ` set (env_libs ex_env) = {1..25}" by simp
  have inv: "sys_inv Default ?y" by (rule loader_sys_inv [OF b ex_fresh libs])
  have iso: "isolated_mod ?y 2"
    by (simp add: isolated_mod_def boot_sys_def c p valid_mid_def mod_of_def)
  have pm: "pm s' 2 = Inr (pmap s' ! 2)" "pm s' 19 = Inr (pmap s' ! 19)" by (simp_all add: pm_def p)
  have "\<exists>y1. hooked_call Default (\<lambda>_. undefined) ''ramfs_init'' 2 [] ?y = Inr y1 \<and> sy_frames y1 \<noteq> sy_frames ?y"
    by (simp add: hooked_call_def boot_sys_def stub_hook_def prev_at_def remap_at_def c friends_iff
        pre_wrap_def coro_resume_def cmp_unlock_def cmp_lock_def pm p pkey_set_def) (simp add: pm_def p pkey_set_def)
  then obtain y1 where y1: "hooked_call Default (\<lambda>_. undefined) ''ramfs_init'' 2 [] ?y = Inr y1"
    "sy_frames y1 \<noteq> sy_frames ?y" by blast
  have "entered ?y ''ramfs_init'' 2 [] y1"
    using hooked_call_Inr [OF y1(1)] y1(2) by (auto simp: running_def boot_sys_def c friends_iff)
  then have e: "sy_frames y1 = [Hooked ''ramfs_init'' [] 2 19]" "pmap (sy_mon y1) = pmap s'"
    "sy_calls y1 = c\<lparr>layer := 1, prev_module := (prev_module c)[1 := 2]\<rparr>"
    by (simp_all add: entered_def Let_def boot_sys_def running_def c)
  have "pm (sy_mon y1) i = pm s' i" for i by (simp add: pm_def e)
  moreover have "pm (sy_mon y1\<lparr>mpk := m\<rparr>) i = pm s' i" for i m by (simp add: pm_def e)
  ultimately have "\<exists>y3. hooked_return (\<lambda>_. undefined) (\<lambda>_. 0) (\<lambda>_. (0, 0)) 7 y1 = Inr y3"
    by (simp add: hooked_return_def e prev_at_def remap_at_def c post_wrap_def cmp_unlock_def cmp_lock_def
        pm p pkey_set_def)
  then obtain y3 where y3: "hooked_return (\<lambda>_. undefined) (\<lambda>_. 0) (\<lambda>_. (0, 0)) 7 y1 = Inr y3" by blast
  have "layer (sy_calls y3) = layer (sy_calls ?y) \<and> only_running_enabled y3"
    using call_returns_to_caller [OF inv y1(1) iso rtranclp.rtrancl_refl refl y1(2) y3] by simp
  with y1 y3 c show ?thesis by (intro exI [of _ ?y] exI [of _ y1] exI [of _ y3]) (simp add: boot_sys_def)
qed

definition ex_slot :: plt_slot where
  "ex_slot = \<lparr>sl_addr = 0x9000, sl_target = 0x100040, sl_name = ''ramfs_init''\<rparr>"

definition ex_hooks :: loader_env where
  "ex_hooks = ex_env\<lparr>env_slots := (\<lambda>_. Some [ex_slot]),
     env_hooks := [(''ramfs_init'', ''libramfs.so'', 0x7000)]\<rparr>"

lemma ex_find: "a \<in> {0x100008, 0x100040} \<Longrightarrow>
    mem_to_lib (ex_boot1 0x100000 0x2000) a = Some ''libramfs.so''"
proof -
  let ?b = "ex_boot1 0x100000 0x2000"
  assume a: "a \<in> {0x100008, 0x100040}"
  have "find (\<lambda>p. covers (pm_start p) (pm_size p) a) (pmap ?b) = Some (pmap ?b ! 2)"
    unfolding find_Some_iff
  proof (intro exI [of _ 2] conjI allI impI)
    fix j :: nat
    assume "j < 2"
    then show "\<not> covers (pm_start (pmap ?b ! j)) (pm_size (pmap ?b ! j)) a"
      by (simp add: empty_pm_def covers_def)
  qed (use a in \<open>auto simp: covers_def\<close>)
  then show ?thesis by (simp add: mem_to_lib_def)
qed


end
