(* ===== verification/Bbuddy.thy ===== *)
theory Bbuddy
  imports Prelude "HOL-Library.Multiset"
begin

text \<open>
  The binary buddy page allocator (\<^verbatim>\<open>lib/ukallocbbuddy/bbuddy.c\<close>). Addresses are natural
  numbers: every sum the code forms on them stays below \<open>2 ^ 64\<close> or is written with its
  wrap-around. The doubly linked free lists are lists of chunk addresses, first element
  first; unlinking a chunk removes it from its list. \<open>bb_level\<close> is the memory word
  \<^verbatim>\<open>level\<close> at a chunk's address, whoever wrote it last. Chunk tails are written and
  never read, and are left out.
\<close>

named_theorems bb_simps \<open>fields of the allocator after an update\<close>

section \<open>Data\<close>

definition PAGE_SHIFT :: nat where "PAGE_SHIFT = 12"

definition PAGE_SIZE :: nat where "PAGE_SIZE = 4096"

definition FREELIST_SIZE :: nat where "FREELIST_SIZE = 52"

definition PAGES_PER_MAPWORD :: nat where "PAGES_PER_MAPWORD = 64"

record uk_bbpalloc_memr =
  first_page :: nat
  nr_pages :: nat
  mm_alloc_bitmap_size :: nat
  mm_alloc_bitmap :: "nat \<Rightarrow> u64"

record uk_bbpalloc =
  nr_free_pages :: u64
  free_head :: "nat list list"
  bb_level :: "nat \<Rightarrow> nat"
  memrs :: "uk_bbpalloc_memr list"

section \<open>Allocation bitmap\<close>

definition memr_end :: "uk_bbpalloc_memr \<Rightarrow> nat" where
  "memr_end m = first_page m + nr_pages m * 4096"

text \<open>The index of the region that holds an address.\<close>

fun map_get_memr :: "uk_bbpalloc_memr list \<Rightarrow> nat \<Rightarrow> nat option" where
  "map_get_memr [] page_va = None"
| "map_get_memr (m # ms) page_va =
     (if page_va \<ge> first_page m \<and> page_va < memr_end m then Some 0
      else map_option Suc (map_get_memr ms page_va))"

definition map_bit :: "(nat \<Rightarrow> u64) \<Rightarrow> nat \<Rightarrow> bool" where
  "map_bit bm page_idx = bit (bm (page_idx div PAGES_PER_MAPWORD)) (page_idx mod PAGES_PER_MAPWORD)"

definition allocated_in_map :: "uk_bbpalloc \<Rightarrow> nat \<Rightarrow> bool" where
  "allocated_in_map b page_va =
     (case map_get_memr (memrs b) page_va of
        None \<Rightarrow> True
      | Some k \<Rightarrow> let m = memrs b ! k
                  in map_bit (mm_alloc_bitmap m) ((page_va - first_page m) div PAGE_SIZE))"

definition set_bits :: "(nat \<Rightarrow> u64) \<Rightarrow> nat \<Rightarrow> nat \<Rightarrow> (nat \<Rightarrow> u64)" where
  "set_bits bm first_page_idx n =
     (let curr_idx = first_page_idx div PAGES_PER_MAPWORD;
          start_off = first_page_idx mod PAGES_PER_MAPWORD;
          end_page_idx = first_page_idx + n;
          end_idx = end_page_idx div PAGES_PER_MAPWORD;
          end_off = end_page_idx mod PAGES_PER_MAPWORD
      in if curr_idx = end_idx
         then bm(curr_idx := bm curr_idx OR ((push_bit end_off 1 - 1) AND - push_bit start_off 1))
         else let bm1 = bm(curr_idx := bm curr_idx OR - push_bit start_off 1);
                  bm2 = fold (\<lambda>i f. f(i := - 1)) [curr_idx + 1..<end_idx] bm1
              in bm2(end_idx := bm2 end_idx OR (push_bit end_off 1 - 1)))"

definition clear_bits :: "(nat \<Rightarrow> u64) \<Rightarrow> nat \<Rightarrow> nat \<Rightarrow> (nat \<Rightarrow> u64)" where
  "clear_bits bm first_page_idx n =
     (let curr_idx = first_page_idx div PAGES_PER_MAPWORD;
          start_off = first_page_idx mod PAGES_PER_MAPWORD;
          end_page_idx = first_page_idx + n;
          end_idx = end_page_idx div PAGES_PER_MAPWORD;
          end_off = end_page_idx mod PAGES_PER_MAPWORD
      in if curr_idx = end_idx
         then bm(curr_idx := bm curr_idx AND (- push_bit end_off 1 OR (push_bit start_off 1 - 1)))
         else let bm1 = bm(curr_idx := bm curr_idx AND (push_bit start_off 1 - 1));
                  bm2 = fold (\<lambda>i f. f(i := 0)) [curr_idx + 1..<end_idx] bm1
              in bm2(end_idx := bm2 end_idx AND - push_bit end_off 1))"

text \<open>
  \<^verbatim>\<open>map_alloc\<close> and \<^verbatim>\<open>map_free\<close>: the assertions that the range lies in one region, the
  update of its bitmap, and the page counter.
\<close>

definition map_update ::
  "((nat \<Rightarrow> u64) \<Rightarrow> nat \<Rightarrow> nat \<Rightarrow> (nat \<Rightarrow> u64)) \<Rightarrow> uk_bbpalloc \<Rightarrow> nat \<Rightarrow> nat \<Rightarrow> uk_bbpalloc res" where
  "map_update f b first n =
     (case map_get_memr (memrs b) first of
        None \<Rightarrow> Inl Assert
      | Some k \<Rightarrow>
          let m = memrs b ! k
          in if first + n * PAGE_SIZE \<le> memr_end m
             then Inr (b\<lparr>memrs := (memrs b)[k := m\<lparr>mm_alloc_bitmap :=
                    f (mm_alloc_bitmap m) ((first - first_page m) div PAGE_SIZE) n\<rparr>]\<rparr>)
             else Inl Assert)"

definition map_alloc :: "uk_bbpalloc \<Rightarrow> nat \<Rightarrow> nat \<Rightarrow> uk_bbpalloc res" where
  "map_alloc b first n =
     bindr (map_update set_bits b first n) (\<lambda>b'.
       Inr (b'\<lparr>nr_free_pages := nr_free_pages b' - of_nat n\<rparr>))"

definition map_free :: "uk_bbpalloc \<Rightarrow> nat \<Rightarrow> nat \<Rightarrow> uk_bbpalloc res" where
  "map_free b first n =
     bindr (map_update clear_bits b first n) (\<lambda>b'.
       Inr (b'\<lparr>nr_free_pages := nr_free_pages b' + of_nat n\<rparr>))"

definition bbuddy_availmem :: "uk_bbpalloc \<Rightarrow> u64" where
  "bbuddy_availmem b = push_bit PAGE_SHIFT (nr_free_pages b)"

section \<open>Orders\<close>

text \<open>\<^verbatim>\<open>ukarch_flsl\<close>: the index of the highest set bit of a non-zero number.\<close>

fun flsl :: "nat \<Rightarrow> nat" where
  "flsl n = (if n < 2 then 0 else Suc (flsl (n div 2)))"

declare flsl.simps [simp del]

definition num_pages_to_order :: "nat \<Rightarrow> nat res" where
  "num_pages_to_order n =
     (if n = 0 then Inl Assert else if n = 1 then Inr 0 else Inr (flsl (n - 1) + 1))"

section \<open>Free lists\<close>

definition link_chunk :: "nat \<Rightarrow> nat \<Rightarrow> uk_bbpalloc \<Rightarrow> uk_bbpalloc" where
  "link_chunk i ch b =
     b\<lparr>free_head := (free_head b)[i := ch # free_head b ! i], bb_level := (bb_level b)(ch := i)\<rparr>"

definition unlink_chunk :: "nat \<Rightarrow> nat \<Rightarrow> uk_bbpalloc \<Rightarrow> uk_bbpalloc" where
  "unlink_chunk i ch b = b\<lparr>free_head := (free_head b)[i := remove1 ch (free_head b ! i)]\<rparr>"

text \<open>
  The search for the first non-empty list at or above an order: the loop variable at the
  end. For an order above the number of lists the loop ends at once with that order.
\<close>

function find_list :: "nat list list \<Rightarrow> nat \<Rightarrow> nat" where
  "find_list fh i = (if i < FREELIST_SIZE \<and> fh ! i = [] then find_list fh (i + 1) else i)"
  by auto
termination
  by (relation "measure (\<lambda>(fh, i). FREELIST_SIZE - i)") auto

declare find_list.simps [simp del]

text \<open>Splitting a chunk of order \<open>i\<close> down to \<open>order\<close>; the upper halves become free chunks.\<close>

fun split_chunk :: "nat \<Rightarrow> nat \<Rightarrow> nat \<Rightarrow> uk_bbpalloc \<Rightarrow> uk_bbpalloc" where
  "split_chunk ch order 0 b = b"
| "split_chunk ch order (Suc i) b =
     (if Suc i = order then b
      else split_chunk ch order i (link_chunk i (ch + 2 ^ (i + PAGE_SHIFT)) b))"

text \<open>The result is 0 (\<^verbatim>\<open>NULL\<close>) when no list has a chunk.\<close>

definition bbuddy_palloc :: "uk_bbpalloc \<Rightarrow> nat \<Rightarrow> (nat \<times> uk_bbpalloc) res" where
  "bbuddy_palloc b num_pages =
     bindr (num_pages_to_order num_pages) (\<lambda>order.
       let i = find_list (free_head b) order
       in if i = FREELIST_SIZE then Inr (0, b)
          else if i > FREELIST_SIZE then Inl Oob
          else let alloc_ch = hd (free_head b ! i);
                   b1 = unlink_chunk i alloc_ch b;
                   b2 = split_chunk alloc_ch order i b1
               in bindr (map_alloc b2 alloc_ch (2 ^ order)) (\<lambda>b3. Inr (alloc_ch, b3)))"

text \<open>Merging a freed chunk with its buddy as long as that is a free chunk of the same order.\<close>

function merge_chunk :: "nat \<Rightarrow> nat \<Rightarrow> uk_bbpalloc \<Rightarrow> nat \<times> nat \<times> uk_bbpalloc" where
  "merge_chunk ch order b =
     (if order < FREELIST_SIZE then
        let msk = 2 ^ (order + PAGE_SHIFT);
            to_merge = (if bit ch (order + PAGE_SHIFT) then ch - msk else ch + msk)
        in if allocated_in_map b to_merge \<or> bb_level b to_merge \<noteq> order then (ch, order, b)
           else merge_chunk (if bit ch (order + PAGE_SHIFT) then to_merge else ch) (order + 1)
                  (unlink_chunk order to_merge b)
      else (ch, order, b))"
  by auto
termination
  by (relation "measure (\<lambda>(ch, order, b). FREELIST_SIZE - order)") auto

declare merge_chunk.simps [simp del]

definition bbuddy_pfree :: "uk_bbpalloc \<Rightarrow> nat \<Rightarrow> nat \<Rightarrow> uk_bbpalloc res" where
  "bbuddy_pfree b obj num_pages =
     bindr (num_pages_to_order num_pages) (\<lambda>order.
       if obj mod PAGE_SIZE \<noteq> 0 then Inl Assert
       else bindr (map_free b obj (2 ^ order)) (\<lambda>b1.
         let (ch, k, b2) = merge_chunk obj order b1
         in if k < FREELIST_SIZE then Inr (link_chunk k ch b2) else Inl Oob))"

section \<open>Adding memory\<close>

definition round_pgup :: "nat \<Rightarrow> nat" where
  "round_pgup x = (x + 4095) mod 2 ^ 64 div 4096 * 4096"

definition round_pgdown :: "nat \<Rightarrow> nat" where
  "round_pgdown x = x mod 2 ^ 64 div 4096 * 4096"

definition sizeof_memr :: nat where "sizeof_memr = 40"

text \<open>The inner loop: the shift of the largest chunk that starts at \<open>mn\<close> and fits into \<open>rng\<close>.\<close>

function chunk_shift :: "nat \<Rightarrow> nat \<Rightarrow> nat \<Rightarrow> nat" where
  "chunk_shift mn rng i =
     (if 2 ^ (i + 1) \<le> rng \<and> \<not> bit mn i then chunk_shift mn rng (i + 1) else i)"
  by auto
termination
proof (relation "measure (\<lambda>(mn, rng, i). rng - i)")
  show "((mn, rng, i + 1), mn, rng, i) \<in> measure (\<lambda>(mn, rng, i). rng - i)"
    if "2 ^ (i + 1) \<le> rng \<and> \<not> bit mn i" for mn rng i :: nat
  proof -
    have "i + 1 < 2 ^ (i + 1)" by (rule less_exp)
    also have "\<dots> \<le> rng" using that by simp
    finally have "i + 1 < rng" .
    then have "rng - (i + 1) < rng - i" by linarith
    then show ?thesis by simp
  qed
qed simp

declare chunk_shift.simps [simp del]

text \<open>
  The outer loop. A remaining range below a page would make the subtraction wrap around and
  the loop run away; a shift by 64 is undefined. Neither happens for page multiples below
  \<open>2 ^ 63\<close>.
\<close>

function add_chunks :: "nat \<Rightarrow> nat \<Rightarrow> uk_bbpalloc \<Rightarrow> uk_bbpalloc res" where
  "add_chunks mn rng b =
     (if rng = 0 then Inr b
      else let i = chunk_shift mn rng PAGE_SHIFT
           in if i \<ge> 63 then Inl Undef
              else if rng < 2 ^ i then Inl Hang
              else add_chunks (mn + 2 ^ i) (rng - 2 ^ i) (link_chunk (i - PAGE_SHIFT) mn b))"
  by auto
termination
  by (relation "measure (\<lambda>(mn, rng, b). rng)") (auto simp: Let_def)

declare add_chunks.simps [simp del]

text \<open>
  \<open>junk\<close> is what the memory of the new bitmap holds before it is filled with ones; the
  result is \<open>False\<close> where the code returns \<^verbatim>\<open>-EINVAL\<close>.
\<close>

definition bbuddy_addmem ::
  "(nat \<Rightarrow> u64) \<Rightarrow> uk_bbpalloc \<Rightarrow> nat \<Rightarrow> nat \<Rightarrow> (bool \<times> uk_bbpalloc) res" where
  "bbuddy_addmem junk b base len =
     (if base = 0 then Inl Assert
      else let mn = round_pgup base;
               mx = round_pgdown (base + len)
      in if mx < mn then Inr (False, b)
         else let rng = mx - mn
         in if rng < round_pgup (sizeof_memr + 8) + PAGE_SIZE then Inr (False, b)
            else let nr = 8 * (rng - sizeof_memr) mod 2 ^ 64 div (8 * PAGE_SIZE + 1);
                     memr_size = round_pgup (sizeof_memr + (nr + 7) div 8);
                     bm_size = memr_size - sizeof_memr;
                     m = \<lparr>first_page = mn + memr_size, nr_pages = nr, mm_alloc_bitmap_size = bm_size,
                          mm_alloc_bitmap = (\<lambda>i. if i < bm_size div 8 then - 1 else junk i)\<rparr>
            in bindr (map_free (b\<lparr>memrs := m # memrs b\<rparr>) (mn + memr_size) nr) (\<lambda>b1.
               bindr (add_chunks (mn + memr_size) (rng - memr_size) b1) (\<lambda>b2. Inr (True, b2))))"

definition sizeof_descriptor :: nat where
  "sizeof_descriptor = 80 + (8 + 52 * 8 + 52 * 24 + 8)"

definition empty_bb :: uk_bbpalloc where
  "empty_bb = \<lparr>nr_free_pages = 0, free_head = replicate FREELIST_SIZE [], bb_level = (\<lambda>_. 0),
     memrs = []\<rparr>"

text \<open>The allocator descriptor's address and the allocator; \<open>None\<close> when there is no space.\<close>

definition uk_allocbbuddy_init ::
  "(nat \<Rightarrow> u64) \<Rightarrow> nat \<Rightarrow> nat \<Rightarrow> (nat \<times> uk_bbpalloc) option res" where
  "uk_allocbbuddy_init junk base len =
     (let mn = round_pgup base;
          mx = round_pgdown (base + len);
          metalen = round_pgup sizeof_descriptor
      in if \<not> mx > mn then Inl Assert
         else if mn + metalen > mx then Inr None
         else let mn1 = mn + metalen
              in if mx > mn1 + metalen
                 then bindr (bbuddy_addmem junk empty_bb (mn1 + metalen) (mx - mn1 - metalen))
                        (\<lambda>(ok, b). Inr (Some (mn, b)))
                 else Inr (Some (mn, empty_bb)))"

section \<open>Bits of the allocation bitmap\<close>

lemma bit_below: "n < 64 \<Longrightarrow> bit (2 ^ n - 1 :: u64) i \<longleftrightarrow> i < n"
proof -
  assume "n < 64"
  have "2 ^ n - 1 = (mask n :: u64)" by (simp add: mask_eq_exp_minus_1)
  then show ?thesis using \<open>n < 64\<close> by (auto simp: bit_mask_iff)
qed

lemma bit_from: "n < 64 \<Longrightarrow> bit (- (2 ^ n) :: u64) i \<longleftrightarrow> n \<le> i \<and> i < 64"
proof -
  assume "n < 64"
  have "- (2 ^ n) = NOT (mask n :: u64)" by (simp add: minus_exp_eq_not_mask)
  then show ?thesis using \<open>n < 64\<close> by (auto simp: bit_not_iff bit_mask_iff)
qed

lemma fold_fun_upd: "fold (\<lambda>i f. f(i := v)) xs f = (\<lambda>i. if i \<in> set xs then v else f i)"
  by (induction xs arbitrary: f) (auto simp: fun_eq_iff)

text \<open>Positions in the bitmap: word and offset compare lexicographically.\<close>

lemma word_off_less:
  "(a::nat) < b \<longleftrightarrow> a div 64 < b div 64 \<or> (a div 64 = b div 64 \<and> a mod 64 < b mod 64)"
proof -
  have "a = 64 * (a div 64) + a mod 64" "b = 64 * (b div 64) + b mod 64"
    "a mod 64 < 64" "b mod 64 < 64" by simp_all
  then show ?thesis by linarith
qed

lemma map_bit_set_bits:
  "map_bit (set_bits bm s n) i \<longleftrightarrow> (s \<le> i \<and> i < s + n) \<or> map_bit bm i"
proof -
  have o: "x mod 64 < 64" for x :: nat by simp
  have le: "s \<le> i \<longleftrightarrow> \<not> i < s" by auto
  have sn: "s div 64 \<le> (s + n) div 64" by (simp add: div_le_mono)
  show ?thesis
    unfolding map_bit_def set_bits_def Let_def PAGES_PER_MAPWORD_def le
      word_off_less [of i s] word_off_less [of i "s + n"] fold_fun_upd
    using sn o [of i] o [of s] o [of "s + n"]
    by (auto simp: bit_or_iff bit_and_iff bit_below bit_from bit_minus_1_iff)
qed

lemma map_bit_clear_bits:
  "map_bit (clear_bits bm s n) i \<longleftrightarrow> \<not> (s \<le> i \<and> i < s + n) \<and> map_bit bm i"
proof -
  have o: "x mod 64 < 64" for x :: nat by simp
  have le: "s \<le> i \<longleftrightarrow> \<not> i < s" by auto
  have sn: "s div 64 \<le> (s + n) div 64" by (simp add: div_le_mono)
  show ?thesis
    unfolding map_bit_def clear_bits_def Let_def PAGES_PER_MAPWORD_def le
      word_off_less [of i s] word_off_less [of i "s + n"] fold_fun_upd
    using sn o [of i] o [of s] o [of "s + n"]
    by (auto simp: bit_or_iff bit_and_iff bit_below bit_from)
qed

section \<open>Orders\<close>

lemma flsl_bounds: "0 < n \<Longrightarrow> 2 ^ flsl n \<le> n \<and> n < 2 ^ (flsl n + 1)"
proof (induction n rule: flsl.induct)
  case (1 n)
  show ?case
  proof (cases "n < 2")
    case True
    with 1 show ?thesis by (simp add: flsl.simps [of n])
  next
    case False
    with 1 have "2 ^ flsl (n div 2) \<le> n div 2" "n div 2 < 2 ^ (flsl (n div 2) + 1)" by auto
    with False show ?thesis by (simp add: flsl.simps [of n]) linarith
  qed
qed

text \<open>The order of a request is the smallest one whose chunk is large enough.\<close>

lemma num_pages_to_order_least:
  assumes "num_pages_to_order n = Inr k"
  shows "n \<le> 2 ^ k" "0 < n" "k = 0 \<or> 2 ^ (k - 1) < n"
proof -
  from assms show "0 < n" by (auto simp: num_pages_to_order_def split: if_splits)
  from assms flsl_bounds [of "n - 1"] show "n \<le> 2 ^ k" "k = 0 \<or> 2 ^ (k - 1) < n"
    by (auto simp: num_pages_to_order_def split: if_splits)
qed

end
