(* ===== verification/Bbuddy_Chunks.thy ===== *)
theory Bbuddy_Chunks
  imports Bbuddy
begin

text \<open>
  The invariant of the buddy allocator: free chunks are aligned, do not overlap, carry their
  order and cover exactly the pages the bitmaps call free, and no two buddies of one order are
  free. Linking and unlinking a chunk, updating a bitmap, splitting and merging are shown to
  keep it, and with them \<^verbatim>\<open>bbuddy_palloc\<close> and \<^verbatim>\<open>bbuddy_pfree\<close>.
\<close>

section \<open>Pages, chunks and the allocator's invariant\<close>

text \<open>Pages are numbered. A page is free when it lies in a region and its bit is clear.\<close>

definition page_free :: "uk_bbpalloc \<Rightarrow> nat \<Rightarrow> bool" where
  "page_free b p \<longleftrightarrow> \<not> allocated_in_map b (p * 4096)"

definition managed :: "uk_bbpalloc \<Rightarrow> nat \<Rightarrow> bool" where
  "managed b p \<longleftrightarrow> map_get_memr (memrs b) (p * 4096) \<noteq> None"

definition chunk :: "uk_bbpalloc \<Rightarrow> nat \<Rightarrow> nat \<Rightarrow> bool" where
  "chunk b i c \<longleftrightarrow> i < FREELIST_SIZE \<and> c \<in> set (free_head b ! i)"

definition chunk_pages :: "nat \<Rightarrow> nat \<Rightarrow> nat set" where
  "chunk_pages c i = {c div 4096..<c div 4096 + 2 ^ i}"

text \<open>Between two regions lies at least one page, the one with the descriptor of the second.\<close>

definition apart :: "uk_bbpalloc_memr \<Rightarrow> uk_bbpalloc_memr \<Rightarrow> bool" where
  "apart m m' \<longleftrightarrow> memr_end m < first_page m' \<or> memr_end m' < first_page m"

definition memr_ok :: "uk_bbpalloc_memr \<Rightarrow> bool" where
  "memr_ok m \<longleftrightarrow> first_page m mod 4096 = 0 \<and> 0 < first_page m \<and> memr_end m \<le> 2 ^ 64"

definition regions_ok :: "uk_bbpalloc_memr list \<Rightarrow> bool" where
  "regions_ok ms \<longleftrightarrow> (\<forall>m \<in> set ms. memr_ok m) \<and>
     (\<forall>i < length ms. \<forall>j < length ms. i \<noteq> j \<longrightarrow> apart (ms ! i) (ms ! j))"

text \<open>
  The invariant, relative to a hole \<open>H\<close>: pages that are free in the bitmap and belong to no
  chunk, because the code is between unlinking a chunk and using it. Chunks are aligned to
  their size, do not overlap, carry their order, and cover exactly the free pages.
\<close>

definition bb_inv :: "uk_bbpalloc \<Rightarrow> nat set \<Rightarrow> bool" where
  "bb_inv b H \<longleftrightarrow> length (free_head b) = FREELIST_SIZE \<and> regions_ok (memrs b) \<and>
     (\<forall>p. page_free b p \<longleftrightarrow> p \<in> H \<or> (\<exists>i c. chunk b i c \<and> p \<in> chunk_pages c i)) \<and>
     (\<forall>i c. chunk b i c \<longrightarrow> 2 ^ (i + PAGE_SHIFT) dvd c \<and> bb_level b c = i \<and> chunk_pages c i \<inter> H = {}) \<and>
     (\<forall>i c j d. chunk b i c \<longrightarrow> chunk b j d \<longrightarrow> chunk_pages c i \<inter> chunk_pages d j \<noteq> {} \<longrightarrow> i = j \<and> c = d) \<and>
     (\<forall>i < FREELIST_SIZE. distinct (free_head b ! i)) \<and>
     nr_free_pages b = of_nat (card {p. page_free b p})"

lemma bb_invD:
  assumes "bb_inv b H"
  shows "length (free_head b) = FREELIST_SIZE" "regions_ok (memrs b)"
    "page_free b p \<longleftrightarrow> p \<in> H \<or> (\<exists>i c. chunk b i c \<and> p \<in> chunk_pages c i)"
    "chunk b i c \<Longrightarrow> 2 ^ (i + PAGE_SHIFT) dvd c" "chunk b i c \<Longrightarrow> bb_level b c = i"
    "chunk b i c \<Longrightarrow> p \<in> chunk_pages c i \<Longrightarrow> p \<in> H \<Longrightarrow> False"
    "chunk b i c \<Longrightarrow> chunk b j d \<Longrightarrow> p \<in> chunk_pages c i \<Longrightarrow> p \<in> chunk_pages d j \<Longrightarrow> i = j \<and> c = d"
    "i < FREELIST_SIZE \<Longrightarrow> distinct (free_head b ! i)"
    "nr_free_pages b = of_nat (card {p. page_free b p})"
  using assms unfolding bb_inv_def by blast+

lemma bb_invI:
  assumes "length (free_head b) = FREELIST_SIZE" "regions_ok (memrs b)"
    "\<And>p. page_free b p \<longleftrightarrow> p \<in> H \<or> (\<exists>i c. chunk b i c \<and> p \<in> chunk_pages c i)"
    "\<And>i c. chunk b i c \<Longrightarrow> 2 ^ (i + PAGE_SHIFT) dvd c" "\<And>i c. chunk b i c \<Longrightarrow> bb_level b c = i"
    "\<And>i c p. chunk b i c \<Longrightarrow> p \<in> chunk_pages c i \<Longrightarrow> p \<in> H \<Longrightarrow> False"
    "\<And>i c j d p. chunk b i c \<Longrightarrow> chunk b j d \<Longrightarrow> p \<in> chunk_pages c i \<Longrightarrow> p \<in> chunk_pages d j \<Longrightarrow> i = j \<and> c = d"
    "\<And>i. i < FREELIST_SIZE \<Longrightarrow> distinct (free_head b ! i)"
    "nr_free_pages b = of_nat (card {p. page_free b p})"
  shows "bb_inv b H"
  unfolding bb_inv_def using assms by blast

subsection \<open>Regions\<close>

lemma map_get_memr_SomeD:
  "map_get_memr ms va = Some k \<Longrightarrow> k < length ms \<and> first_page (ms ! k) \<le> va \<and> va < memr_end (ms ! k)"
  by (induction ms arbitrary: k) (auto split: if_splits)

lemma map_get_memr_None:
  "map_get_memr ms va = None \<longleftrightarrow> (\<forall>m \<in> set ms. \<not> (first_page m \<le> va \<and> va < memr_end m))"
  by (induction ms) auto

lemma map_get_memr_unique:
  assumes "regions_ok ms" "k < length ms" "first_page (ms ! k) \<le> va" "va < memr_end (ms ! k)"
  shows "map_get_memr ms va = Some k"
proof (cases "map_get_memr ms va")
  case None
  with assms(2-4) show ?thesis by (auto simp: map_get_memr_None)
next
  case (Some j)
  note j = map_get_memr_SomeD [OF Some]
  have "j = k"
  proof (rule ccontr)
    assume "j \<noteq> k"
    with assms(1,2) j have "apart (ms ! j) (ms ! k)" by (auto simp: regions_ok_def)
    with j assms(3,4) show False by (auto simp: apart_def)
  qed
  with Some show ?thesis by simp
qed

lemma page_step: "p * 4096 < 4096 * u + n * 4096 \<Longrightarrow> p * 4096 + 4096 \<le> 4096 * u + n * (4096::nat)"
proof -
  assume "p * 4096 < 4096 * u + n * 4096"
  then have "p < u + n" by linarith
  then have "Suc p \<le> u + n" by simp
  then show ?thesis by linarith
qed

lemma same_region_step:
  assumes ok: "regions_ok ms"
    and j: "map_get_memr ms (p * 4096) = Some j" and k: "map_get_memr ms ((p + 1) * 4096) = Some k"
  shows "j = k"
proof (rule ccontr)
  assume "j \<noteq> k"
  note J = map_get_memr_SomeD [OF j] and K = map_get_memr_SomeD [OF k]
  with \<open>j \<noteq> k\<close> ok have "apart (ms ! j) (ms ! k)" by (auto simp: regions_ok_def)
  moreover have "memr_ok (ms ! j)" "memr_ok (ms ! k)" using ok J K by (auto simp: regions_ok_def)
  then obtain u v where "first_page (ms ! j) = 4096 * u" "first_page (ms ! k) = 4096 * v"
    by (auto simp: memr_ok_def elim!: dvdE)
  ultimately show False using J K page_step [of p u "nr_pages (ms ! j)"]
    by (auto simp: apart_def memr_end_def)
qed

text \<open>A run of consecutive managed pages lies in one region.\<close>

lemma run_in_region:
  assumes ok: "regions_ok (memrs b)" and "0 < n"
    and run: "\<And>p. P \<le> p \<Longrightarrow> p < P + n \<Longrightarrow> managed b p"
  obtains k where "\<And>p. P \<le> p \<Longrightarrow> p < P + n \<Longrightarrow> map_get_memr (memrs b) (p * 4096) = Some k"
proof -
  have "\<exists>k. \<forall>p. P \<le> p \<and> p < P + Suc n' \<longrightarrow> map_get_memr (memrs b) (p * 4096) = Some k"
    if "\<And>p. P \<le> p \<Longrightarrow> p < P + Suc n' \<Longrightarrow> managed b p" for n'
    using that
  proof (induction n')
    case 0
    then have "managed b P" by simp
    then obtain k where "map_get_memr (memrs b) (P * 4096) = Some k" by (auto simp: managed_def)
    then show ?case by (intro exI [of _ k]) (auto simp: le_less_Suc_eq)
  next
    case (Suc n')
    then obtain k where k: "\<And>p. P \<le> p \<Longrightarrow> p < P + Suc n' \<Longrightarrow> map_get_memr (memrs b) (p * 4096) = Some k"
      by auto
    from Suc.prems [of "P + Suc n'"] obtain j
      where j: "map_get_memr (memrs b) ((P + Suc n') * 4096) = Some j" by (auto simp: managed_def)
    have "map_get_memr (memrs b) ((P + n') * 4096) = Some k" by (rule k) simp_all
    with same_region_step [OF ok, of "P + n'" k j] j have "j = k" by simp
    with j k show ?case by (intro exI [of _ k]) (auto simp: less_Suc_eq)
  qed
  from this [of "n - 1"] assms(2) run that show thesis by auto
qed

lemma page_free_managed: "page_free b p \<Longrightarrow> managed b p"
  by (auto simp: page_free_def managed_def allocated_in_map_def split: option.splits)

subsection \<open>Updates of the bitmap\<close>

lemma region_page:
  assumes "memr_ok m" "first_page m \<le> p * 4096" "p * 4096 < memr_end m"
  shows "(p * 4096 - first_page m) div 4096 = p - first_page m div 4096"
    "first_page m div 4096 \<le> p" "p < first_page m div 4096 + nr_pages m"
proof -
  from assms(1) obtain u where "first_page m = 4096 * u" by (auto simp: memr_ok_def elim!: dvdE)
  with assms(2,3) show "(p * 4096 - first_page m) div 4096 = p - first_page m div 4096"
    "first_page m div 4096 \<le> p" "p < first_page m div 4096 + nr_pages m"
    by (simp_all add: memr_end_def diff_mult_distrib2 [symmetric] mult.commute [of p])
qed

lemma map_get_memr_update:
  assumes "k < length ms" "first_page m = first_page (ms ! k)" "nr_pages m = nr_pages (ms ! k)"
  shows "map_get_memr (ms[k := m]) va = map_get_memr ms va"
  using assms
proof (induction ms arbitrary: k)
  case (Cons x ms)
  then show ?case by (cases k) (auto simp: memr_end_def)
qed simp

lemma regions_ok_update:
  assumes "regions_ok ms" "k < length ms" "first_page m = first_page (ms ! k)" "nr_pages m = nr_pages (ms ! k)"
  shows "regions_ok (ms[k := m])"
proof -
  have ex: "first_page (ms[k := m] ! i) = first_page (ms ! i) \<and> nr_pages (ms[k := m] ! i) = nr_pages (ms ! i)" for i
    using assms(2-4) by (cases "i = k") auto
  then have "apart (ms[k := m] ! i) (ms[k := m] ! j) = apart (ms ! i) (ms ! j)"
    "memr_ok (ms[k := m] ! i) = memr_ok (ms ! i)" for i j
    by (simp_all add: apart_def memr_end_def memr_ok_def)
  with assms(1) show ?thesis by (auto simp: regions_ok_def all_set_conv_all_nth)
qed

lemma map_update_Inr:
  assumes ok: "regions_ok (memrs b)" and "0 < n"
    and k: "\<And>p. P \<le> p \<Longrightarrow> p < P + n \<Longrightarrow> map_get_memr (memrs b) (p * 4096) = Some k"
  shows "map_update f b (P * 4096) n = Inr (b\<lparr>memrs := (memrs b)[k := (memrs b ! k)\<lparr>mm_alloc_bitmap :=
      f (mm_alloc_bitmap (memrs b ! k)) (P - first_page (memrs b ! k) div 4096) n\<rparr>]\<rparr>)"
proof -
  from k [of P] \<open>0 < n\<close> have kP: "map_get_memr (memrs b) (P * 4096) = Some k" by simp
  from k [of "P + n - 1"] \<open>0 < n\<close> have kl: "map_get_memr (memrs b) ((P + n - 1) * 4096) = Some k" by simp
  note P = map_get_memr_SomeD [OF kP] and L = map_get_memr_SomeD [OF kl]
  have m: "memr_ok (memrs b ! k)" using ok P by (auto simp: regions_ok_def)
  then obtain u where "first_page (memrs b ! k) = 4096 * u" by (auto simp: memr_ok_def elim!: dvdE)
  with L \<open>0 < n\<close> have "P * 4096 + n * 4096 \<le> memr_end (memrs b ! k)"
    using page_step [of "P + n - 1" u "nr_pages (memrs b ! k)"] by (cases n) (auto simp: memr_end_def)
  with kP region_page(1) [OF m] P show ?thesis by (simp add: map_update_def PAGE_SIZE_def Let_def)
qed

text \<open>What the two bitmap updates do to the set of free pages.\<close>

lemma map_update_pages:
  assumes ok: "regions_ok (memrs b)" and n: "0 < n"
    and k: "\<And>p. P \<le> p \<Longrightarrow> p < P + n \<Longrightarrow> map_get_memr (memrs b) (p * 4096) = Some k"
    and f: "\<And>bm s i. map_bit (f bm s n) i = (if s \<le> i \<and> i < s + n then v else map_bit bm i)"
  obtains b' where "map_update f b (P * 4096) n = Inr b'"
    "b' = b\<lparr>memrs := memrs b'\<rparr>" "regions_ok (memrs b')"
    "\<forall>p. managed b' p = managed b p"
    "\<forall>p. page_free b' p = (if P \<le> p \<and> p < P + n then \<not> v else page_free b p)"
proof -
  let ?m = "memrs b ! k"
  let ?m' = "?m\<lparr>mm_alloc_bitmap := f (mm_alloc_bitmap ?m) (P - first_page ?m div 4096) n\<rparr>"
  let ?b = "b\<lparr>memrs := (memrs b)[k := ?m']\<rparr>"
  from k [of P] n have kP: "map_get_memr (memrs b) (P * 4096) = Some k" by simp
  note P = map_get_memr_SomeD [OF kP]
  have m: "memr_ok ?m" using ok P by (auto simp: regions_ok_def)
  have get: "map_get_memr (memrs ?b) va = map_get_memr (memrs b) va" for va
    using P by (simp add: map_get_memr_update)
  have free: "page_free ?b p = (if P \<le> p \<and> p < P + n then \<not> v else page_free b p)" for p
  proof (cases "map_get_memr (memrs b) (p * 4096) = Some k")
    case True
    note p = map_get_memr_SomeD [OF True]
    from region_page [OF m] p P have "(p * 4096 - first_page ?m) div 4096 = p - first_page ?m div 4096"
      "first_page ?m div 4096 \<le> p" "first_page ?m div 4096 \<le> P" by blast+
    with True P show ?thesis
      by (auto simp: page_free_def allocated_in_map_def get [simplified] f PAGE_SIZE_def Let_def)
  next
    case False
    with k have "\<not> (P \<le> p \<and> p < P + n)" by blast
    with False P show ?thesis
      by (auto simp: page_free_def allocated_in_map_def get [simplified] split: option.splits)
  qed
  show thesis
  proof (rule that)
    show "map_update f b (P * 4096) n = Inr ?b" by (rule map_update_Inr [OF ok n k])
    show "regions_ok (memrs ?b)" using regions_ok_update [OF ok] P by simp
  qed (use free get in \<open>simp_all add: managed_def\<close>)
qed

subsection \<open>Linking and unlinking chunks\<close>

lemma chunk_link:
  "length (free_head b) = FREELIST_SIZE \<Longrightarrow> i < FREELIST_SIZE \<Longrightarrow>
     chunk (link_chunk i c b) j d \<longleftrightarrow> chunk b j d \<or> (j = i \<and> d = c)"
  by (auto simp: chunk_def link_chunk_def nth_list_update)

lemma chunk_unlink:
  "length (free_head b) = FREELIST_SIZE \<Longrightarrow> i < FREELIST_SIZE \<Longrightarrow> distinct (free_head b ! i) \<Longrightarrow>
     chunk (unlink_chunk i c b) j d \<longleftrightarrow> chunk b j d \<and> \<not> (j = i \<and> d = c)"
  by (auto simp: chunk_def unlink_chunk_def nth_list_update)

lemma link_chunk_simps [bb_simps]:
  "memrs (link_chunk i c b) = memrs b" "nr_free_pages (link_chunk i c b) = nr_free_pages b"
  "bb_level (link_chunk i c b) = (bb_level b)(c := i)"
  "length (free_head (link_chunk i c b)) = length (free_head b)"
  by (simp_all add: link_chunk_def)

lemma unlink_chunk_simps [bb_simps]:
  "memrs (unlink_chunk i c b) = memrs b" "nr_free_pages (unlink_chunk i c b) = nr_free_pages b"
  "bb_level (unlink_chunk i c b) = bb_level b"
  "length (free_head (unlink_chunk i c b)) = length (free_head b)"
  by (simp_all add: unlink_chunk_def)

lemma page_free_memrs: "memrs b' = memrs b \<Longrightarrow> page_free b' p = page_free b p"
  unfolding page_free_def allocated_in_map_def by (simp only:)

lemma managed_memrs: "memrs b' = memrs b \<Longrightarrow> managed b' p = managed b p"
  by (simp add: managed_def)

lemma page_free_link [bb_simps]: "page_free (link_chunk i c b) p = page_free b p"
  by (rule page_free_memrs) (simp add: bb_simps)

lemma page_free_unlink [bb_simps]: "page_free (unlink_chunk i c b) p = page_free b p"
  by (rule page_free_memrs) (simp add: bb_simps)

lemma chunk_pages_first [simp]: "c div 4096 \<in> chunk_pages c i"
  by (simp add: chunk_pages_def)

lemma bb_inv_link:
  assumes inv: "bb_inv b (chunk_pages c i \<union> H)" and disj: "chunk_pages c i \<inter> H = {}"
    and i: "i < FREELIST_SIZE" and al: "2 ^ (i + PAGE_SHIFT) dvd c"
  shows "bb_inv (link_chunk i c b) H"
proof -
  note D = bb_invD [OF inv]
  note ch = chunk_link [OF D(1) i]
  have other: "d \<noteq> c \<and> chunk_pages d j \<inter> chunk_pages c i = {}" if "chunk b j d" for j d
  proof
    show "d \<noteq> c"
    proof
      assume "d = c"
      with that D(6) [OF that, of "c div 4096"] show False by simp
    qed
    show "chunk_pages d j \<inter> chunk_pages c i = {}" using D(6) [OF that] by blast
  qed
  have "c \<notin> set (free_head b ! i)" using other [of i c] i by (auto simp: chunk_def)
  then have dist: "distinct (free_head (link_chunk i c b) ! k)" if "k < FREELIST_SIZE" for k
    using D(8) [OF that] D(1) i by (auto simp: link_chunk_def nth_list_update)
  show ?thesis
  proof (rule bb_invI)
    show "page_free (link_chunk i c b) p \<longleftrightarrow>
        p \<in> H \<or> (\<exists>j d. chunk (link_chunk i c b) j d \<and> p \<in> chunk_pages d j)" for p
      unfolding ch bb_simps D(3) by blast
    show "2 ^ (j + PAGE_SHIFT) dvd d" if "chunk (link_chunk i c b) j d" for j d
      using that al D(4) unfolding ch by blast
    show "bb_level (link_chunk i c b) d = j" if "chunk (link_chunk i c b) j d" for j d
      using that D(5) other unfolding ch bb_simps by auto
    show False if "chunk (link_chunk i c b) j d" "p \<in> chunk_pages d j" "p \<in> H" for j d p
      using that D(6) disj unfolding ch by blast
    show "j = k \<and> d = e" if "chunk (link_chunk i c b) j d" "chunk (link_chunk i c b) k e"
      "p \<in> chunk_pages d j" "p \<in> chunk_pages e k" for j d k e p
      using that D(7) other unfolding ch by blast
    show "nr_free_pages (link_chunk i c b) = of_nat (card {p. page_free (link_chunk i c b) p})"
      unfolding bb_simps by (rule D(9))
  qed (use D(1,2) dist in \<open>simp_all add: bb_simps\<close>)
qed

lemma bb_inv_unlink:
  assumes inv: "bb_inv b H" and c: "chunk b i c"
  shows "bb_inv (unlink_chunk i c b) (chunk_pages c i \<union> H)"
proof -
  note D = bb_invD [OF inv]
  from c have i: "i < FREELIST_SIZE" by (simp add: chunk_def)
  note ch = chunk_unlink [OF D(1) i D(8) [OF i]]
  have dist: "distinct (free_head (unlink_chunk i c b) ! k)" if "k < FREELIST_SIZE" for k
    using D(8) [OF that] D(1) i by (simp add: unlink_chunk_def nth_list_update)
  show ?thesis
  proof (rule bb_invI)
    show "page_free (unlink_chunk i c b) p \<longleftrightarrow> p \<in> chunk_pages c i \<union> H \<or>
        (\<exists>j d. chunk (unlink_chunk i c b) j d \<and> p \<in> chunk_pages d j)" for p
      unfolding ch bb_simps D(3) using c by blast
    show "2 ^ (j + PAGE_SHIFT) dvd d" if "chunk (unlink_chunk i c b) j d" for j d
      using that D(4) unfolding ch by blast
    show "bb_level (unlink_chunk i c b) d = j" if "chunk (unlink_chunk i c b) j d" for j d
      using that D(5) unfolding ch bb_simps by blast
    show False if "chunk (unlink_chunk i c b) j d" "p \<in> chunk_pages d j" "p \<in> chunk_pages c i \<union> H" for j d p
      using that D(6,7) c unfolding ch by blast
    show "j = k \<and> d = e" if "chunk (unlink_chunk i c b) j d" "chunk (unlink_chunk i c b) k e"
      "p \<in> chunk_pages d j" "p \<in> chunk_pages e k" for j d k e p
      using that D(7) unfolding ch by blast
    show "nr_free_pages (unlink_chunk i c b) = of_nat (card {p. page_free (unlink_chunk i c b) p})"
      unfolding bb_simps by (rule D(9))
  qed (use D(1,2) dist in \<open>simp_all add: bb_simps\<close>)
qed

subsection \<open>Allocating and freeing pages\<close>

lemma finite_free:
  assumes "regions_ok (memrs b)"
  shows "finite {p. page_free b p}"
proof (rule finite_subset)
  show "{p. page_free b p} \<subseteq> {..<2 ^ 64}"
  proof
    fix p
    assume "p \<in> {p. page_free b p}"
    then obtain k where k: "map_get_memr (memrs b) (p * 4096) = Some k"
      using page_free_managed by (auto simp: managed_def)
    with assms have "memr_ok (memrs b ! k)" by (auto simp: regions_ok_def dest!: map_get_memr_SomeD)
    with map_get_memr_SomeD [OF k] show "p \<in> {..<2 ^ 64}" by (auto simp: memr_ok_def)
  qed
qed simp

text \<open>Changing only bitmaps and the counter keeps the part of the invariant about chunks.\<close>

lemma bb_inv_bitmap:
  assumes inv: "bb_inv b H" and eq: "free_head b' = free_head b" "bb_level b' = bb_level b"
    and "regions_ok (memrs b')" "nr_free_pages b' = of_nat (card {p. page_free b' p})"
    and free: "\<And>p. page_free b' p \<longleftrightarrow> p \<in> H' \<or> (\<exists>i c. chunk b i c \<and> p \<in> chunk_pages c i)"
    and disj: "\<And>i c p. chunk b i c \<Longrightarrow> p \<in> chunk_pages c i \<Longrightarrow> p \<in> H' \<Longrightarrow> False"
  shows "bb_inv b' H'"
proof -
  note D = bb_invD [OF inv]
  have ch: "chunk b' j d = chunk b j d" for j d by (simp add: chunk_def eq)
  show ?thesis
    by (rule bb_invI) (unfold ch eq, fact D(1), fact assms(4), fact free, fact D(4), fact D(5),
      fact disj, fact D(7), fact D(8), fact assms(5))
qed

lemma set_bits_if: "map_bit (set_bits bm s n) i = (if s \<le> i \<and> i < s + n then True else map_bit bm i)"
  by (auto simp: map_bit_set_bits)

lemma clear_bits_if: "map_bit (clear_bits bm s n) i = (if s \<le> i \<and> i < s + n then False else map_bit bm i)"
  by (auto simp: map_bit_clear_bits)

lemma map_alloc_inv:
  assumes inv: "bb_inv b (chunk_pages c i)" and c: "c mod 4096 = 0"
  obtains b' where "map_alloc b c (2 ^ i) = Inr b'" "bb_inv b' {}"
    "\<And>p. page_free b' p \<longleftrightarrow> page_free b p \<and> p \<notin> chunk_pages c i"
    "\<And>p. managed b' p = managed b p" "free_head b' = free_head b"
proof -
  note D = bb_invD [OF inv]
  let ?P = "c div 4096"
  have cP: "c = ?P * 4096" using c by auto
  have pages: "p \<in> chunk_pages c i \<longleftrightarrow> ?P \<le> p \<and> p < ?P + 2 ^ i" for p by (auto simp: chunk_pages_def)
  have "managed b p" if "?P \<le> p" "p < ?P + 2 ^ i" for p
    using that D(3) [of p] pages page_free_managed by blast
  then obtain k where k: "\<And>p. ?P \<le> p \<Longrightarrow> p < ?P + 2 ^ i \<Longrightarrow> map_get_memr (memrs b) (p * 4096) = Some k"
    using run_in_region [OF D(2), of "2 ^ i" ?P] by auto
  have pos: "0 < (2::nat) ^ i" by simp
  obtain b1 where b1: "map_update set_bits b (?P * 4096) (2 ^ i) = Inr b1" "b1 = b\<lparr>memrs := memrs b1\<rparr>"
    "regions_ok (memrs b1)" "\<forall>p. managed b1 p = managed b p"
    "\<forall>p. page_free b1 p = (if ?P \<le> p \<and> p < ?P + 2 ^ i then \<not> True else page_free b p)"
    by (rule map_update_pages [where f = set_bits, OF D(2) pos k set_bits_if])
  let ?b = "b1\<lparr>nr_free_pages := nr_free_pages b1 - of_nat (2 ^ i)\<rparr>"
  have eq: "free_head b1 = free_head b" "bb_level b1 = bb_level b" "nr_free_pages b1 = nr_free_pages b"
    using b1(2) by (metis uk_bbpalloc.ext_inject uk_bbpalloc.surjective uk_bbpalloc.update_convs(4))+
  have free: "page_free ?b p \<longleftrightarrow> page_free b p \<and> p \<notin> chunk_pages c i" for p
    using b1(5) pages page_free_memrs [of ?b b1 p] by simp
  have set: "{p. page_free ?b p} = {p. page_free b p} - chunk_pages c i" using free by blast
  have sub: "chunk_pages c i \<subseteq> {p. page_free b p}" using D(3) by blast
  have "card {p. page_free ?b p} = card {p. page_free b p} - 2 ^ i"
    unfolding set using card_Diff_subset [OF _ sub] by (simp add: chunk_pages_def)
  moreover have "2 ^ i \<le> card {p. page_free b p}"
    using card_mono [OF finite_free [OF D(2)] sub] by (simp add: chunk_pages_def)
  ultimately have cnt: "nr_free_pages ?b = of_nat (card {p. page_free ?b p})"
    using D(9) by (simp add: eq of_nat_diff)
  have "bb_inv ?b {}"
    by (rule bb_inv_bitmap [OF inv]) (use eq b1(3) cnt free D(3,6) in \<open>simp_all, blast\<close>)
  moreover have "map_alloc b c (2 ^ i) = Inr ?b"
    using b1(1) cP by (simp add: map_alloc_def)
  ultimately show thesis using that free b1(4) managed_memrs [of ?b b1] eq by simp
qed

lemma map_free_inv:
  assumes inv: "bb_inv b {}" and pos: "0 < n"
    and used: "\<And>p. p \<in> {P..<P + n} \<Longrightarrow> managed b p \<and> \<not> page_free b p"
  obtains b' where "map_free b (P * 4096) n = Inr b'" "bb_inv b' {P..<P + n}"
    "\<And>p. page_free b' p \<longleftrightarrow> page_free b p \<or> p \<in> {P..<P + n}"
    "\<And>p. managed b' p = managed b p" "free_head b' = free_head b"
proof -
  note D = bb_invD [OF inv]
  obtain k where k: "\<And>p. P \<le> p \<Longrightarrow> p < P + n \<Longrightarrow> map_get_memr (memrs b) (p * 4096) = Some k"
    using run_in_region [OF D(2) pos, of P] used by auto
  obtain b1 where b1: "map_update clear_bits b (P * 4096) n = Inr b1" "b1 = b\<lparr>memrs := memrs b1\<rparr>"
    "regions_ok (memrs b1)" "\<forall>p. managed b1 p = managed b p"
    "\<forall>p. page_free b1 p = (if P \<le> p \<and> p < P + n then \<not> False else page_free b p)"
    by (rule map_update_pages [where f = clear_bits, OF D(2) pos k clear_bits_if])
  let ?b = "b1\<lparr>nr_free_pages := nr_free_pages b1 + of_nat n\<rparr>"
  have eq: "free_head b1 = free_head b" "bb_level b1 = bb_level b" "nr_free_pages b1 = nr_free_pages b"
    using b1(2) by (metis uk_bbpalloc.ext_inject uk_bbpalloc.surjective uk_bbpalloc.update_convs(4))+
  have free: "page_free ?b p \<longleftrightarrow> page_free b p \<or> p \<in> {P..<P + n}" for p
    using b1(5) page_free_memrs [of ?b b1 p] by auto
  have set: "{p. page_free ?b p} = {p. page_free b p} \<union> {P..<P + n}" using free by blast
  have "{p. page_free b p} \<inter> {P..<P + n} = {}" using used by blast
  then have "card {p. page_free ?b p} = card {p. page_free b p} + n"
    unfolding set using card_Un_disjoint [OF finite_free [OF D(2)]] by simp
  then have cnt: "nr_free_pages ?b = of_nat (card {p. page_free ?b p})"
    using D(9) by (simp add: eq)
  have "bb_inv ?b {P..<P + n}"
  proof (rule bb_inv_bitmap [OF inv])
    show "page_free ?b p \<longleftrightarrow> p \<in> {P..<P + n} \<or> (\<exists>i c. chunk b i c \<and> p \<in> chunk_pages c i)" for p
      using free D(3) by blast
    show False if "chunk b i c" "p \<in> chunk_pages c i" "p \<in> {P..<P + n}" for i c p
      using that used [of p] D(3) [of p] by blast
  qed (use eq b1(3) cnt in simp_all)
  moreover have "map_free b (P * 4096) n = Inr ?b"
    using b1(1) by (simp add: map_free_def)
  ultimately show thesis using that free b1(4) managed_memrs [of ?b b1] eq by simp
qed

section \<open>Splitting and merging\<close>

definition aligned :: "nat \<Rightarrow> nat \<Rightarrow> bool" where
  "aligned c i \<longleftrightarrow> 2 ^ (i + PAGE_SHIFT) dvd c"

definition buddy :: "nat \<Rightarrow> nat \<Rightarrow> nat" where
  "buddy i c = (if bit c (i + PAGE_SHIFT) then c - 2 ^ (i + PAGE_SHIFT) else c + 2 ^ (i + PAGE_SHIFT))"

text \<open>No free chunk has a free buddy of its own order: everything that can be merged is.\<close>

definition coalesced :: "uk_bbpalloc \<Rightarrow> bool" where
  "coalesced b \<longleftrightarrow> (\<forall>i c. chunk b i c \<longrightarrow> \<not> chunk b i (buddy i c))"

lemma aligned_iff: "aligned c i \<longleftrightarrow> c mod 4096 = 0 \<and> 2 ^ i dvd c div 4096"
proof
  assume "aligned c i"
  then obtain q where "c = 2 ^ i * 4096 * q" by (auto simp: aligned_def PAGE_SHIFT_def power_add)
  then have "c = 4096 * (2 ^ i * q)" by simp
  then show "c mod 4096 = 0 \<and> 2 ^ i dvd c div 4096" by simp
next
  assume a: "c mod 4096 = 0 \<and> 2 ^ i dvd c div 4096"
  then obtain q where "c div 4096 = 2 ^ i * q" by (auto elim: dvdE)
  with a have "c = 2 ^ i * 4096 * q" by auto
  then show "aligned c i" by (simp add: aligned_def PAGE_SHIFT_def power_add)
qed

lemma aligned_mono: "aligned c i \<Longrightarrow> j \<le> i \<Longrightarrow> aligned c j"
  unfolding aligned_def by (meson add_le_mono1 dvd_trans le_imp_power_dvd)

text \<open>A page number determines the aligned block of an order that holds it.\<close>

lemma aligned_block:
  assumes "aligned c i"
  shows "p \<in> chunk_pages c i \<longleftrightarrow> p div 2 ^ i = c div 4096 div 2 ^ i"
proof -
  from assms obtain q where q: "c div 4096 = 2 ^ i * q" by (auto simp: aligned_iff)
  then have "p \<in> chunk_pages c i \<longleftrightarrow> q * 2 ^ i \<le> p \<and> p < Suc q * 2 ^ i"
    by (auto simp: chunk_pages_def mult.commute)
  also have "\<dots> \<longleftrightarrow> p div 2 ^ i = q"
    by (auto intro: div_nat_eqI simp: mult.commute div_times_less_eq_dividend dividend_less_times_div)
  finally show ?thesis by (simp add: q)
qed

lemma aligned_nested:
  assumes "aligned c i" "aligned d j" "i \<le> j" "p \<in> chunk_pages c i" "p \<in> chunk_pages d j"
  shows "chunk_pages c i \<subseteq> chunk_pages d j"
proof
  fix q
  assume "q \<in> chunk_pages c i"
  with assms(1,4) have "q div 2 ^ i = p div 2 ^ i" by (simp add: aligned_block)
  then have "q div 2 ^ i div 2 ^ (j - i) = p div 2 ^ i div 2 ^ (j - i)" by simp
  then have "q div 2 ^ j = p div 2 ^ j"
    using assms(3) by (simp add: div_mult2_eq [symmetric] power_add [symmetric])
  with assms(2,5) show "q \<in> chunk_pages d j" by (simp add: aligned_block)
qed

lemma aligned_same:
  assumes "aligned c i" "aligned d i" "p \<in> chunk_pages c i" "p \<in> chunk_pages d i"
  shows "c = d"
proof -
  have "c div 4096 = d div 4096"
    using aligned_nested [OF assms(1,2) order_refl assms(3,4)]
      aligned_nested [OF assms(2,1) order_refl assms(4,3)] by (auto simp: chunk_pages_def)
  moreover have "c = 4096 * (c div 4096)" "d = 4096 * (d div 4096)"
    using assms(1,2) by (auto simp: aligned_iff)
  ultimately show ?thesis by simp
qed

subsection \<open>Buddies\<close>

lemma split_pages:
  "chunk_pages c (Suc i) = chunk_pages c i \<union> chunk_pages (c + 2 ^ (i + PAGE_SHIFT)) i"
  "chunk_pages c i \<inter> chunk_pages (c + 2 ^ (i + PAGE_SHIFT)) i = {}"
proof -
  have "(c + 2 ^ i * 4096) div 4096 = c div 4096 + 2 ^ i" by simp
  then show "chunk_pages c (Suc i) = chunk_pages c i \<union> chunk_pages (c + 2 ^ (i + PAGE_SHIFT)) i"
    "chunk_pages c i \<inter> chunk_pages (c + 2 ^ (i + PAGE_SHIFT)) i = {}"
    by (auto simp: chunk_pages_def PAGE_SHIFT_def power_add)
qed

lemma aligned_upper: "aligned c i \<Longrightarrow> aligned (c + 2 ^ (i + PAGE_SHIFT)) i"
  by (simp add: aligned_def)

lemma aligned_Suc_bit: "aligned c i \<Longrightarrow> aligned c (Suc i) \<longleftrightarrow> \<not> bit c (i + PAGE_SHIFT)"
proof -
  assume "aligned c i"
  then obtain q where q: "c = 2 ^ (i + PAGE_SHIFT) * q" by (auto simp: aligned_def)
  then show ?thesis by (auto simp: aligned_def bit_iff_odd)
qed

text \<open>The lower of two buddies, and the block that both make up.\<close>

lemma buddy_parent:
  assumes "aligned c i"
  defines "l \<equiv> if bit c (i + PAGE_SHIFT) then buddy i c else c"
  shows "aligned (buddy i c) i" "aligned l (Suc i)"
    "chunk_pages l (Suc i) = chunk_pages c i \<union> chunk_pages (buddy i c) i"
    "chunk_pages c i \<inter> chunk_pages (buddy i c) i = {}" "buddy i (buddy i c) = c"
proof -
  let ?s = "2 ^ (i + PAGE_SHIFT) :: nat"
  have *: "aligned (buddy i c) i \<and> aligned l (Suc i) \<and>
    chunk_pages l (Suc i) = chunk_pages c i \<union> chunk_pages (buddy i c) i \<and>
    chunk_pages c i \<inter> chunk_pages (buddy i c) i = {} \<and> buddy i (buddy i c) = c"
  proof (cases "bit c (i + PAGE_SHIFT)")
    case True
    then have ge: "?s \<le> c" by (metis bit_iff_odd div_less even_zero not_le)
    then have c: "c = (c - ?s) + ?s" by simp
    have al: "aligned (c - ?s) i" using assms(1) ge by (simp add: aligned_def)
    from assms(1) obtain k where k: "c = ?s * k" by (auto simp: aligned_def)
    with True have "odd k" by (simp add: bit_iff_odd)
    moreover have "c - ?s = ?s * (k - 1)" by (simp add: k diff_mult_distrib2)
    ultimately have nb: "\<not> bit (c - ?s) (i + PAGE_SHIFT)" by (simp add: bit_iff_odd)
    with al have "aligned (c - ?s) (Suc i)" by (simp add: aligned_Suc_bit)
    with al nb True c split_pages [of "c - ?s" i] show ?thesis
      by (auto simp: l_def buddy_def)
  next
    case False
    then have "aligned c (Suc i)" by (simp add: aligned_Suc_bit assms(1))
    moreover have "bit (c + ?s) (i + PAGE_SHIFT)"
      using assms(1) False by (auto simp: aligned_def bit_iff_odd elim!: dvdE)
    ultimately show ?thesis using False split_pages [of c i] aligned_upper [OF assms(1)]
      by (auto simp: l_def buddy_def)
  qed
  then show "aligned (buddy i c) i" "aligned l (Suc i)"
    "chunk_pages l (Suc i) = chunk_pages c i \<union> chunk_pages (buddy i c) i"
    "chunk_pages c i \<inter> chunk_pages (buddy i c) i = {}" "buddy i (buddy i c) = c" by blast+
qed

lemma chunk_aligned: "bb_inv b H \<Longrightarrow> chunk b i c \<Longrightarrow> aligned c i"
  unfolding aligned_def by (rule bb_invD(4))

text \<open>
  The test in the merge loop recognises exactly the free chunks: a free page at the buddy's
  address is the first page of a chunk, because a larger chunk around it would overlap the
  block being freed.
\<close>

lemma merge_test:
  assumes inv: "bb_inv b (chunk_pages c i)" and al: "aligned c i" and i: "i < FREELIST_SIZE"
  shows "\<not> allocated_in_map b (buddy i c) \<and> bb_level b (buddy i c) = i \<longleftrightarrow> chunk b i (buddy i c)"
proof
  note D = bb_invD [OF inv] and B = buddy_parent [OF al]
  let ?p = "buddy i c div 4096"
  have addr: "buddy i c = ?p * 4096" using B(1) by (auto simp: aligned_iff)
  have first: "?p \<in> chunk_pages (buddy i c) i" by simp
  {
    assume t: "\<not> allocated_in_map b (buddy i c) \<and> bb_level b (buddy i c) = i"
    then have "page_free b ?p" using addr by (simp add: page_free_def)
    moreover have "?p \<notin> chunk_pages c i" using B(4) first by blast
    ultimately obtain j d where d: "chunk b j d" "?p \<in> chunk_pages d j" using D(3) by blast
    note dal = chunk_aligned [OF inv d(1)]
    have "\<not> i < j"
    proof
      assume "i < j"
      have "chunk_pages (if bit c (i + PAGE_SHIFT) then buddy i c else c) (Suc i) \<subseteq> chunk_pages d j"
        by (rule aligned_nested [OF B(2) dal _ _ d(2)]) (use \<open>i < j\<close> B(3) first in auto)
      then have "c div 4096 \<in> chunk_pages d j" using B(3) by auto
      then show False by (rule D(6) [OF d(1) _ chunk_pages_first])
    qed
    then have ji: "j \<le> i" by simp
    have "d = buddy i c"
      by (rule aligned_same [OF dal aligned_mono [OF B(1) ji] d(2)]) simp
    with d(1) D(5) [OF d(1)] t show "chunk b i (buddy i c)" by simp
  next
    assume ch: "chunk b i (buddy i c)"
    then have "page_free b ?p" using D(3) first by blast
    with addr D(5) [OF ch] show "\<not> allocated_in_map b (buddy i c) \<and> bb_level b (buddy i c) = i"
      by (simp add: page_free_def)
  }
qed

section \<open>Allocation and release keep the invariant\<close>

lemma find_list_spec:
  "order \<le> FREELIST_SIZE \<Longrightarrow> order \<le> find_list fh order \<and> find_list fh order \<le> FREELIST_SIZE \<and>
     (\<forall>j. order \<le> j \<and> j < find_list fh order \<longrightarrow> fh ! j = []) \<and>
     (find_list fh order < FREELIST_SIZE \<longrightarrow> fh ! find_list fh order \<noteq> [])"
proof (induction fh order rule: find_list.induct)
  case (1 fh i)
  show ?case
  proof (cases "i < FREELIST_SIZE \<and> fh ! i = []")
    case True
    with 1 have "i + 1 \<le> find_list fh (i + 1) \<and> find_list fh (i + 1) \<le> FREELIST_SIZE \<and>
      (\<forall>j. i + 1 \<le> j \<and> j < find_list fh (i + 1) \<longrightarrow> fh ! j = []) \<and>
      (find_list fh (i + 1) < FREELIST_SIZE \<longrightarrow> fh ! find_list fh (i + 1) \<noteq> [])" by simp
    moreover from True have "find_list fh i = find_list fh (i + 1)" by (subst find_list.simps) simp
    moreover have "fh ! j = []" if "i \<le> j" "\<not> i + 1 \<le> j" for j
    proof -
      from that have "j = i" by simp
      with True show ?thesis by simp
    qed
    ultimately show ?thesis by auto
  next
    case False
    then have "find_list fh i = i" by (subst find_list.simps) (simp only: if_False)
    with False 1(2) show ?thesis by auto
  qed
qed

lemma coalesced_link:
  assumes inv: "bb_inv b H" and i: "i < FREELIST_SIZE" and al: "aligned c i"
    and co: "coalesced b" and no: "\<not> chunk b i (buddy i c)"
  shows "coalesced (link_chunk i c b)"
proof -
  note ch = chunk_link [OF bb_invD(1) [OF inv] i]
  note B = buddy_parent [OF al]
  have "buddy i c \<noteq> c" using B(4) chunk_pages_first [of c i] by (metis IntI empty_iff)
  moreover have "d = buddy i c" if "chunk b i d" "buddy i d = c" for d
    using buddy_parent(5) [OF chunk_aligned [OF inv that(1)]] that(2) by simp
  ultimately show ?thesis using co no unfolding coalesced_def ch by metis
qed

lemma coalesced_unlink:
  assumes inv: "bb_inv b H" and i: "i < FREELIST_SIZE" and co: "coalesced b"
  shows "coalesced (unlink_chunk i c b)"
  using co chunk_unlink [OF bb_invD(1) [OF inv] i bb_invD(8) [OF inv i]]
  unfolding coalesced_def by blast

lemma split_chunk_inv:
  assumes "bb_inv b (chunk_pages c i)" "aligned c i" "order \<le> i" "i < FREELIST_SIZE" "coalesced b"
  shows "bb_inv (split_chunk c order i b) (chunk_pages c order) \<and> coalesced (split_chunk c order i b) \<and>
    memrs (split_chunk c order i b) = memrs b"
  using assms
proof (induction i arbitrary: b)
  case 0
  then show ?case by simp
next
  case (Suc i)
  show ?case
  proof (cases "Suc i = order")
    case True
    then have "split_chunk c order (Suc i) b = b" unfolding split_chunk.simps by simp
    with Suc.prems True show ?thesis by simp
  next
    case False
    let ?d = "c + 2 ^ (i + PAGE_SHIFT)"
    have ali: "aligned c i" using Suc.prems(2) aligned_mono by simp
    have al: "aligned ?d i" by (rule aligned_upper [OF ali])
    have nb: "\<not> bit c (i + PAGE_SHIFT)" using Suc.prems(2) aligned_Suc_bit [OF ali] by simp
    have "buddy i c = ?d" using nb by (simp add: buddy_def)
    then have bd: "buddy i ?d = c" using buddy_parent(5) [OF ali] by simp
    have i: "i < FREELIST_SIZE" using Suc.prems(4) by simp
    have hole: "bb_inv b (chunk_pages ?d i \<union> chunk_pages c i)"
      using Suc.prems(1) split_pages(1) [of c i] by (simp add: Un_commute)
    have inv: "bb_inv (link_chunk i ?d b) (chunk_pages c i)"
      by (rule bb_inv_link [OF hole _ i al [unfolded aligned_def]]) (use split_pages(2) [of c i] in blast)
    have "\<not> chunk b i c" using bb_invD(6) [OF hole, of i c "c div 4096"] by auto
    then have co: "coalesced (link_chunk i ?d b)"
      by (intro coalesced_link [OF hole i al Suc.prems(5)]) (simp add: bd)
    from Suc.IH [OF inv ali _ i co] False Suc.prems(3) show ?thesis by (simp add: bb_simps)
  qed
qed

text \<open>Splitting pages off: every aligned block of free pages lies inside one chunk.\<close>

lemma free_block_in_chunk:
  assumes inv: "bb_inv b {}" and co: "coalesced b" and al: "aligned c i"
    and free: "\<And>p. p \<in> chunk_pages c i \<Longrightarrow> page_free b p"
  shows "\<exists>j d. chunk b j d \<and> i \<le> j \<and> chunk_pages c i \<subseteq> chunk_pages d j"
  using al free
proof (induction i arbitrary: c)
  case 0
  from 0(2) [of "c div 4096"] obtain j d where d: "chunk b j d" "c div 4096 \<in> chunk_pages d j"
    using bb_invD(3) [OF inv] by auto
  then show ?case by (intro exI [of _ j] exI [of _ d]) (auto simp: chunk_pages_def)
next
  case (Suc i)
  let ?d = "c + 2 ^ (i + PAGE_SHIFT)"
  have al: "aligned c i" "aligned ?d i"
    using aligned_mono [OF Suc.prems(1)] aligned_upper by simp_all
  have nb: "\<not> bit c (i + PAGE_SHIFT)" using Suc.prems(1) aligned_Suc_bit [OF al(1)] by simp
  note sp = split_pages [of c i]
  from Suc.IH [OF al(1)] Suc.prems(2) sp(1) obtain j e
    where e: "chunk b j e" "i \<le> j" "chunk_pages c i \<subseteq> chunk_pages e j" by blast
  from Suc.IH [OF al(2)] Suc.prems(2) sp(1) obtain k f
    where f: "chunk b k f" "i \<le> k" "chunk_pages ?d i \<subseteq> chunk_pages f k" by blast
  have firsts: "c div 4096 \<in> chunk_pages c (Suc i)" "?d div 4096 \<in> chunk_pages c (Suc i)"
    "c div 4096 \<in> chunk_pages e j" "?d div 4096 \<in> chunk_pages f k"
    using sp(1) e(3) f(3) chunk_pages_first [of c i] chunk_pages_first [of ?d i] by blast+
  consider "i < j" | "i < k" | "i = j" "i = k" using e(2) f(2) by linarith
  then show ?case
  proof cases
    case 1
    then have "chunk_pages c (Suc i) \<subseteq> chunk_pages e j"
      by (intro aligned_nested [OF Suc.prems(1) chunk_aligned [OF inv e(1)] _ firsts(1,3)]) simp
    with 1 e(1) show ?thesis by (intro exI [of _ j] exI [of _ e]) simp
  next
    case 2
    then have "chunk_pages c (Suc i) \<subseteq> chunk_pages f k"
      by (intro aligned_nested [OF Suc.prems(1) chunk_aligned [OF inv f(1)] _ firsts(2,4)]) simp
    with 2 f(1) show ?thesis by (intro exI [of _ k] exI [of _ f]) simp
  next
    case 3
    have "c = e" using aligned_same [OF al(1), of e "c div 4096"] chunk_aligned [OF inv e(1)] firsts(3) 3
      by auto
    moreover have "?d = f" using aligned_same [OF al(2), of f "?d div 4096"] chunk_aligned [OF inv f(1)] firsts(4) 3
      by auto
    ultimately have "chunk b i c" "chunk b i (buddy i c)" using e(1) f(1) 3 nb by (simp_all add: buddy_def)
    with co show ?thesis by (simp add: coalesced_def)
  qed
qed

lemma chunk_order_less:
  assumes ok: "regions_ok (memrs b)" and run: "\<And>p. p \<in> chunk_pages c i \<Longrightarrow> managed b p"
  shows "i < FREELIST_SIZE" "c div 4096 \<noteq> 0"
proof -
  let ?P = "c div 4096"
  obtain k where k: "\<And>p. ?P \<le> p \<Longrightarrow> p < ?P + 2 ^ i \<Longrightarrow> map_get_memr (memrs b) (p * 4096) = Some k"
    using run_in_region [OF ok, of "2 ^ i" ?P] run by (auto simp: chunk_pages_def)
  have "(1::nat) \<le> 2 ^ i" by simp
  then have last: "?P \<le> ?P + 2 ^ i - 1" "?P + 2 ^ i - 1 < ?P + 2 ^ i" by linarith+
  note f = map_get_memr_SomeD [OF k [of ?P]] and l = map_get_memr_SomeD [OF k [OF last]]
  have "memr_ok (memrs b ! k)" using ok f by (auto simp: regions_ok_def)
  then have m: "0 < first_page (memrs b ! k)" "memr_end (memrs b ! k) \<le> 2 ^ 64" by (simp_all add: memr_ok_def)
  from f m show nz: "?P \<noteq> 0" by (cases "?P = 0") auto
  have "(?P + 2 ^ i - 1) * 4096 < 2 ^ 64" using l m by auto
  then have "?P + 2 ^ i - 1 < 2 ^ 52" by simp
  with nz have "(2::nat) ^ i < 2 ^ 52" by linarith
  then have "i < 52" by (simp only: power_strict_increasing_iff)
  then show "i < FREELIST_SIZE" by (simp add: FREELIST_SIZE_def)
qed

text \<open>
  The states between two calls: the invariant holds without a hole, and all buddies are merged.
\<close>

definition bb_ok :: "uk_bbpalloc \<Rightarrow> bool" where
  "bb_ok b \<longleftrightarrow> bb_inv b {} \<and> coalesced b"

definition free_pages :: "uk_bbpalloc \<Rightarrow> nat set" where
  "free_pages b = {p. page_free b p}"

text \<open>
  A request succeeds exactly when some aligned block of free pages is large enough; the block
  handed out was free, is marked allocated, and nothing else changes.
\<close>

lemma palloc_fails:
  assumes ok: "bb_ok b" and k: "num_pages_to_order n = Inr k" "k \<le> FREELIST_SIZE"
    and none: "find_list (free_head b) k = FREELIST_SIZE"
  shows "bbuddy_palloc b n = Inr (0, b)" "\<nexists>c. aligned c k \<and> chunk_pages c k \<subseteq> free_pages b"
proof -
  show "bbuddy_palloc b n = Inr (0, b)" by (simp add: bbuddy_palloc_def k none)
  show "\<nexists>c. aligned c k \<and> chunk_pages c k \<subseteq> free_pages b"
  proof
    assume "\<exists>c. aligned c k \<and> chunk_pages c k \<subseteq> free_pages b"
    then obtain c where c: "aligned c k" "chunk_pages c k \<subseteq> free_pages b" by blast
    have "page_free b p" if "p \<in> chunk_pages c k" for p using c(2) that by (auto simp: free_pages_def)
    from free_block_in_chunk [OF _ _ c(1) this] ok obtain j d where "chunk b j d" "k \<le> j"
      by (auto simp: bb_ok_def)
    with find_list_spec [OF k(2), of "free_head b"] none show False by (auto simp: chunk_def)
  qed
qed

lemma palloc_succeeds:
  assumes ok: "bb_ok b" and k: "num_pages_to_order n = Inr k" "k \<le> FREELIST_SIZE"
    and some: "find_list (free_head b) k \<noteq> FREELIST_SIZE"
  obtains c b' where "bbuddy_palloc b n = Inr (c, b')" "c \<noteq> 0" "aligned c k" "chunk_pages c k \<subseteq> free_pages b"
    "bb_ok b'" "free_pages b' = free_pages b - chunk_pages c k" "managed b' = managed b"
proof -
  let ?i = "find_list (free_head b) k" and ?c = "hd (free_head b ! find_list (free_head b) k)"
  from find_list_spec [OF k(2), of "free_head b"] some
  have i: "k \<le> ?i" "?i < FREELIST_SIZE" "free_head b ! ?i \<noteq> []" by auto
  then have c: "chunk b ?i ?c" by (simp add: chunk_def)
  have inv: "bb_inv b {}" and co: "coalesced b" using ok by (auto simp: bb_ok_def)
  note al = chunk_aligned [OF inv c]
  note D = bb_invD [OF inv]
  let ?b1 = "unlink_chunk ?i ?c b"
  have inv1: "bb_inv ?b1 (chunk_pages ?c ?i)" using bb_inv_unlink [OF inv c] by simp
  let ?b2 = "split_chunk ?c k ?i ?b1"
  from split_chunk_inv [OF inv1 al i(1,2) coalesced_unlink [OF inv i(2) co]]
  have b2: "bb_inv ?b2 (chunk_pages ?c k)" "coalesced ?b2" "memrs ?b2 = memrs b"
    by (simp_all add: bb_simps)
  have free2: "page_free ?b2 p = page_free b p" "managed ?b2 p = managed b p" for p
    using b2(3) by (rule page_free_memrs, rule managed_memrs)
  have c0: "?c mod 4096 = 0" using al by (simp add: aligned_iff)
  obtain b3 where b3: "map_alloc ?b2 ?c (2 ^ k) = Inr b3" "bb_inv b3 {}"
    "\<And>p. page_free b3 p \<longleftrightarrow> page_free ?b2 p \<and> p \<notin> chunk_pages ?c k"
    "\<And>p. managed b3 p = managed ?b2 p" "free_head b3 = free_head ?b2"
    using map_alloc_inv [OF b2(1) c0] by blast
  have sub: "chunk_pages ?c ?i \<subseteq> free_pages b" using D(3) c by (auto simp: free_pages_def)
  show thesis
  proof (rule that)
    show "bbuddy_palloc b n = Inr (?c, b3)" using b3(1) i(2) by (simp add: bbuddy_palloc_def k Let_def)
    have "managed b p" if "p \<in> chunk_pages ?c ?i" for p
      using that sub page_free_managed by (auto simp: free_pages_def)
    then show "?c \<noteq> 0" using chunk_order_less(2) [OF D(2)] by fastforce
    show "aligned ?c k" using aligned_mono [OF al i(1)] .
    have "chunk_pages ?c k \<subseteq> chunk_pages ?c ?i"
      using power_increasing [OF i(1), of "2::nat"] by (auto simp: chunk_pages_def)
    with sub show "chunk_pages ?c k \<subseteq> free_pages b" by blast
    show "bb_ok b3" using b3(2,5) b2(2) by (simp add: bb_ok_def coalesced_def chunk_def)
    show "free_pages b3 = free_pages b - chunk_pages ?c k" using b3(3) free2 by (auto simp: free_pages_def)
    show "managed b3 = managed b" using b3(4) free2 by (simp add: fun_eq_iff)
  qed
qed

lemma merge_chunk_inv:
  assumes "bb_inv b (chunk_pages c k)" "aligned c k" "coalesced b" "merge_chunk c k b = (c', k', b')"
  shows "bb_inv b' (chunk_pages c' k') \<and> aligned c' k' \<and> coalesced b' \<and> memrs b' = memrs b \<and>
    k' < FREELIST_SIZE \<and> \<not> chunk b' k' (buddy k' c')"
  using assms
proof (induction c k b rule: merge_chunk.induct)
  case (1 c k b)
  note inv = "1.prems"(1) and al = "1.prems"(2) and co = "1.prems"(3)
  note D = bb_invD [OF inv]
  have "managed b p" if "p \<in> chunk_pages c k" for p using that D(3) page_free_managed by blast
  then have k: "k < FREELIST_SIZE" by (rule chunk_order_less(1) [OF D(2)])
  have tm: "(if bit c (k + PAGE_SHIFT) then c - 2 ^ (k + PAGE_SHIFT) else c + 2 ^ (k + PAGE_SHIFT)) = buddy k c"
    by (simp add: buddy_def)
  note B = buddy_parent [OF al]
  show ?case
  proof (cases "chunk b k (buddy k c)")
    case False
    then have "merge_chunk c k b = (c, k, b)"
      using merge_test [OF inv al k] k by (subst merge_chunk.simps) (auto simp: Let_def tm)
    with "1.prems" k False show ?thesis by simp
  next
    case True
    let ?b = "unlink_chunk k (buddy k c) b" and ?l = "if bit c (k + PAGE_SHIFT) then buddy k c else c"
    from True merge_test [OF inv al k]
    have nt: "\<not> (allocated_in_map b (buddy k c) \<or> bb_level b (buddy k c) \<noteq> k)" by simp
    have rec: "merge_chunk c k b = merge_chunk ?l (k + 1) ?b"
      using k nt by (subst merge_chunk.simps) (simp add: Let_def tm, simp add: buddy_def)
    have inv': "bb_inv ?b (chunk_pages ?l (k + 1))"
      using bb_inv_unlink [OF inv True] B(3) by (simp add: Un_commute)
    have "bb_inv b' (chunk_pages c' k') \<and> aligned c' k' \<and> coalesced b' \<and> memrs b' = memrs ?b \<and>
        k' < FREELIST_SIZE \<and> \<not> chunk b' k' (buddy k' c')"
      by (rule "1.IH" [OF k refl refl nt [folded tm], unfolded tm, OF inv'])
        (use B(2) coalesced_unlink [OF inv k co] "1.prems"(4) rec in simp_all)
    then show ?thesis by (simp add: bb_simps)
  qed
qed

lemma pfree_ok:
  assumes ok: "bb_ok b" and k: "num_pages_to_order n = Inr k" and al: "aligned c k"
    and used: "\<And>p. p \<in> chunk_pages c k \<Longrightarrow> managed b p \<and> \<not> page_free b p"
  obtains b' where "bbuddy_pfree b c n = Inr b'" "bb_ok b'" "free_pages b' = free_pages b \<union> chunk_pages c k"
    "managed b' = managed b"
proof -
  have inv: "bb_inv b {}" and co: "coalesced b" using ok by (auto simp: bb_ok_def)
  have c0: "c mod 4096 = 0" and cP: "c = c div 4096 * 4096" using al by (auto simp: aligned_iff)
  have used': "\<And>p. p \<in> {c div 4096..<c div 4096 + 2 ^ k} \<Longrightarrow> managed b p \<and> \<not> page_free b p"
    using used by (simp add: chunk_pages_def)
  obtain b1 where b1: "map_free b c (2 ^ k) = Inr b1" "bb_inv b1 (chunk_pages c k)"
    "\<And>p. page_free b1 p \<longleftrightarrow> page_free b p \<or> p \<in> chunk_pages c k"
    "\<And>p. managed b1 p = managed b p" "free_head b1 = free_head b"
    using map_free_inv [where P = "c div 4096" and n = "2 ^ k", OF inv _ used', folded cP chunk_pages_def]
    by (auto simp: chunk_pages_def)
  have co1: "coalesced b1" using co b1(5) by (simp add: coalesced_def chunk_def)
  obtain c' k' b2 where m: "merge_chunk c k b1 = (c', k', b2)" by (cases "merge_chunk c k b1") auto
  note M = merge_chunk_inv [OF b1(2) al co1 m]
  let ?b = "link_chunk k' c' b2"
  have memrs: "memrs ?b = memrs b1" using M by (simp add: bb_simps)
  show thesis
  proof (rule that)
    show "bbuddy_pfree b c n = Inr ?b" using b1(1) M by (simp add: bbuddy_pfree_def k c0 PAGE_SIZE_def m)
    have "bb_inv ?b {}" using M by (intro bb_inv_link) (simp_all add: aligned_def)
    moreover have "coalesced ?b" using M by (intro coalesced_link [where H = "chunk_pages c' k'"]) simp_all
    ultimately show "bb_ok ?b" by (simp add: bb_ok_def)
    show "free_pages ?b = free_pages b \<union> chunk_pages c k"
      using b1(3) page_free_memrs [OF memrs] by (auto simp: free_pages_def)
    show "managed ?b = managed b" using b1(4) managed_memrs [OF memrs] by (simp add: fun_eq_iff)
  qed
qed

text \<open>In a state between two calls the free pages determine the chunks.\<close>

lemma chunks_determined:
  assumes ok: "bb_ok b" "bb_ok b'" and eq: "free_pages b' = free_pages b" and c: "chunk b i c"
  shows "chunk b' i c"
proof -
  have inv: "bb_inv b {}" "bb_inv b' {}" and co: "coalesced b" "coalesced b'" using ok by (auto simp: bb_ok_def)
  have in_free: "page_free b' p = page_free b p" for p using eq by (auto simp: free_pages_def)
  have "page_free b' p" if "p \<in> chunk_pages c i" for p
    using that c bb_invD(3) [OF inv(1)] in_free by blast
  from free_block_in_chunk [OF inv(2) co(2) chunk_aligned [OF inv(1) c] this]
  obtain j d where d: "chunk b' j d" "i \<le> j" "chunk_pages c i \<subseteq> chunk_pages d j" by blast
  have "page_free b p" if "p \<in> chunk_pages d j" for p
    using that d(1) bb_invD(3) [OF inv(2)] in_free by blast
  from free_block_in_chunk [OF inv(1) co(1) chunk_aligned [OF inv(2) d(1)] this]
  obtain k e where e: "chunk b k e" "j \<le> k" "chunk_pages d j \<subseteq> chunk_pages e k" by blast
  have "c div 4096 \<in> chunk_pages e k" using d(3) e(3) chunk_pages_first by blast
  then have "i = k" "c = e" using bb_invD(7) [OF inv(1) c e(1) chunk_pages_first] by auto
  with d e have "j = i" by simp
  have "d = c"
    using aligned_same [OF chunk_aligned [OF inv(2) d(1)], of c "c div 4096"] chunk_aligned [OF inv(1) c] \<open>j = i\<close>
      d(3) chunk_pages_first [of c i] by blast
  with d(1) \<open>j = i\<close> show ?thesis by simp
qed

end
