(* ===== verification/Bbuddy_Memory.thy ===== *)
theory Bbuddy_Memory
  imports Bbuddy_Chunks
begin

text \<open>
  Memory for the buddy allocator: \<^verbatim>\<open>bbuddy_addmem\<close> cuts a region into aligned chunks and
  establishes the invariant, and so does \<^verbatim>\<open>uk_allocbbuddy_init\<close>. The properties of the
  allocator and a concrete allocator follow.
\<close>

section \<open>Adding memory\<close>

lemma chunk_shift_spec:
  "2 ^ i \<le> rng \<Longrightarrow> i \<le> chunk_shift mn rng i \<and> 2 ^ chunk_shift mn rng i \<le> rng \<and>
     (\<forall>l. i \<le> l \<and> l < chunk_shift mn rng i \<longrightarrow> \<not> bit mn l) \<and>
     (bit mn (chunk_shift mn rng i) \<or> rng < 2 ^ (chunk_shift mn rng i + 1))"
proof (induction mn rng i rule: chunk_shift.induct)
  case (1 mn rng i)
  show ?case
  proof (cases "2 ^ (i + 1) \<le> rng \<and> \<not> bit mn i")
    case True
    then have eq: "chunk_shift mn rng i = chunk_shift mn rng (i + 1)" by (subst chunk_shift.simps) simp
    have "\<not> bit mn l" if "i \<le> l" "\<not> i + 1 \<le> l" for l
    proof -
      from that have "l = i" by simp
      with True show ?thesis by simp
    qed
    then show ?thesis using 1 True unfolding eq by (metis Suc_eq_plus1 Suc_leD)
  next
    case False
    then have "chunk_shift mn rng i = i" by (subst chunk_shift.simps) (simp only: if_False)
    with False 1(2) show ?thesis by auto
  qed
qed

text \<open>The chosen chunk starts at a multiple of its size.\<close>

lemma aligned_bits:
  assumes "mn mod 4096 = 0" "\<And>l. 12 \<le> l \<Longrightarrow> l < 12 + k \<Longrightarrow> \<not> bit mn l"
  shows "aligned mn k"
  using assms
proof (induction k)
  case 0
  then show ?case by (auto simp: aligned_def PAGE_SHIFT_def)
next
  case (Suc k)
  then have al: "aligned mn k" by simp
  show ?case using Suc.prems(2) [of "12 + k"] aligned_Suc_bit [OF al] by (simp add: PAGE_SHIFT_def add.commute)
qed

text \<open>
  What keeps the chunks merged while they are linked: a chunk that ends where the rest begins
  is not the lower buddy of a block of the rest.
\<close>

definition rest_ok :: "nat \<Rightarrow> nat \<Rightarrow> uk_bbpalloc \<Rightarrow> bool" where
  "rest_ok mn rng b \<longleftrightarrow>
     (\<forall>i. aligned mn i \<and> bit mn (i + PAGE_SHIFT) \<and> 2 ^ (i + PAGE_SHIFT) \<le> rng \<longrightarrow>
        \<not> chunk b i (mn - 2 ^ (i + PAGE_SHIFT))) \<and>
     (\<forall>p. p = (mn + rng) div 4096 \<longrightarrow> \<not> page_free b p)"

lemma add_chunks_inv:
  assumes "bb_inv b {mn div 4096..<(mn + rng) div 4096}" "coalesced b" "rest_ok mn rng b"
    and "mn mod 4096 = 0" "rng mod 4096 = 0" "rng < 2 ^ 63"
  shows "\<exists>b'. add_chunks mn rng b = Inr b' \<and> bb_ok b' \<and> memrs b' = memrs b"
  using assms
proof (induction mn rng b rule: add_chunks.induct)
  case (1 mn rng b)
  note inv = "1.prems"(1) and co = "1.prems"(2) and rest = "1.prems"(3)
  show ?case
  proof (cases "rng = 0")
    case True
    with inv co show ?thesis by (subst add_chunks.simps) (simp add: bb_ok_def)
  next
    case False
    define j where "j = chunk_shift mn rng PAGE_SHIFT"
    define k where "k = j - PAGE_SHIFT"
    from "1.prems"(4,5) obtain P R where PR: "mn = 4096 * P" "rng = 4096 * R" by (auto elim!: dvdE)
    with False have "2 ^ PAGE_SHIFT \<le> rng" by (simp add: PAGE_SHIFT_def)
    note S = chunk_shift_spec [OF this, of mn, folded j_def]
    then have j: "j = k + PAGE_SHIFT" by (simp add: k_def)
    have "2 ^ j < (2::nat) ^ 63" using S "1.prems"(6) by linarith
    then have j63: "j < 63" by (simp only: power_strict_increasing_iff)
    then have k: "k < FREELIST_SIZE" using j by (simp add: FREELIST_SIZE_def PAGE_SHIFT_def)
    have al: "aligned mn k"
      by (rule aligned_bits [OF "1.prems"(4)]) (use S j in \<open>auto simp: PAGE_SHIFT_def\<close>)
    have sz: "2 ^ j = 4096 * (2::nat) ^ k" by (subst j) (simp add: PAGE_SHIFT_def power_add)
    have kR: "2 ^ k \<le> R" using S sz PR by simp
    have pages: "chunk_pages mn k = {P..<P + 2 ^ k}" by (simp add: chunk_pages_def PR)
    let ?b = "link_chunk k mn b"
    define mn' rng' where "mn' = mn + 2 ^ j" and "rng' = rng - 2 ^ j"
    have next_eq: "mn' = 4096 * (P + 2 ^ k)" "rng' = 4096 * (R - 2 ^ k)" "mn' + rng' = mn + rng"
      using sz kR by (simp_all add: PR diff_mult_distrib2 mn'_def rng'_def)
    have divs: "(mn' + rng') div 4096 = P + R" "mn' div 4096 = P + 2 ^ k"
      unfolding next_eq(3) by (simp add: PR) (simp add: next_eq(1))
    have ends: "mn div 4096 = P" "(mn + rng) div 4096 = P + R" by (simp_all add: PR)
    have hole: "{mn div 4096..<(mn + rng) div 4096} = chunk_pages mn k \<union> {mn' div 4096..<(mn' + rng') div 4096}"
      using kR unfolding divs pages by (auto simp: PR)
    have inv': "bb_inv ?b {mn' div 4096..<(mn' + rng') div 4096}"
    proof (rule bb_inv_link [OF inv [unfolded hole] _ k al [unfolded aligned_def]])
      show "chunk_pages mn k \<inter> {mn' div 4096..<(mn' + rng') div 4096} = {}"
        unfolding next_eq(1) pages by auto
    qed
    have no: "\<not> chunk b k (buddy k mn)"
    proof (cases "bit mn (k + PAGE_SHIFT)")
      case True
      with rest al S j show ?thesis by (auto simp: rest_ok_def buddy_def)
    next
      case F: False
      then have bd: "buddy k mn = mn'" using j by (simp add: buddy_def mn'_def)
      show ?thesis
      proof
        assume ch: "chunk b k (buddy k mn)"
        then have fr: "page_free b (P + 2 ^ k)" "P + 2 ^ k \<notin> {mn div 4096..<(mn + rng) div 4096}"
          using bb_invD(3,6) [OF inv] chunk_pages_first [of mn' k] bd next_eq(1) by auto
        then have "P + 2 ^ k = (mn + rng) div 4096" using kR by (auto simp: PR)
        with rest fr(1) show False by (simp add: rest_ok_def)
      qed
    qed
    have co': "coalesced ?b" by (rule coalesced_link [OF inv k al co no])
    have rest': "rest_ok mn' rng' ?b"
      unfolding rest_ok_def
    proof (intro conjI allI impI)
      fix i
      assume i: "aligned mn' i \<and> bit mn' (i + PAGE_SHIFT) \<and> 2 ^ (i + PAGE_SHIFT) \<le> rng'"
      show "\<not> chunk ?b i (mn' - 2 ^ (i + PAGE_SHIFT))"
      proof
        assume "chunk ?b i (mn' - 2 ^ (i + PAGE_SHIFT))"
        then consider (old) "chunk b i (mn' - 2 ^ (i + PAGE_SHIFT))" | (new) "i = k" "mn' - 2 ^ (i + PAGE_SHIFT) = mn"
          unfolding chunk_link [OF bb_invD(1) [OF inv] k] by blast
        then show False
        proof cases
          case new
          have "mn' div 2 ^ j = mn div 2 ^ j + 1" unfolding mn'_def by (rule div_add_self2) simp
          then have "\<not> bit mn j" using i new(1) j by (simp add: bit_iff_odd)
          then have "rng < 2 ^ (j + 1)" using S by blast
          moreover have "2 ^ j \<le> rng'" using i new(1) j by simp
          ultimately show False by (simp add: rng'_def)
        next
          case old
          have "2 ^ (i + PAGE_SHIFT) \<le> mn'" using i by (metis bit_iff_odd div_less even_zero not_le)
          then have "4096 * (2::nat) ^ i \<le> 4096 * (P + 2 ^ k)"
            unfolding next_eq(1) by (simp add: PAGE_SHIFT_def power_add)
          then have le: "2 ^ i \<le> P + 2 ^ k" by simp
          have ones: "(1::nat) \<le> 2 ^ i" "(1::nat) \<le> 2 ^ k" by simp_all
          from le have "(mn' - 2 ^ (i + PAGE_SHIFT)) div 4096 = P + 2 ^ k - 2 ^ i"
            unfolding next_eq(1) by (simp add: PAGE_SHIFT_def power_add diff_mult_distrib2 [symmetric] mult.commute)
          then have "P + 2 ^ k - 1 \<in> chunk_pages (mn' - 2 ^ (i + PAGE_SHIFT)) i"
            using le ones unfolding chunk_pages_def atLeastLessThan_iff by linarith
          moreover have "P + 2 ^ k - 1 \<in> {mn div 4096..<(mn + rng) div 4096}"
            unfolding atLeastLessThan_iff ends using kR ones by linarith
          ultimately show False by (rule bb_invD(6) [OF inv old])
        qed
      qed
    next
      fix p
      assume "p = (mn' + rng') div 4096"
      with rest next_eq(3) show "\<not> page_free ?b p" by (simp add: rest_ok_def bb_simps)
    qed
    have ge: "\<not> 63 \<le> j" "\<not> rng < 2 ^ j" using j63 S by auto
    have "\<exists>b'. add_chunks mn' rng' ?b = Inr b' \<and> bb_ok b' \<and> memrs b' = memrs ?b"
      by (rule "1.IH" [folded j_def, OF False refl, folded j_def k_def, OF ge, folded mn'_def rng'_def, OF inv' co' rest'])
        (use "1.prems"(6) next_eq(1,2) in \<open>simp_all add: rng'_def\<close>)
    moreover have "add_chunks mn rng b = add_chunks mn' rng' ?b"
      using False ge by (subst add_chunks.simps) (simp add: Let_def j_def k_def mn'_def rng'_def)
    ultimately show ?thesis by (simp add: bb_simps)
  qed
qed

text \<open>
  How a region of \<open>R\<close> pages is divided: the bitmap takes exactly the pages that are not
  handed to the free lists, except when \<open>R + 319\<close> is a multiple of 32769.
\<close>

lemma region_division:
  fixes R nr e :: nat
  assumes R: "2 \<le> R" and nr: "nr = 8 * (4096 * R - 40) div 32769" and e: "e = (nr + 7) div 8"
  shows "nr < R" "0 < nr" "40 + e \<le> 4096 * (R - nr)"
    "\<not> 32769 dvd (R + 319) \<Longrightarrow> (40 + e + 4095) div 4096 = R - nr"
proof -
  let ?x = "8 * (4096 * R - 40)"
  have "32769 * nr \<le> ?x" "?x < 32769 * nr + 32769"
    using div_times_less_eq_dividend [of ?x 32769] dividend_less_div_times [of 32769 ?x] nr by simp_all
  then have q: "32769 * nr + 320 \<le> 32768 * R" "32768 * R < 32769 * nr + 33089" using R by linarith+
  then show lt: "nr < R" by linarith
  show "0 < nr" using q(2) R by linarith
  define k where "k = R - nr"
  then have k: "R = nr + k" using lt by simp
  have e8: "8 * e \<le> nr + 7" "nr \<le> 8 * e"
    using div_times_less_eq_dividend [of "nr + 7" 8] dividend_less_div_times [of 8 "nr + 7"] e by simp_all
  have "nr + 320 \<le> 32768 * k" using q(1) unfolding k by simp
  then have "8 * (40 + e) \<le> 8 * (4096 * k) + 7" using e8(1) by simp
  then show up: "40 + e \<le> 4096 * (R - nr)" using k by simp
  assume nd: "\<not> 32769 dvd (R + 319)"
  have "32768 * k \<noteq> nr + 33088"
  proof
    assume eq: "32768 * k = nr + 33088"
    then have "1 \<le> k" by simp
    with eq k have "R + 319 = 32769 * (k - 1)" by (simp add: diff_mult_distrib2)
    with nd show False by simp
  qed
  moreover have "32768 * k \<le> nr + 33088" using q(2) unfolding k by simp
  ultimately have "32768 * k < nr + 33088" by linarith
  then have "8 * (4096 * k) < 8 * (40 + e + 4096)" using e8(2) by simp
  then have "4096 * k < 40 + e + 4096" by simp
  then show "(40 + e + 4095) div 4096 = R - nr"
    using up k by (intro div_nat_eqI) simp_all
qed

text \<open>A new region whose bits are all set changes nothing for the pages of the other regions.\<close>

lemma bb_inv_new_region:
  assumes ok: "bb_ok b" and m: "memr_ok m" and ap: "\<forall>m' \<in> set (memrs b). apart m m'"
    and set: "\<forall>i < nr_pages m. map_bit (mm_alloc_bitmap m) i"
  defines "b' \<equiv> b\<lparr>memrs := m # memrs b\<rparr>"
  shows "bb_inv b' {}" "page_free b' p = page_free b p"
    "managed b' p \<longleftrightarrow> managed b p \<or> (first_page m \<le> p * 4096 \<and> p * 4096 < memr_end m)"
proof -
  have inv: "bb_inv b {}" using ok by (simp add: bb_ok_def)
  note D = bb_invD [OF inv]
  have apart_sym: "apart m' m = apart m m'" for m' by (auto simp: apart_def)
  have reg: "regions_ok (m # memrs b)"
    using D(2) m ap unfolding regions_ok_def
    by (auto simp: nth_Cons' apart_sym dest: nth_mem)
  have free: "page_free b' p = page_free b p" for p
  proof (cases "first_page m \<le> p * 4096 \<and> p * 4096 < memr_end m")
    case True
    then have "\<not> (first_page m' \<le> p * 4096 \<and> p * 4096 < memr_end m')" if "m' \<in> set (memrs b)" for m'
      using bspec [OF ap that] by (auto simp: apart_def)
    then have "map_get_memr (memrs b) (p * 4096) = None" by (simp add: map_get_memr_None)
    moreover have "map_bit (mm_alloc_bitmap m) ((p * 4096 - first_page m) div 4096)"
      using region_page [OF m, of p] True by (intro set [rule_format]) auto
    ultimately show ?thesis using True by (simp add: page_free_def allocated_in_map_def b'_def PAGE_SIZE_def)
  next
    case False
    then show ?thesis
      by (auto simp: page_free_def allocated_in_map_def b'_def Let_def split: option.splits)
  qed
  then show "page_free b' p = page_free b p" .
  show "bb_inv b' {}"
    by (rule bb_inv_bitmap [OF inv]) (use reg D(3,9) in \<open>simp_all add: free, simp_all add: b'_def\<close>)
  show "managed b' p \<longleftrightarrow> managed b p \<or> (first_page m \<le> p * 4096 \<and> p * 4096 < memr_end m)"
    by (auto simp: managed_def b'_def)
qed

text \<open>The page before a region belongs to no region, so the first chunk has no lower buddy.\<close>

lemma rest_ok_region:
  assumes inv: "bb_inv b H" and m: "memrs b = m # ms" and H: "H = {first_page m div 4096..<memr_end m div 4096}"
  shows "rest_ok (first_page m) (nr_pages m * 4096) b"
proof -
  note D = bb_invD [OF inv]
  have reg: "regions_ok (m # ms)" using D(2) m by simp
  then have ok: "memr_ok m" by (simp add: regions_ok_def)
  then obtain u where u: "first_page m = 4096 * u" "0 < u" by (auto simp: memr_ok_def elim!: dvdE)
  have out: "\<not> managed b p" if pu: "p + 1 = u \<or> p = u + nr_pages m" for p
  proof -
    have "\<not> (first_page m \<le> p * 4096 \<and> p * 4096 < memr_end m)" using pu u by (auto simp: memr_end_def)
    moreover have "\<not> (first_page m' \<le> p * 4096 \<and> p * 4096 < memr_end m')" if m': "m' \<in> set ms" for m'
    proof
      assume p: "first_page m' \<le> p * 4096 \<and> p * 4096 < memr_end m'"
      from m' obtain i where "i < length ms" "m' = ms ! i" by (auto simp: in_set_conv_nth)
      then have ap: "apart m m'" "memr_ok m'"
        using reg [unfolded regions_ok_def, THEN conjunct2, rule_format, of 0 "Suc i"] reg m'
        by (auto simp: regions_ok_def)
      from ap(2) obtain v where v: "first_page m' = 4096 * v" by (auto simp: memr_ok_def elim!: dvdE)
      from p v have "p * 4096 + 4096 \<le> memr_end m'" using page_step [of p v] by (auto simp: memr_end_def)
      with p ap(1) pu u show False by (auto simp: apart_def memr_end_def)
    qed
    ultimately show ?thesis by (auto simp: managed_def m map_get_memr_None)
  qed
  show ?thesis
    unfolding rest_ok_def
  proof (intro conjI allI impI notI)
    fix i
    assume i: "aligned (first_page m) i \<and> bit (first_page m) (i + PAGE_SHIFT) \<and> 2 ^ (i + PAGE_SHIFT) \<le> nr_pages m * 4096"
      and ch: "chunk b i (first_page m - 2 ^ (i + PAGE_SHIFT))"
    from i have "2 ^ (i + PAGE_SHIFT) \<le> first_page m" by (metis bit_iff_odd div_less even_zero not_le)
    then have le: "2 ^ i \<le> u" by (simp add: u PAGE_SHIFT_def power_add)
    have "(first_page m - 2 ^ (i + PAGE_SHIFT)) div 4096 = u - 2 ^ i"
      by (simp add: u PAGE_SHIFT_def power_add diff_mult_distrib2 [symmetric] mult.commute)
    then have "u - 1 \<in> chunk_pages (first_page m - 2 ^ (i + PAGE_SHIFT)) i"
      using le u(2) by (auto simp: chunk_pages_def intro: diff_le_mono2 [of 1, simplified])
    with ch have "page_free b (u - 1)" using D(3) by blast
    with out [of "u - 1"] u(2) show False by (auto dest: page_free_managed)
  next
    fix p
    assume "p = (first_page m + nr_pages m * 4096) div 4096" "page_free b p"
    with out [of p] u(1) show False by (auto dest: page_free_managed)
  qed
qed

lemma add_region:
  assumes ok: "bb_ok b" and m: "memr_ok m" and ap: "\<forall>m' \<in> set (memrs b). apart m m'"
    and set: "\<forall>i < nr_pages m. map_bit (mm_alloc_bitmap m) i"
    and pos: "0 < nr_pages m" and small: "memr_end m < 2 ^ 60"
  defines "Q \<equiv> {first_page m div 4096..<memr_end m div 4096}"
  obtains b1 b2 where "map_free (b\<lparr>memrs := m # memrs b\<rparr>) (first_page m) (nr_pages m) = Inr b1"
    "add_chunks (first_page m) (nr_pages m * 4096) b1 = Inr b2" "bb_ok b2"
    "free_pages b2 = free_pages b \<union> Q" "\<forall>p. managed b2 p \<longleftrightarrow> managed b p \<or> p \<in> Q"
proof -
  let ?b = "b\<lparr>memrs := m # memrs b\<rparr>" and ?n = "nr_pages m"
  from m obtain F where F: "first_page m = F * 4096" by (auto simp: memr_ok_def elim!: dvdE)
  have Q: "Q = {F..<F + ?n}" by (simp add: Q_def memr_end_def F)
  note new = bb_inv_new_region [OF ok m ap set]
  have in_Q: "first_page m \<le> p * 4096 \<and> p * 4096 < memr_end m \<longleftrightarrow> p \<in> Q" for p
    by (auto simp: Q F memr_end_def)
  have used: "managed ?b p \<and> \<not> page_free ?b p" if p: "p \<in> {F..<F + ?n}" for p
  proof
    show "managed ?b p" using p unfolding new(3) in_Q Q by blast
    have "\<not> (first_page m' \<le> p * 4096 \<and> p * 4096 < memr_end m')" if "m' \<in> set (memrs b)" for m'
      using bspec [OF ap that] p in_Q [of p] Q by (auto simp: apart_def)
    then have "\<not> managed b p" unfolding managed_def map_get_memr_None by blast
    then show "\<not> page_free ?b p" unfolding new(2) using page_free_managed by blast
  qed
  obtain b1 where b1: "map_free ?b (F * 4096) ?n = Inr b1" "bb_inv b1 {F..<F + ?n}"
    "\<And>p. page_free b1 p \<longleftrightarrow> page_free ?b p \<or> p \<in> {F..<F + ?n}"
    "\<And>p. managed b1 p = managed ?b p" "free_head b1 = free_head ?b"
    using map_free_inv [OF new(1) pos used] by blast
  have co1: "coalesced b1" using ok b1(5) by (simp add: bb_ok_def coalesced_def chunk_def)
  obtain m1 where m1: "memrs b1 = m1 # memrs b" "first_page m1 = first_page m" "nr_pages m1 = ?n"
    using b1(1) pos by (auto simp: map_free_def map_update_def res_simps memr_end_def Let_def F split: if_splits)
  have end1: "memr_end m1 = memr_end m" by (simp add: memr_end_def m1)
  have rest: "rest_ok (first_page m) (?n * 4096) b1"
    using rest_ok_region [OF b1(2) m1(1)] unfolding m1 end1 by (simp add: memr_end_def F)
  have "\<exists>b'. add_chunks (first_page m) (?n * 4096) b1 = Inr b' \<and> bb_ok b' \<and> memrs b' = memrs b1"
  proof (rule add_chunks_inv [OF _ co1 rest])
    show "bb_inv b1 {first_page m div 4096..<(first_page m + ?n * 4096) div 4096}"
      using b1(2) by (simp add: F)
    show "?n * 4096 < 2 ^ 63" using small by (simp add: memr_end_def)
  qed (simp_all add: F)
  then obtain b2 where b2: "add_chunks (first_page m) (?n * 4096) b1 = Inr b2" "bb_ok b2" "memrs b2 = memrs b1"
    by blast
  show thesis
  proof (rule that [OF _ b2(1,2)])
    show "map_free ?b (first_page m) ?n = Inr b1" using b1(1) F by simp
    show "free_pages b2 = free_pages b \<union> Q"
      unfolding free_pages_def page_free_memrs [OF b2(3)] b1(3) new(2) Q by blast
    show "\<forall>p. managed b2 p \<longleftrightarrow> managed b p \<or> p \<in> Q"
      unfolding managed_memrs [OF b2(3)] b1(4) new(3) in_Q by blast
  qed
qed

text \<open>The memory between two page boundaries, with enough pages for a descriptor and data.\<close>

definition fresh_region :: "uk_bbpalloc \<Rightarrow> nat \<Rightarrow> nat \<Rightarrow> bool" where
  "fresh_region b base len \<longleftrightarrow> 0 < base \<and> base + len < 2 ^ 60 \<and>
     round_pgup base + 8192 \<le> round_pgdown (base + len) \<and>
     (\<forall>m \<in> set (memrs b). memr_end m \<le> round_pgup base \<or> round_pgdown (base + len) < first_page m)"

definition region_pages :: "nat \<Rightarrow> nat \<Rightarrow> nat" where
  "region_pages base len = (round_pgdown (base + len) - round_pgup base) div 4096"

definition data_pages :: "nat \<Rightarrow> nat" where
  "data_pages R = 8 * (4096 * R - 40) div 32769"

text \<open>The numbers that \<^verbatim>\<open>bbuddy_addmem\<close> computes for a region of \<open>R\<close> pages.\<close>

lemma region_numbers:
  fixes R :: nat
  assumes R: "2 \<le> R" "4096 * R < 2 ^ 60" and nd: "\<not> 32769 dvd (R + 319)"
  obtains n nr where "8 * (4096 * R - sizeof_memr) mod 2 ^ 64 div (8 * PAGE_SIZE + 1) = nr"
    "round_pgup (sizeof_memr + (nr + 7) div 8) = 4096 * n" "0 < n" "0 < nr" "R = n + nr"
    "nr \<le> 64 * ((4096 * n - sizeof_memr) div 8)" "nr = data_pages R"
proof -
  define nr where "nr = 8 * (4096 * R - 40) div 32769"
  define e where "e = (nr + 7) div 8"
  note rd = region_division [OF R(1) nr_def e_def]
  define n where "n = R - nr"
  have "8 * (4096 * R - 40) < 2 ^ 64" using R(2) by simp
  then have "8 * (4096 * R - 40) mod 2 ^ 64 = 8 * (4096 * R - 40)" by (rule mod_less)
  then have 1: "8 * (4096 * R - sizeof_memr) mod 2 ^ 64 div (8 * PAGE_SIZE + 1) = nr"
    by (simp add: nr_def PAGE_SIZE_def sizeof_memr_def)
  have "40 + e + 4095 < 2 ^ 64" using rd(1,3) R(2) by simp
  then have "(40 + e + 4095) mod 2 ^ 64 = 40 + e + 4095" by (rule mod_less)
  with rd(4) [OF nd] have 2: "round_pgup (sizeof_memr + (nr + 7) div 8) = 4096 * n"
    by (simp add: round_pgup_def sizeof_memr_def e_def n_def)
  have "nr \<le> 8 * e" using dividend_less_div_times [of 8 "nr + 7"] by (simp add: e_def)
  also have "\<dots> \<le> 8 * (4096 * n - 40)" using rd(3) by (simp add: n_def)
  also have "4096 * n - 40 = 8 * (512 * n - 5)" by (simp add: diff_mult_distrib2)
  then have "8 * (4096 * n - 40) = 64 * ((4096 * n - sizeof_memr) div 8)" by (simp add: sizeof_memr_def)
  finally have 3: "nr \<le> 64 * ((4096 * n - sizeof_memr) div 8)" .
  show thesis by (rule that [OF 1 2 _ rd(2) _ 3]) (use rd(1) in \<open>simp_all add: n_def nr_def data_pages_def\<close>)
qed


lemma addmem_ok:
  assumes ok: "bb_ok b" and fr: "fresh_region b base len" and nd: "\<not> 32769 dvd (region_pages base len + 319)"
  defines "Q \<equiv> {round_pgdown (base + len) div 4096 - data_pages (region_pages base len)..<round_pgdown (base + len) div 4096}"
  obtains b' where "bbuddy_addmem junk b base len = Inr (True, b')" "bb_ok b'"
    "free_pages b' = free_pages b \<union> Q" "\<forall>p. managed b' p \<longleftrightarrow> managed b p \<or> p \<in> Q"
    "0 < data_pages (region_pages base len)" "data_pages (region_pages base len) < region_pages base len"
proof -
  define mn mx where mnx: "mn = round_pgup base" "mx = round_pgdown (base + len)"
  note fr' = fr [unfolded fresh_region_def, folded mnx]
  define U V where UV': "U = mn div 4096" "V = mx div 4096"
  have UV: "mn = 4096 * U" "mx = 4096 * V"
    unfolding UV' mnx round_pgup_def round_pgdown_def by simp_all
  have "mx \<le> base + len"
    unfolding mnx round_pgdown_def by (rule order_trans [OF div_times_less_eq_dividend mod_less_eq_dividend])
  with fr' have mx60: "mx < 2 ^ 60" by linarith
  define R where "R = V - U"
  have V: "V = U + R" "2 \<le> R" "mx - mn = 4096 * R" "4096 * R < 2 ^ 60" using fr' mx60 by (auto simp: UV R_def)
  have rp: "region_pages base len = R" using V(3) by (simp add: region_pages_def mnx [symmetric])
  have nd': "\<not> 32769 dvd (R + 319)" using nd rp by simp
  obtain n nr where N: "8 * (4096 * R - sizeof_memr) mod 2 ^ 64 div (8 * PAGE_SIZE + 1) = nr"
    "round_pgup (sizeof_memr + (nr + 7) div 8) = 4096 * n" "0 < n" "0 < nr" "R = n + nr"
    "nr \<le> 64 * ((4096 * n - sizeof_memr) div 8)" "nr = data_pages R"
    using region_numbers [OF V(2,4) nd'] by blast
  define m where "m = \<lparr>first_page = mn + 4096 * n, nr_pages = nr, mm_alloc_bitmap_size = 4096 * n - sizeof_memr,
    mm_alloc_bitmap = (\<lambda>i. if i < (4096 * n - sizeof_memr) div 8 then - 1 else junk i)\<rparr>"
  have ends: "first_page m = 4096 * (U + n)" "memr_end m = 4096 * V" "nr_pages m = nr"
    using V N(5) by (simp_all add: m_def memr_end_def UV)
  have mok: "memr_ok m" "memr_end m < 2 ^ 60" using ends mx60 N(3) by (simp_all add: memr_ok_def UV)
  have ap: "\<forall>m' \<in> set (memrs b). apart m m'" using fr' N(3) ends by (auto simp: apart_def UV)
  have bits: "\<forall>i < nr_pages m. map_bit (mm_alloc_bitmap m) i"
    using N(6) unfolding ends by (auto simp: m_def map_bit_def PAGES_PER_MAPWORD_def less_mult_imp_div_less mult.commute)
  have pos: "0 < nr_pages m" using N(4) ends by simp
  obtain b1 b2 where B: "map_free (b\<lparr>memrs := m # memrs b\<rparr>) (first_page m) (nr_pages m) = Inr b1"
    "add_chunks (first_page m) (nr_pages m * 4096) b1 = Inr b2" "bb_ok b2"
    "free_pages b2 = free_pages b \<union> {first_page m div 4096..<memr_end m div 4096}"
    "\<forall>p. managed b2 p \<longleftrightarrow> managed b p \<or> p \<in> {first_page m div 4096..<memr_end m div 4096}"
    by (rule add_region [OF ok mok(1) ap bits pos mok(2)])
  have big: "base \<noteq> 0" "\<not> mx < mn" "\<not> 4096 * R < round_pgup (sizeof_memr + 8) + PAGE_SIZE"
    using fr' V(2) by (auto simp: sizeof_memr_def PAGE_SIZE_def round_pgup_def)
  have rest: "4096 * R - 4096 * n = nr_pages m * 4096" "mn + 4096 * n = first_page m" using N(5) ends by (simp_all add: UV)
  have add: "bbuddy_addmem junk b base len = Inr (True, b2)"
    unfolding bbuddy_addmem_def Let_def mnx [symmetric] V(3) N(1,2) unfolding m_def [symmetric] unfolding rest
    using big B(1,2) ends(3) by simp
  have pages: "{first_page m div 4096..<memr_end m div 4096} = Q"
    unfolding Q_def rp mnx [symmetric] UV' [symmetric] N(7) [symmetric] ends using V(1) N(5) by simp
  have dp: "0 < data_pages R" "data_pages R < R"
    unfolding N(7) [symmetric] using N(3,4,5) by linarith+
  show thesis
    by (rule that [OF add B(3)]) (use B(4,5) dp in \<open>simp_all add: pages rp\<close>)
qed

section \<open>Properties\<close>

text \<open>
  C15: A page request either hands out an aligned block of pages that were free, marks exactly
  these allocated and keeps the allocator's invariant with all buddies merged, or it returns
  \<^verbatim>\<open>NULL\<close>, changes nothing, and no aligned block of free pages of the rounded-up size
  exists.
\<close>

theorem bbuddy_palloc_correct:
  assumes "bb_ok b" "num_pages_to_order n = Inr k" "k \<le> FREELIST_SIZE"
  shows "(\<exists>c b'. bbuddy_palloc b n = Inr (c, b') \<and> c \<noteq> 0 \<and> n \<le> 2 ^ k \<and> aligned c k \<and>
        chunk_pages c k \<subseteq> free_pages b \<and> bb_ok b' \<and> free_pages b' = free_pages b - chunk_pages c k) \<or>
     (bbuddy_palloc b n = Inr (0, b) \<and> (\<nexists>c. aligned c k \<and> chunk_pages c k \<subseteq> free_pages b))"
proof (cases "find_list (free_head b) k = FREELIST_SIZE")
  case True
  with palloc_fails [OF assms] show ?thesis by blast
next
  case False
  then show ?thesis using palloc_succeeds [OF assms] num_pages_to_order_least(1) [OF assms(2)] by metis
qed

text \<open>
  C16: Releasing an allocated aligned block makes exactly its pages free again and keeps the
  allocator's invariant, merging included, whatever the memory of the released pages holds.
\<close>

theorem bbuddy_pfree_correct:
  assumes "bb_ok b" "num_pages_to_order n = Inr k" "aligned c k"
    "\<forall>p \<in> chunk_pages c k. managed b p \<and> \<not> page_free b p"
  shows "\<exists>b'. bbuddy_pfree b c n = Inr b' \<and> bb_ok b' \<and> free_pages b' = free_pages b \<union> chunk_pages c k \<and>
     managed b' = managed b"
  using pfree_ok [OF assms(1,2,3)] assms(4) by metis

text \<open>
  C17: Releasing a block right after its allocation restores every free list, up to order,
  and the page counter.
\<close>

theorem palloc_pfree_round_trip:
  assumes "bb_ok b" "num_pages_to_order n = Inr k" "k \<le> FREELIST_SIZE"
    and "bbuddy_palloc b n = Inr (c, b')" "c \<noteq> 0"
  shows "\<exists>b''. bbuddy_pfree b' c n = Inr b'' \<and> (\<forall>i < FREELIST_SIZE. mset (free_head b'' ! i) = mset (free_head b ! i)) \<and>
     nr_free_pages b'' = nr_free_pages b"
proof -
  have "find_list (free_head b) k \<noteq> FREELIST_SIZE"
    using palloc_fails(1) [OF assms(1-3)] assms(4,5) by auto
  from palloc_succeeds [OF assms(1-3) this] assms(4)
  have A: "aligned c k" "chunk_pages c k \<subseteq> free_pages b" "bb_ok b'" "free_pages b' = free_pages b - chunk_pages c k"
    "managed b' = managed b" by auto
  have "managed b' p \<and> \<not> page_free b' p" if "p \<in> chunk_pages c k" for p
    using that A(2,4,5) page_free_managed [of b p] by (auto simp: free_pages_def)
  from pfree_ok [OF A(3) assms(2) A(1) this]
  obtain b'' where F: "bbuddy_pfree b' c n = Inr b''" "bb_ok b''" "free_pages b'' = free_pages b' \<union> chunk_pages c k"
    by blast
  have eq: "free_pages b'' = free_pages b" using F(3) A(2,4) by blast
  have inv: "bb_inv b {}" "bb_inv b'' {}" using assms(1) F(2) by (auto simp: bb_ok_def)
  have "mset (free_head b'' ! i) = mset (free_head b ! i)" if "i < FREELIST_SIZE" for i
  proof -
    have "set (free_head b'' ! i) = set (free_head b ! i)"
      using chunks_determined [OF assms(1) F(2) eq, of i] chunks_determined [OF F(2) assms(1) eq [symmetric], of i] that
      by (auto simp: chunk_def)
    with bb_invD(8) [OF inv(1) that] bb_invD(8) [OF inv(2) that] show ?thesis
      by (simp add: set_eq_iff_mset_eq_distinct)
  qed
  moreover have "nr_free_pages b'' = nr_free_pages b"
    using bb_invD(9) [OF inv(1)] bb_invD(9) [OF inv(2)] eq by (simp add: free_pages_def)
  ultimately show ?thesis using F(1) by blast
qed

lemma empty_bb_ok: "bb_ok empty_bb" "free_pages empty_bb = {}" "memrs empty_bb = []"
proof -
  have nf: "\<not> page_free empty_bb p" for p by (simp add: page_free_def allocated_in_map_def empty_bb_def)
  have nc: "\<not> chunk empty_bb i c" for i c by (simp add: chunk_def empty_bb_def)
  have "bb_inv empty_bb {}"
    by (rule bb_invI) (use nf nc in \<open>auto simp: regions_ok_def empty_bb_def\<close>)
  then show "bb_ok empty_bb" using nc by (simp add: bb_ok_def coalesced_def)
  show "free_pages empty_bb = {}" "memrs empty_bb = []" using nf by (simp_all add: free_pages_def empty_bb_def)
qed

lemma bbuddy_init:
  fixes base len :: nat
  defines "U \<equiv> round_pgup base div 4096" and "V \<equiv> round_pgdown (base + len) div 4096"
  assumes "0 < base" "base + len < 2 ^ 60" "U + 4 \<le> V" "\<not> 32769 dvd (V - U + 317)"
  shows "\<exists>b. uk_allocbbuddy_init junk base len = Inr (Some (4096 * U, b)) \<and> bb_ok b \<and>
     free_pages b = {V - data_pages (V - U - 2)..<V} \<and> data_pages (V - U - 2) < V - U - 2 \<and> 0 < data_pages (V - U - 2)"
proof -
  have mn: "round_pgup base = 4096 * U" and mx: "round_pgdown (base + len) = 4096 * V"
    by (simp_all add: U_def V_def round_pgup_def round_pgdown_def)
  have "round_pgdown (base + len) \<le> base + len"
    unfolding round_pgdown_def by (rule order_trans [OF div_times_less_eq_dividend mod_less_eq_dividend])
  then have V60: "4096 * V < 2 ^ 60" using assms(4) mx by simp
  have ml: "round_pgup sizeof_descriptor = 4096" by (simp add: round_pgup_def sizeof_descriptor_def)
  let ?base = "4096 * U + 4096 + 4096" and ?len = "4096 * V - (4096 * U + 4096) - 4096"
  have sum: "?base + ?len = 4096 * V" using assms(5) by simp
  have up: "round_pgup ?base = 4096 * (U + 2)" "round_pgdown (?base + ?len) = 4096 * V"
    using V60 assms(5) unfolding sum by (simp_all add: round_pgup_def round_pgdown_def)
  have rp: "region_pages ?base ?len = V - U - 2"
    unfolding region_pages_def up by (simp add: diff_mult_distrib2 [symmetric])
  have fr: "fresh_region empty_bb ?base ?len"
    unfolding fresh_region_def up using V60 assms(5) empty_bb_ok(3) by simp
  have nd: "\<not> 32769 dvd (region_pages ?base ?len + 319)"
    unfolding rp using assms(5,6) by (simp add: add.commute)
  obtain b' where B: "bbuddy_addmem junk empty_bb ?base ?len = Inr (True, b')" "bb_ok b'"
    "free_pages b' = free_pages empty_bb \<union>
       {round_pgdown (?base + ?len) div 4096 - data_pages (region_pages ?base ?len)..<round_pgdown (?base + ?len) div 4096}"
    "0 < data_pages (region_pages ?base ?len)" "data_pages (region_pages ?base ?len) < region_pages ?base ?len"
    by (rule addmem_ok [OF empty_bb_ok(1) fr nd])
  have "uk_allocbbuddy_init junk base len = Inr (Some (4096 * U, b'))"
    unfolding uk_allocbbuddy_init_def Let_def mn mx ml using assms(5) B(1) by simp
  with B show ?thesis unfolding up rp empty_bb_ok by auto
qed



lemma add_chunks_cover:
  assumes "length (free_head b) = FREELIST_SIZE" "mn mod 4096 = 0" "rng mod 4096 = 0" "rng < 2 ^ 63"
  shows "\<exists>b'. add_chunks mn rng b = Inr b' \<and> memrs b' = memrs b \<and> (\<forall>i c. chunk b i c \<longrightarrow> chunk b' i c) \<and>
    (\<forall>p. mn \<le> p * 4096 \<and> p * 4096 < mn + rng \<longrightarrow> (\<exists>i c. chunk b' i c \<and> p \<in> chunk_pages c i))"
  using assms
proof (induction mn rng b rule: add_chunks.induct)
  case (1 mn rng b)
  show ?case
  proof (cases "rng = 0")
    case True
    then show ?thesis by (subst add_chunks.simps) auto
  next
    case False
    define j where "j = chunk_shift mn rng PAGE_SHIFT"
    define k where "k = j - PAGE_SHIFT"
    from "1.prems"(2,3) obtain P R where PR: "mn = 4096 * P" "rng = 4096 * R" by (auto elim!: dvdE)
    with False have "2 ^ PAGE_SHIFT \<le> rng" by (simp add: PAGE_SHIFT_def)
    note S = chunk_shift_spec [OF this, of mn, folded j_def]
    then have j: "j = k + PAGE_SHIFT" by (simp add: k_def)
    have sz: "2 ^ j = 4096 * (2::nat) ^ k" by (simp add: j PAGE_SHIFT_def power_add)
    let ?b = "link_chunk k mn b"
    have "2 ^ j < (2::nat) ^ 63" using S "1.prems"(4) by linarith
    then have "j < 63" by (simp only: power_strict_increasing_iff)
    then have ge: "\<not> 63 \<le> j" "\<not> rng < 2 ^ j" using S by simp_all
    have eq: "add_chunks mn rng b = add_chunks (mn + 2 ^ j) (rng - 2 ^ j) ?b"
      using False ge by (subst add_chunks.simps) (simp add: Let_def j_def k_def)
    have k: "k < FREELIST_SIZE" using ge(1) j by (simp add: FREELIST_SIZE_def PAGE_SHIFT_def)
    have kR: "2 ^ k \<le> R" using S sz PR by simp
    have "\<exists>b'. add_chunks (mn + 2 ^ j) (rng - 2 ^ j) ?b = Inr b' \<and> memrs b' = memrs ?b \<and>
      (\<forall>i c. chunk ?b i c \<longrightarrow> chunk b' i c) \<and> (\<forall>p. mn + 2 ^ j \<le> p * 4096 \<and> p * 4096 < mn + 2 ^ j + (rng - 2 ^ j) \<longrightarrow>
        (\<exists>i c. chunk b' i c \<and> p \<in> chunk_pages c i))"
      by (rule "1.IH" [folded j_def, OF False refl, folded j_def k_def, OF ge])
        (use "1.prems"(1,4) kR in \<open>simp_all add: bb_simps PR sz diff_mult_distrib2 [symmetric]\<close>)
    then obtain b' where IH: "add_chunks (mn + 2 ^ j) (rng - 2 ^ j) ?b = Inr b'" "memrs b' = memrs ?b"
      "\<forall>i c. chunk ?b i c \<longrightarrow> chunk b' i c"
      "\<forall>p. mn + 2 ^ j \<le> p * 4096 \<and> p * 4096 < mn + 2 ^ j + (rng - 2 ^ j) \<longrightarrow> (\<exists>i c. chunk b' i c \<and> p \<in> chunk_pages c i)"
      by blast
    note ch = chunk_link [OF "1.prems"(1) k]
    have "\<exists>i c. chunk b' i c \<and> p \<in> chunk_pages c i" if p: "mn \<le> p * 4096" "p * 4096 < mn + rng" for p
    proof (cases "p < P + 2 ^ k")
      case True
      with p have "p \<in> chunk_pages mn k" by (simp add: chunk_pages_def PR)
      with IH(3) ch show ?thesis by blast
    next
      case F: False
      with p kR have "mn + 2 ^ j \<le> p * 4096" "p * 4096 < mn + 2 ^ j + (rng - 2 ^ j)" by (simp_all add: PR sz)
      with IH(4) show ?thesis by blast
    qed
    with IH(1-3) ch eq show ?thesis by (simp add: bb_simps)
  qed
qed


lemma region_surplus:
  fixes R :: nat
  assumes R: "2 \<le> R" "4096 * R < 2 ^ 60" and d: "32769 dvd (R + 319)"
  obtains n where "8 * (4096 * R - sizeof_memr) mod 2 ^ 64 div (8 * PAGE_SIZE + 1) = data_pages R"
    "round_pgup (sizeof_memr + (data_pages R + 7) div 8) = 4096 * n" "R = n + data_pages R + 1"
proof -
  from d obtain q where q: "R + 319 = 32769 * q" by (auto elim: dvdE)
  define n where "n = q"
  have R': "R = 32769 * q - 319" "1 \<le> q" using q R(1) by simp_all
  have "8 * (4096 * R - 40) < 2 ^ 64" using R(2) by simp
  then have m: "8 * (4096 * R - 40) mod 2 ^ 64 = 8 * (4096 * R - 40)" by (rule mod_less)
  have dp: "data_pages R = 32768 * q - 320"
  proof -
    have "8 * (4096 * R - 40) = 32769 * (32768 * q - 320) + 32768"
      using R'(2) unfolding R'(1) by (simp add: diff_mult_distrib2)
    then show ?thesis by (simp add: data_pages_def)
  qed
  have "(32768 * q - 320 + 7) div 8 = 4096 * q - 40"
    using R'(2) by (intro div_nat_eqI) simp_all
  moreover have "40 + (4096 * q - 40) + 4095 < 2 ^ 64" using R(2) unfolding R'(1) using R'(2) by simp
  ultimately have "round_pgup (sizeof_memr + (data_pages R + 7) div 8) = 4096 * n"
    using R'(2) by (simp add: round_pgup_def sizeof_memr_def dp n_def)
  moreover have "R = n + data_pages R + 1" using R'(2) q unfolding dp n_def by linarith
  ultimately show thesis using that m by (simp add: data_pages_def sizeof_memr_def PAGE_SIZE_def)
qed

text \<open>
  C19: When the number of pages of a range plus 319 is a multiple of 32769, the free lists get
  one page more than the bitmap has: the page lies in a chunk, and no region holds it.
\<close>

theorem addmem_surplus_page:
  assumes "bb_ok b" "fresh_region b base len" "32769 dvd (region_pages base len + 319)"
  shows "\<exists>b' p i c. bbuddy_addmem junk b base len = Inr (True, b') \<and> chunk b' i c \<and> p \<in> chunk_pages c i \<and> \<not> managed b' p"
proof -
  define mn mx where mnx: "mn = round_pgup base" "mx = round_pgdown (base + len)"
  note fr = assms(2) [unfolded fresh_region_def, folded mnx]
  define U V where UV': "U = mn div 4096" "V = mx div 4096"
  have UV: "mn = 4096 * U" "mx = 4096 * V" unfolding UV' mnx round_pgup_def round_pgdown_def by simp_all
  have "mx \<le> base + len"
    unfolding mnx round_pgdown_def by (rule order_trans [OF div_times_less_eq_dividend mod_less_eq_dividend])
  with fr have mx60: "mx < 2 ^ 60" by linarith
  define R where "R = V - U"
  have V: "V = U + R" "2 \<le> R" "mx - mn = 4096 * R" "4096 * R < 2 ^ 60" using fr mx60 by (auto simp: UV R_def)
  have d: "32769 dvd (R + 319)" using assms(3) V(3) by (simp add: region_pages_def mnx [symmetric])
  obtain n where N: "8 * (4096 * R - sizeof_memr) mod 2 ^ 64 div (8 * PAGE_SIZE + 1) = data_pages R"
    "round_pgup (sizeof_memr + (data_pages R + 7) div 8) = 4096 * n" "R = n + data_pages R + 1"
    using region_surplus [OF V(2,4) d] by blast
  define nr where "nr = data_pages R"
  define m where "m = \<lparr>first_page = mn + 4096 * n, nr_pages = nr, mm_alloc_bitmap_size = 4096 * n - sizeof_memr,
    mm_alloc_bitmap = (\<lambda>i. if i < (4096 * n - sizeof_memr) div 8 then - 1 else junk i)\<rparr>"
  have ends: "first_page m = 4096 * (U + n)" "memr_end m = 4096 * (V - 1)" "nr_pages m = nr"
    using V N(3) by (simp_all add: m_def memr_end_def UV nr_def [symmetric])
  have pos: "0 < nr" using region_division(2) [OF V(2) refl refl] by (simp add: nr_def data_pages_def)
  let ?m = "m\<lparr>mm_alloc_bitmap := clear_bits (mm_alloc_bitmap m) 0 nr\<rparr>"
  let ?b1 = "b\<lparr>memrs := ?m # memrs b, nr_free_pages := nr_free_pages b + of_nat nr\<rparr>"
  have mf: "map_free (b\<lparr>memrs := m # memrs b\<rparr>) (first_page m) nr = Inr ?b1"
    using pos ends(3) by (simp add: map_free_def map_update_def memr_end_def PAGE_SIZE_def)
  have len1: "length (free_head ?b1) = FREELIST_SIZE" using assms(1) by (simp add: bb_ok_def bb_inv_def)
  have rest: "4096 * R - 4096 * n = (nr + 1) * 4096" "mn + 4096 * n = first_page m"
    using N(3) ends by (simp_all add: UV nr_def [symmetric])
  obtain b2 where b2: "add_chunks (first_page m) ((nr + 1) * 4096) ?b1 = Inr b2" "memrs b2 = memrs ?b1"
    "\<forall>p. first_page m \<le> p * 4096 \<and> p * 4096 < first_page m + (nr + 1) * 4096 \<longrightarrow> (\<exists>i c. chunk b2 i c \<and> p \<in> chunk_pages c i)"
    using add_chunks_cover [OF len1, of "first_page m" "(nr + 1) * 4096"] ends(1) V(4) rest(1) by fastforce
  have big: "base \<noteq> 0" "\<not> mx < mn" "\<not> 4096 * R < round_pgup (sizeof_memr + 8) + PAGE_SIZE"
    using fr V(2) by (auto simp: sizeof_memr_def PAGE_SIZE_def round_pgup_def)
  have add: "bbuddy_addmem junk b base len = Inr (True, b2)"
    unfolding bbuddy_addmem_def Let_def mnx [symmetric] V(3) N(1,2) unfolding nr_def [symmetric] m_def [symmetric]
    unfolding rest using big mf b2(1) by simp
  have "first_page m \<le> (V - 1) * 4096" "(V - 1) * 4096 < first_page m + (nr + 1) * 4096"
    using ends(1) V(1) N(3) by (simp_all add: nr_def [symmetric])
  then obtain i c where ic: "chunk b2 i c" "V - 1 \<in> chunk_pages c i" using b2(3) by blast
  have "\<not> (first_page m' \<le> (V - 1) * 4096 \<and> (V - 1) * 4096 < memr_end m')" if "m' \<in> set (memrs b)" for m'
    using bspec [OF conjunct2 [OF conjunct2 [OF conjunct2 [OF fr]]] that] V(1,2) by (auto simp: UV)
  then have "\<not> managed b2 (V - 1)"
    unfolding managed_def map_get_memr_None b2(2) using ends by (auto simp: memr_end_def)
  with add ic show ?thesis by blast
qed


section \<open>A concrete allocator\<close>

text \<open>
  Eight pages from address \<open>0x100000\<close>: one for the allocator, one left out, one for the
  bitmap, and five free pages, a single one and a block of four.
\<close>

lemma ex_init:
  "\<exists>b. uk_allocbbuddy_init (\<lambda>_. 0) 0x100000 0x8000 = Inr (Some (0x100000, b)) \<and> bb_ok b \<and> free_pages b = {0x103..<0x108}"
  using bbuddy_init [of "0x100000" "0x8000" "\<lambda>_. 0"] by (simp add: round_pgup_def round_pgdown_def data_pages_def)

lemma ex_order: "num_pages_to_order 3 = Inr 2"
  by (simp add: num_pages_to_order_def flsl.simps)

lemma ex_block: "aligned 0x104000 2" "chunk_pages 0x104000 2 \<subseteq> {0x103..<0x108}"
  by (simp_all add: aligned_def PAGE_SHIFT_def chunk_pages_def)

theorem bbuddy_palloc_correct_witness:
  "\<exists>b c b'. uk_allocbbuddy_init (\<lambda>_. 0) 0x100000 0x8000 = Inr (Some (0x100000, b)) \<and>
     bbuddy_palloc b 3 = Inr (c, b') \<and> c \<noteq> 0 \<and> bb_ok b' \<and> free_pages b' = {0x103..<0x108} - chunk_pages c 2"
proof -
  obtain b where b: "uk_allocbbuddy_init (\<lambda>_. 0) 0x100000 0x8000 = Inr (Some (0x100000, b))" "bb_ok b"
    "free_pages b = {0x103..<0x108}" using ex_init by blast
  from bbuddy_palloc_correct [OF b(2) ex_order] ex_block b(3)
  obtain c b' where "bbuddy_palloc b 3 = Inr (c, b')" "c \<noteq> 0" "bb_ok b'" "free_pages b' = free_pages b - chunk_pages c 2"
    by (auto simp: FREELIST_SIZE_def)
  with b show ?thesis by blast
qed

lemma ex_palloc:
  obtains b c b' where "bb_ok b" "bbuddy_palloc b 3 = Inr (c, b')" "c \<noteq> 0" "aligned c 2" "bb_ok b'"
    "chunk_pages c 2 \<subseteq> free_pages b" "free_pages b' = free_pages b - chunk_pages c 2" "managed b' = managed b"
proof -
  obtain b where b: "bb_ok b" "free_pages b = {0x103..<0x108}" using ex_init by blast
  have k: "2 \<le> FREELIST_SIZE" by (simp add: FREELIST_SIZE_def)
  have "find_list (free_head b) 2 \<noteq> FREELIST_SIZE"
    using palloc_fails(2) [OF b(1) ex_order k] ex_block b(2) by auto
  from palloc_succeeds [OF b(1) ex_order k this] that b(1) show thesis by metis
qed

theorem bbuddy_pfree_correct_witness:
  "\<exists>b c b' b''. bb_ok b \<and> bbuddy_palloc b 3 = Inr (c, b') \<and> bbuddy_pfree b' c 3 = Inr b'' \<and> bb_ok b'' \<and>
     free_pages b'' = free_pages b"
proof -
  obtain b c b' where A: "bb_ok b" "bbuddy_palloc b 3 = Inr (c, b')" "c \<noteq> 0" "aligned c 2" "bb_ok b'"
    "chunk_pages c 2 \<subseteq> free_pages b" "free_pages b' = free_pages b - chunk_pages c 2" "managed b' = managed b"
    by (rule ex_palloc)
  have "managed b' p \<and> \<not> page_free b' p" if "p \<in> chunk_pages c 2" for p
    using that A(6-8) page_free_managed [of b p] by (auto simp: free_pages_def)
  with bbuddy_pfree_correct [OF A(5) ex_order A(4)]
  obtain b'' where "bbuddy_pfree b' c 3 = Inr b''" "bb_ok b''" "free_pages b'' = free_pages b' \<union> chunk_pages c 2" by blast
  with A show ?thesis by (intro exI [of _ b] exI [of _ c] exI [of _ b'] exI [of _ b'']) auto
qed

theorem palloc_pfree_round_trip_witness:
  "\<exists>b c b' b''. bb_ok b \<and> bbuddy_palloc b 3 = Inr (c, b') \<and> c \<noteq> 0 \<and> bbuddy_pfree b' c 3 = Inr b'' \<and>
     nr_free_pages b'' = nr_free_pages b"
proof -
  obtain b c b' where A: "bb_ok b" "bbuddy_palloc b 3 = Inr (c, b')" "c \<noteq> 0" by (rule ex_palloc)
  have "2 \<le> FREELIST_SIZE" by (simp add: FREELIST_SIZE_def)
  from palloc_pfree_round_trip [OF A(1) ex_order this A(2,3)] A show ?thesis by blast
qed


theorem addmem_surplus_page_witness:
  "\<exists>b' p i c. bbuddy_addmem (\<lambda>_. 0) empty_bb 4096 (32450 * 4096) = Inr (True, b') \<and>
     chunk b' i c \<and> p \<in> chunk_pages c i \<and> \<not> managed b' p"
  by (rule addmem_surplus_page [OF empty_bb_ok(1)])
    (simp_all add: fresh_region_def region_pages_def round_pgup_def round_pgdown_def empty_bb_ok(3))

end
