(* ===== verification/Bbuddy_Alloc.thy ===== *)
theory Bbuddy_Alloc
  imports Ukalloc Bbuddy_Memory
begin

text \<open>
  The buddy allocator as the page allocator below \<^verbatim>\<open>malloc\<close>: \<^verbatim>\<open>uk_allocbbuddy_init\<close> installs
  \<^verbatim>\<open>bbuddy_palloc\<close>, \<^verbatim>\<open>bbuddy_pfree\<close> and \<^verbatim>\<open>bbuddy_addmem\<close> with \<^verbatim>\<open>uk_alloc_init_palloc\<close>.
  The interpretation of the locale \<open>page_allocator\<close> proves its laws for the buddy allocator;
  the properties of allocation in bytes follow.
\<close>

section \<open>The buddy allocator is a page allocator\<close>

definition bb_palloc :: "uk_bbpalloc palloc" where
  "bb_palloc b n = bindr (bbuddy_palloc b (unat n)) (\<lambda>(c, b'). Inr (of_nat c, b'))"

definition bb_pfree :: "uk_bbpalloc pfree" where
  "bb_pfree b p n = bbuddy_pfree b (unat p) (unat n)"

definition bb_pages :: "u64 \<Rightarrow> nat" where
  "bb_pages n = (case num_pages_to_order (unat n) of Inl e \<Rightarrow> 0 | Inr k \<Rightarrow> 2 ^ k)"

definition bb_live :: "uk_bbpalloc \<Rightarrow> u64 \<Rightarrow> u64 \<Rightarrow> bool" where
  "bb_live b p n \<longleftrightarrow> (case num_pages_to_order (unat n) of
       Inl e \<Rightarrow> False
     | Inr k \<Rightarrow> aligned (unat p) k \<and> (\<forall>q \<in> chunk_pages (unat p) k. managed b q \<and> \<not> page_free b q))"

lemma order_exists:
  fixes n :: u64
  assumes "n \<noteq> 0"
  obtains k where "num_pages_to_order (unat n) = Inr k" "unat n \<le> 2 ^ k" "k = 0 \<or> 2 ^ (k - 1) < unat n"
proof -
  have "unat n \<noteq> 0" using assms by (simp add: unat_eq_zero_iff)
  then have "\<exists>k. num_pages_to_order (unat n) = Inr k" by (simp add: num_pages_to_order_def)
  then obtain k where k: "num_pages_to_order (unat n) = Inr k" by blast
  with num_pages_to_order_least [OF k] that show thesis by blast
qed

lemma block_chunk: "num_pages_to_order (unat n) = Inr k \<Longrightarrow> block bb_pages p n = chunk_pages (unat p) k"
  unfolding block_def bb_pages_def chunk_pages_def page_of_def by simp

lemma managed_below:
  assumes "bb_ok b" "managed b p"
  shows "p < 2 ^ 52"
proof -
  from assms(2) obtain k where "map_get_memr (memrs b) (p * 4096) = Some k" by (auto simp: managed_def)
  from map_get_memr_SomeD [OF this] assms(1) have "p * 4096 < 2 ^ 64"
    by (auto simp: bb_ok_def bb_inv_def regions_ok_def memr_ok_def dest!: nth_mem)
  then show ?thesis by simp
qed

lemma bb_palloc_laws:
  assumes ok: "bb_ok b" and n: "n \<noteq> 0" "unat n \<le> 2 ^ 51"
  shows "bb_palloc b n = Inr (0, b) \<or>
    (\<exists>p b'. bb_palloc b n = Inr (p, b') \<and> bb_ok b' \<and> p \<noteq> 0 \<and> page_aligned p \<and> page_of p + bb_pages n \<le> 2 ^ 52 \<and>
       block bb_pages p n \<subseteq> free_pages b \<and> free_pages b' = free_pages b - block bb_pages p n \<and> bb_live b' p n \<and>
       (\<forall>q m. bb_live b q m \<longrightarrow> bb_live b' q m))"
proof -
  obtain k where k: "num_pages_to_order (unat n) = Inr k" "k = 0 \<or> 2 ^ (k - 1) < unat n"
    by (rule order_exists [OF n(1)])
  have "k \<le> 51"
  proof (rule ccontr)
    assume "\<not> k \<le> 51"
    then have "(2::nat) ^ 51 \<le> 2 ^ (k - 1)" by (intro power_increasing) auto
    with k(2) \<open>\<not> k \<le> 51\<close> n(2) show False by auto
  qed
  then have kF: "k \<le> FREELIST_SIZE" by (simp add: FREELIST_SIZE_def)
  show ?thesis
  proof (cases "find_list (free_head b) k = FREELIST_SIZE")
    case True
    with palloc_fails(1) [OF ok k(1) kF] show ?thesis by (simp add: bb_palloc_def)
  next
    case False
    from palloc_succeeds [OF ok k(1) kF False] obtain c b' where
      c: "bbuddy_palloc b (unat n) = Inr (c, b')" "c \<noteq> 0" "aligned c k" "chunk_pages c k \<subseteq> free_pages b"
        "bb_ok b'" "free_pages b' = free_pages b - chunk_pages c k" "managed b' = managed b" by metis
    have man: "managed b q" if "q \<in> free_pages b" for q using that page_free_managed by (simp add: free_pages_def)
    have k1: "(1::nat) \<le> 2 ^ k" by simp
    then have "c div 4096 + 2 ^ k - 1 \<in> chunk_pages c k" unfolding chunk_pages_def atLeastLessThan_iff by linarith
    then have "c div 4096 + 2 ^ k - 1 < 2 ^ 52" using c(4) man managed_below [OF ok] by blast
    then have top: "c div 4096 + 2 ^ k \<le> 2 ^ 52" by linarith
    have c0: "c mod 4096 = 0" using c(3) by (simp add: aligned_iff)
    have "c div 4096 < 2 ^ 52" using top k1 by linarith
    then have "c < 2 ^ 64" using c0 by simp
    then have u: "unat (of_nat c :: u64) = c" by (simp add: unat_of_nat)
    have blk: "block bb_pages (of_nat c) n = chunk_pages c k" using block_chunk [OF k(1), of "of_nat c"] u by simp
    have free: "page_free b' q \<longleftrightarrow> page_free b q \<and> q \<notin> chunk_pages c k" for q using c(6) by (auto simp: free_pages_def)
    have live: "bb_live b' (of_nat c) n" using k(1) c(3,4,7) free man
      by (auto simp: bb_live_def u)
    have keep: "bb_live b' q m" if "bb_live b q m" for q m
      using that c(7) free by (auto simp: bb_live_def split: sum.splits)
    have "bb_palloc b n = Inr (of_nat c, b')" by (simp add: bb_palloc_def c(1))
    moreover have "(of_nat c :: u64) \<noteq> 0" using u c(2) by (metis unat_0)
    moreover have "page_aligned (of_nat c)" using c0 u by (simp add: page_aligned_iff)
    moreover have "page_of (of_nat c) + bb_pages n \<le> 2 ^ 52" using top u k(1) by (simp add: page_of_def bb_pages_def)
    ultimately show ?thesis using c(4-6) live keep blk by metis
  qed
qed

lemma bb_pfree_laws:
  assumes ok: "bb_ok b" and live: "bb_live b p n"
  shows "\<exists>b'. bb_pfree b p n = Inr b' \<and> bb_ok b' \<and> free_pages b' = free_pages b \<union> block bb_pages p n \<and>
    (\<forall>q m. bb_live b q m \<longrightarrow> block bb_pages q m \<inter> block bb_pages p n = {} \<longrightarrow> bb_live b' q m)"
proof -
  from live obtain k where k: "num_pages_to_order (unat n) = Inr k" "aligned (unat p) k"
    "\<forall>q \<in> chunk_pages (unat p) k. managed b q \<and> \<not> page_free b q"
    by (auto simp: bb_live_def split: sum.splits)
  from pfree_ok [OF ok k(1,2)] k(3) obtain b' where b': "bbuddy_pfree b (unat p) (unat n) = Inr b'" "bb_ok b'"
    "free_pages b' = free_pages b \<union> chunk_pages (unat p) k" "managed b' = managed b" by metis
  have free: "page_free b' q \<longleftrightarrow> page_free b q \<or> q \<in> chunk_pages (unat p) k" for q
    using b'(3) by (auto simp: free_pages_def)
  have "bb_live b' q m" if "bb_live b q m" "block bb_pages q m \<inter> block bb_pages p n = {}" for q m
    using that free b'(4) by (auto simp: bb_live_def block_chunk block_chunk [OF k(1)] split: sum.splits)
  with b' show ?thesis by (auto simp: bb_pfree_def block_chunk [OF k(1)])
qed

interpretation bb: page_allocator bb_palloc bb_pfree bb_ok free_pages bb_live bb_pages
proof
  fix b :: uk_bbpalloc and p n :: u64
  show "unat n \<le> bb_pages n" if "n \<noteq> 0"
    using that by (auto simp: bb_pages_def elim: order_exists)
  show "block bb_pages p n \<inter> free_pages b = {}" if "bb_live b p n"
    using that by (auto simp: bb_live_def block_chunk free_pages_def split: sum.splits)
qed (erule (2) bb_palloc_laws, erule (1) bb_pfree_laws)

definition bb_addmem :: "(nat \<Rightarrow> u64) \<Rightarrow> uk_bbpalloc \<Rightarrow> u64 \<Rightarrow> u64 \<Rightarrow> (int \<times> uk_bbpalloc) res" where
  "bb_addmem mem b base len =
     bindr (bbuddy_addmem mem b (unat base) (unat len)) (\<lambda>(ok, b'). Inr (if ok then 0 else - EINVAL, b'))"

definition bbuddy_allocator :: "(nat \<Rightarrow> u64) \<Rightarrow> u64 \<Rightarrow> uk_bbpalloc uk_alloc option" where
  "bbuddy_allocator mem junk = Some (uk_alloc_init_palloc bb_palloc bb_pfree (bb_addmem mem) junk)"

section \<open>Allocation in bytes\<close>

abbreviation "bb_block h ptr \<equiv> block_of bb_pages h ptr"

abbreviation "bb_free h \<equiv> free_pages (hp_pages h)"

lemma bbuddy_dispatch:
  "uk_malloc (bbuddy_allocator mem junk) = uk_malloc_ifpages bb_palloc"
  "uk_free (bbuddy_allocator mem junk) = uk_free_ifpages bb_pfree"
  "uk_realloc (bbuddy_allocator mem junk) = uk_realloc_ifpages bb_palloc bb_pfree"
  "uk_posix_memalign (bbuddy_allocator mem junk) = uk_posix_memalign_ifpages bb_palloc"
  by (auto simp: fun_eq_iff bbuddy_allocator_def uk_alloc_init_palloc_def uk_malloc_def uk_do_malloc_def uk_free_def
      uk_do_free_def uk_realloc_def uk_do_realloc_def uk_posix_memalign_def uk_do_posix_memalign_def)

lemma malloc_free:
  assumes "bb_ok (hp_pages h')" "has_block bb_live h' ptr" "bb_block h' ptr \<subseteq> bb_free h"
    "bb_free h' = bb_free h - bb_block h' ptr"
  shows "\<exists>h''. uk_free_ifpages bb_pfree ptr h' = Inr h'' \<and> bb_ok (hp_pages h'') \<and> bb_free h'' = bb_free h"
proof -
  from bb.free_ok [OF assms(1,2)] obtain s where s: "uk_free_ifpages bb_pfree ptr h' = Inr (h'\<lparr>hp_pages := s\<rparr>)"
    "bb_ok s" "free_pages s = bb_free h' \<union> bb_block h' ptr" by blast
  moreover have "bb_free h' \<union> bb_block h' ptr = bb_free h" using assms(3,4) by auto
  ultimately show ?thesis by auto
qed

text \<open>
  C20: \<^verbatim>\<open>malloc\<close> on the buddy allocator either returns \<^verbatim>\<open>NULL\<close> and leaves the heap as it is, or
  a block of pages that were free and hold the descriptor and all the bytes asked for; no
  byte and no descriptor outside the block changes, blocks in use stay in use, and \<^verbatim>\<open>free\<close>
  gives exactly the pages back.
\<close>

theorem uk_malloc_correct:
  assumes "bb_ok (hp_pages h)" "sz \<noteq> 0" "unat sz \<le> 2 ^ 62"
  shows "uk_malloc (bbuddy_allocator mem junk) sz h = Inr (0, h) \<or>
    (\<exists>ptr h'. uk_malloc (bbuddy_allocator mem junk) sz h = Inr (ptr, h') \<and> bb_ok (hp_pages h') \<and>
       has_block bb_live h' ptr \<and> holds h' ptr sz \<and> bb_block h' ptr \<subseteq> bb_free h \<and>
       bb_free h' = bb_free h - bb_block h' ptr \<and> hp_mem h' = hp_mem h \<and>
       (\<forall>a. page_of a \<notin> bb_block h' ptr \<longrightarrow> hp_meta h' a = hp_meta h a) \<and>
       (\<forall>q n. bb_live (hp_pages h) q n \<longrightarrow> bb_live (hp_pages h') q n) \<and>
       (\<exists>h''. uk_free (bbuddy_allocator mem junk) ptr h' = Inr h'' \<and> bb_ok (hp_pages h'') \<and> bb_free h'' = bb_free h))"
  using bb.malloc_ok [OF assms] malloc_free unfolding bbuddy_dispatch by metis

text \<open>
  C21: An aligned allocation on the buddy allocator fails with \<^verbatim>\<open>ENOMEM\<close> or returns a pointer
  with the alignment asked for, whose bytes and descriptor lie in pages that were free, and
  which \<^verbatim>\<open>free\<close> accepts, giving exactly these pages back.
\<close>

theorem uk_posix_memalign_correct:
  assumes "bb_ok (hp_pages h)" "sz \<noteq> 0" "unat sz \<le> 2 ^ 61"
    and "(align - 1) AND align = 0" "align mod 8 = 0" "align \<noteq> 0" "unat align \<le> 2 ^ 61"
  shows "uk_posix_memalign (bbuddy_allocator mem junk) align sz h = Inr (ENOMEM, None, h) \<or>
    (\<exists>ptr h'. uk_posix_memalign (bbuddy_allocator mem junk) align sz h = Inr (0, Some ptr, h') \<and>
       bb_ok (hp_pages h') \<and> unat align dvd unat ptr \<and> has_block bb_live h' ptr \<and> holds h' ptr sz \<and>
       bb_block h' ptr \<subseteq> bb_free h \<and> bb_free h' = bb_free h - bb_block h' ptr \<and>
       (\<exists>h''. uk_free (bbuddy_allocator mem junk) ptr h' = Inr h'' \<and> bb_ok (hp_pages h'') \<and> bb_free h'' = bb_free h))"
  using bb.memalign_ok [OF assms] malloc_free unfolding bbuddy_dispatch by metis


text \<open>
  C23: Sizes whose sum with the descriptor wraps around are not refused: a request for
  \<open>2 ^ 64 - 16\<close> bytes stops in an assertion, a larger one is served as if it asked for one byte.
\<close>

theorem malloc_size_wraps:
  "(sz = - 16 \<longrightarrow> uk_malloc (bbuddy_allocator mem junk) sz h = Inl Assert) \<and>
   (- 16 < sz \<longrightarrow> uk_malloc (bbuddy_allocator mem junk) sz h = uk_malloc (bbuddy_allocator mem junk) 1 h)"
proof (intro conjI impI)
  assume "sz = - 16"
  then show "uk_malloc (bbuddy_allocator mem junk) sz h = Inl Assert"
    by (simp add: bbuddy_dispatch uk_malloc_ifpages_def sizeof_metadata_def size_to_num_pages_def align_up_def
        bb_palloc_def bbuddy_palloc_def num_pages_to_order_def)
next
  assume s: "- 16 < sz"
  then have "18446744073709551600 < unat sz" by (simp add: word_less_nat_alt)
  then obtain x where x: "unat sz = 18446744073709551600 + x" "0 < x" using less_imp_add_positive by metis
  then have "x < 16" using u64_less [of sz] by linarith
  with x have "unat (16 + sz) = x" by (simp add: unat_word_ariths)
  moreover from x \<open>x < 16\<close> have "(x + 4095) div 4096 = 1" by (intro div_nat_eqI) auto
  ultimately have "unat (size_to_num_pages (16 + sz)) = 1"
    using size_to_num_pages_val [of "16 + sz"] \<open>x < 16\<close> by simp
  then have n: "size_to_num_pages (16 + sz) = 1" by (metis unat_1 word_unat_eq_iff)
  have n1: "size_to_num_pages (16 + 1) = 1" by (simp add: size_to_num_pages_def align_up_def)
  have "sz \<noteq> 0" using s by auto
  then show "uk_malloc (bbuddy_allocator mem junk) sz h = uk_malloc (bbuddy_allocator mem junk) 1 h"
    unfolding bbuddy_dispatch uk_malloc_ifpages_def sizeof_metadata_def Let_def n n1 by simp
qed


section \<open>Examples\<close>

definition ex_heap :: "uk_bbpalloc \<Rightarrow> uk_bbpalloc heap" where
  "ex_heap b = \<lparr>hp_pages = b, hp_meta = (\<lambda>_. \<lparr>md_num_pages = 0, md_base = 0\<rparr>), hp_mem = (\<lambda>_. 7), hp_errno = 0\<rparr>"

lemma ex_pages_left:
  obtains b where "uk_allocbbuddy_init (\<lambda>_. 0) 0x100000 0x8000 = Inr (Some (0x100000, b))" "bb_ok b"
    "\<And>n c. num_pages_to_order n = Inr 1 \<Longrightarrow> bbuddy_palloc b n \<noteq> Inr (c, b)"
proof -
  from ex_init obtain b where b: "uk_allocbbuddy_init (\<lambda>_. 0) 0x100000 0x8000 = Inr (Some (0x100000, b))" "bb_ok b"
    "free_pages b = {0x103..<0x108}" by blast
  have k: "1 \<le> FREELIST_SIZE" by (simp add: FREELIST_SIZE_def)
  have "aligned 0x104000 1 \<and> chunk_pages 0x104000 1 \<subseteq> free_pages b"
    by (simp add: aligned_def PAGE_SHIFT_def chunk_pages_def b(3))
  then have none: "find_list (free_head b) 1 \<noteq> FREELIST_SIZE" if "num_pages_to_order n = Inr 1" for n
    using palloc_fails(2) [OF b(2) that k] by blast
  have "bbuddy_palloc b n \<noteq> Inr (c, b)" if "num_pages_to_order n = Inr 1" for n c
  proof -
    have "find_list (free_head b) 1 \<noteq> FREELIST_SIZE" using none that by blast
    from palloc_succeeds [OF b(2) that k this] obtain d b' where "bbuddy_palloc b n = Inr (d, b')"
      "chunk_pages d 1 \<subseteq> free_pages b" "free_pages b' = free_pages b - chunk_pages d 1" by metis
    moreover have "d div 4096 \<in> chunk_pages d 1" by (simp add: chunk_pages_def)
    ultimately have "free_pages b' \<noteq> free_pages b" "bbuddy_palloc b n = Inr (d, b')" by blast+
    then show ?thesis by auto
  qed
  with b that show thesis by blast
qed

lemma ex_malloc:
  obtains b ptr h' where "uk_allocbbuddy_init (\<lambda>_. 0) 0x100000 0x8000 = Inr (Some (0x100000, b))" "bb_ok b"
    "uk_malloc_ifpages bb_palloc 5000 (ex_heap b) \<noteq> Inr (0, ex_heap b)"
    "uk_malloc_ifpages bb_palloc 5000 (ex_heap b) = Inr (ptr, h')" "bb_ok (hp_pages h')" "has_block bb_live h' ptr"
    "holds h' ptr 5000"
proof -
  obtain b where b: "uk_allocbbuddy_init (\<lambda>_. 0) 0x100000 0x8000 = Inr (Some (0x100000, b))" "bb_ok b"
    "\<And>n c. num_pages_to_order n = Inr 1 \<Longrightarrow> bbuddy_palloc b n \<noteq> Inr (c, b)" by (rule ex_pages_left) blast
  have n: "size_to_num_pages (16 + 5000) = 2" by (simp add: size_to_num_pages_def align_up_def)
  have o: "num_pages_to_order (unat (2::u64)) = Inr 1" by (simp add: num_pages_to_order_def flsl.simps)
  have "uk_malloc_ifpages bb_palloc 5000 (ex_heap b) \<noteq> Inr (0, ex_heap b)"
  proof
    assume a: "uk_malloc_ifpages bb_palloc 5000 (ex_heap b) = Inr (0, ex_heap b)"
    then have "\<exists>p. bb_palloc b 2 = Inr (p, b)"
      unfolding uk_malloc_ifpages_def sizeof_metadata_def Let_def n
      by (auto simp: bindr_eq_Inr_iff ex_heap_def put_metadata_def split: if_splits)
    then show False
      using b(3) [OF o] by (auto simp: bb_palloc_def bindr_eq_Inr_iff)
  qed
  then show thesis using b(1,2) bb.malloc_ok [of "ex_heap b" 5000] that by (auto simp: ex_heap_def)
qed

theorem uk_malloc_correct_witness:
  "\<exists>b ptr h'. uk_allocbbuddy_init (\<lambda>_. 0) 0x100000 0x8000 = Inr (Some (0x100000, b)) \<and>
     uk_malloc (bbuddy_allocator (\<lambda>_. 0) 0) 5000 (ex_heap b) = Inr (ptr, h') \<and> holds h' ptr 5000 \<and>
     (\<exists>h''. uk_free (bbuddy_allocator (\<lambda>_. 0) 0) ptr h' = Inr h'' \<and> bb_free h'' = free_pages b)"
proof -
  obtain b where b: "uk_allocbbuddy_init (\<lambda>_. 0) 0x100000 0x8000 = Inr (Some (0x100000, b))" "bb_ok b"
    "uk_malloc_ifpages bb_palloc 5000 (ex_heap b) \<noteq> Inr (0, ex_heap b)" by (rule ex_malloc)
  then show ?thesis using uk_malloc_correct [of "ex_heap b" 5000 "\<lambda>_. 0" 0]
    by (auto simp: ex_heap_def bbuddy_dispatch)
qed

theorem uk_posix_memalign_correct_witness:
  "\<exists>b. uk_allocbbuddy_init (\<lambda>_. 0) 0x100000 0x8000 = Inr (Some (0x100000, b)) \<and>
     (uk_posix_memalign (bbuddy_allocator (\<lambda>_. 0) 0) 8192 100 (ex_heap b) = Inr (ENOMEM, None, ex_heap b) \<or>
      (\<exists>ptr h'. uk_posix_memalign (bbuddy_allocator (\<lambda>_. 0) 0) 8192 100 (ex_heap b) = Inr (0, Some ptr, h') \<and>
         8192 dvd unat ptr \<and> holds h' ptr 100))"
proof -
  obtain b where b: "uk_allocbbuddy_init (\<lambda>_. 0) 0x100000 0x8000 = Inr (Some (0x100000, b))" "bb_ok b" by (rule ex_malloc)
  then show ?thesis using uk_posix_memalign_correct [of "ex_heap b" 100 8192 "\<lambda>_. 0" 0]
    by (auto simp: ex_heap_def)
qed


theorem malloc_size_wraps_witness:
  "uk_malloc (bbuddy_allocator (\<lambda>_. 0) 0) (- 16) (ex_heap empty_bb) = Inl Assert \<and>
   uk_malloc (bbuddy_allocator (\<lambda>_. 0) 0) (- 1) (ex_heap empty_bb) =
     uk_malloc (bbuddy_allocator (\<lambda>_. 0) 0) 1 (ex_heap empty_bb)"
  using malloc_size_wraps [of "- 16" "\<lambda>_. 0" 0 "ex_heap empty_bb"] malloc_size_wraps [of "- 1" "\<lambda>_. 0" 0 "ex_heap empty_bb"]
  by simp

end
