(* ===== verification/Uio.thy ===== *)
theory Uio
  imports Ukalloc
begin

text \<open>
  Scatter/gather transfers (\<^verbatim>\<open>vfscore/uio.h\<close> and \<^verbatim>\<open>subr_uio.c\<close>): a transfer moves bytes
  between a buffer of a file system and the vectors of the caller. Memory is a function from
  addresses to bytes; \<^verbatim>\<open>off_t\<close> and \<^verbatim>\<open>ssize_t\<close> are integers, \<^verbatim>\<open>size_t\<close> is a word.
\<close>

section \<open>Transfers\<close>

type_synonym mem = "u64 \<Rightarrow> u8"

datatype uio_rw = UIO_READ | UIO_WRITE

record iovec =
  iov_base :: u64
  iov_len :: u64

record uio =
  uio_iov :: "iovec list"
  uio_iovcnt :: int
  uio_offset :: int
  uio_resid :: int
  uio_dir :: uio_rw

definition memcpy_wrapper :: "u64 \<Rightarrow> u64 \<Rightarrow> u64 \<Rightarrow> mem \<Rightarrow> int \<times> mem" where
  "memcpy_wrapper dst src cnt m = (0, memcpy dst src cnt m)"

lemma unat_minus_chunk:
  fixes n l :: u64
  assumes "n \<noteq> 0" "l \<noteq> 0"
  shows "unat (n - (if l > n then n else l)) < unat n"
proof -
  have "0 < unat n" "0 < unat l" using assms by (simp_all add: unat_gt_0)
  then show ?thesis by (simp add: unat_sub not_less)
qed

text \<open>
  The loop over the vectors, with the copying function \<open>f\<close> as a parameter as in the source.
  Reading a vector behind the end of the list is undefined.
\<close>

function vfscore_uioforeach ::
  "(u64 \<Rightarrow> u64 \<Rightarrow> u64 \<Rightarrow> mem \<Rightarrow> int \<times> mem) \<Rightarrow> u64 \<Rightarrow> u64 \<Rightarrow> uio \<Rightarrow> mem \<Rightarrow> (int \<times> uio \<times> mem) res" where
  "vfscore_uioforeach f cp n u m =
     (if n = 0 \<or> uio_resid u = 0 then Inr (0, u, m)
      else case uio_iov u of
             [] \<Rightarrow> Inl Undef
           | iov # iovs \<Rightarrow>
               if iov_len iov = 0
               then vfscore_uioforeach f cp n (u\<lparr>uio_iov := iovs, uio_iovcnt := uio_iovcnt u - 1\<rparr>) m
               else let cnt = (if iov_len iov > n then n else iov_len iov);
                        (ret, m') = (case uio_dir u of
                           UIO_READ \<Rightarrow> f (iov_base iov) cp cnt m
                         | UIO_WRITE \<Rightarrow> f cp (iov_base iov) cnt m);
                        iov' = iov\<lparr>iov_base := iov_base iov + cnt, iov_len := iov_len iov - cnt\<rparr>;
                        u' = u\<lparr>uio_iov := iov' # iovs, uio_offset := uio_offset u + uint cnt,
                               uio_resid := uio_resid u - uint cnt\<rparr>
                    in if ret \<noteq> 0 then Inr (ret, u', m')
                       else vfscore_uioforeach f (cp + cnt) (n - cnt) u' m')"
  by auto
termination
proof (relation "measures [\<lambda>(f, cp, n, u, m). unat n, \<lambda>(f, cp, n, u, m). length (uio_iov u)]", goal_cases)
  case (3 f cp n u m iov iovs cnt)
  then show ?case using unat_minus_chunk [of n "iov_len iov"] by auto
qed auto


declare vfscore_uioforeach.simps [simp del]

text \<open>The length is converted to \<^verbatim>\<open>int\<close> at the call and back to \<^verbatim>\<open>size_t\<close> inside.\<close>

definition vfscore_uiomove :: "u64 \<Rightarrow> int \<Rightarrow> uio \<Rightarrow> mem \<Rightarrow> (int \<times> uio \<times> mem) res" where
  "vfscore_uiomove cp n u m = vfscore_uioforeach memcpy_wrapper cp (word_of_int (to_int n)) u m"

section \<open>What a transfer moves\<close>

text \<open>\<open>span a n\<close> are the \<open>n\<close> addresses from \<open>a\<close>, \<open>addrs\<close> the addresses of a list of vectors.\<close>

definition span :: "u64 \<Rightarrow> nat \<Rightarrow> u64 list" where
  "span a n = map (\<lambda>i. a + of_nat i) [0..<n]"

definition addrs :: "iovec list \<Rightarrow> u64 list" where
  "addrs vs = concat (map (\<lambda>v. span (iov_base v) (unat (iov_len v))) vs)"

definition moved :: "u64 list \<Rightarrow> u64 list \<Rightarrow> mem \<Rightarrow> mem \<Rightarrow> bool" where
  "moved dst src m m' \<longleftrightarrow> map m' dst = map m src \<and> (\<forall>x. x \<notin> set dst \<longrightarrow> m' x = m x)"

lemma length_span [simp]: "length (span a n) = n"
  by (simp add: span_def)

lemma span_0 [simp]: "span a 0 = []"
  by (simp add: span_def)

lemma nth_span [simp]: "i < n \<Longrightarrow> span a n ! i = a + of_nat i"
  by (simp add: span_def)

lemma span_add: "span a (i + j) = span a i @ span (a + of_nat i) j"
  by (rule nth_equalityI) (auto simp: nth_append)

lemma take_span: "k \<le> n \<Longrightarrow> take k (span a n) = span a k"
  by (rule nth_equalityI) auto

lemma in_span: "x \<in> set (span a n) \<longleftrightarrow> (\<exists>i < n. x = a + of_nat i)"
  by (auto simp: span_def)

lemma in_span_iff: "n \<le> 2 ^ 64 \<Longrightarrow> x \<in> set (span a n) \<longleftrightarrow> unat (x - a) < n"
proof -
  assume n: "n \<le> 2 ^ 64"
  have "unat (of_nat i :: u64) = i" if "i < n" for i
    using that n by (simp add: unat_of_nat)
  then show ?thesis
    unfolding in_span by (auto intro!: exI [of _ "unat (x - a)"])
qed

lemma distinct_span: "n \<le> 2 ^ 64 \<Longrightarrow> distinct (span a n)"
proof -
  assume n: "n \<le> 2 ^ 64"
  have "inj_on (\<lambda>i. a + of_nat i) {0..<n}"
  proof (rule inj_onI)
    fix i j assume "i \<in> {0..<n}" "j \<in> {0..<n}" "a + of_nat i = a + of_nat j"
    then have "unat (of_nat i :: u64) = unat (of_nat j :: u64)" "i < n" "j < n" by simp_all
    then show "i = j" using n by (simp add: unat_of_nat)
  qed
  then show ?thesis by (simp add: span_def distinct_map)
qed

lemma addrs_simps [simp]: "addrs [] = []" "addrs (v # vs) = span (iov_base v) (unat (iov_len v)) @ addrs vs"
  by (simp_all add: addrs_def)

lemma moved_refl [simp]: "moved [] [] m m"
  by (simp add: moved_def)

lemma moved_append:
  assumes "moved d1 s1 m m1" "moved d2 s2 m1 m2" "set d1 \<inter> set d2 = {}" "set d1 \<inter> set s2 = {}"
  shows "moved (d1 @ d2) (s1 @ s2) m m2"
proof -
  have "map m2 d1 = map m1 d1" using assms(2,3) by (auto simp: moved_def)
  moreover have "map m1 s2 = map m s2" using assms(1,4) by (auto simp: moved_def)
  ultimately show ?thesis using assms(1,2) unfolding moved_def map_append set_append by auto
qed

lemma moved_memcpy: "moved (span d (unat n)) (span s (unat n)) m (memcpy d s n m)"
proof -
  have lt: "(of_nat i :: u64) < n" "unat (of_nat i :: u64) = i" if "i < unat n" for i
  proof -
    have "i < 2 ^ 64" using that u64_less_exp [of n] by (rule order.strict_trans)
    then show "unat (of_nat i :: u64) = i" by (simp add: unat_of_nat)
    then show "(of_nat i :: u64) < n" using that by (simp add: word_less_nat_alt)
  qed
  have "map (memcpy d s n m) (span d (unat n)) = map m (span s (unat n))"
    by (rule nth_equalityI) (auto simp: memcpy_def lt)
  moreover have "memcpy d s n m x = m x" if "x \<notin> set (span d (unat n))" for x
  proof -
    have "\<not> unat (x - d) < unat n" using that in_span_iff [OF less_imp_le [OF u64_less_exp], of x d n] by simp
    then show ?thesis by (simp add: memcpy_def word_less_nat_alt)
  qed
  ultimately show ?thesis by (auto simp: moved_def)
qed


text \<open>The destination and the source of a transfer of \<open>n\<close> bytes with the buffer at \<open>cp\<close>.\<close>

definition uio_dst :: "u64 \<Rightarrow> nat \<Rightarrow> uio \<Rightarrow> u64 list" where
  "uio_dst cp n u = (case uio_dir u of UIO_READ \<Rightarrow> take n (addrs (uio_iov u)) | UIO_WRITE \<Rightarrow> span cp n)"

definition uio_src :: "u64 \<Rightarrow> nat \<Rightarrow> uio \<Rightarrow> u64 list" where
  "uio_src cp n u = (case uio_dir u of UIO_READ \<Rightarrow> span cp n | UIO_WRITE \<Rightarrow> take n (addrs (uio_iov u)))"

definition uio_ok :: "u64 \<Rightarrow> nat \<Rightarrow> uio \<Rightarrow> bool" where
  "uio_ok cp n u \<longleftrightarrow> n \<le> length (addrs (uio_iov u)) \<and> int n \<le> uio_resid u \<and> distinct (addrs (uio_iov u)) \<and>
     set (span cp n) \<inter> set (addrs (uio_iov u)) = {}"

text \<open>The state of the transfer after \<open>cnt\<close> bytes of its first vector, and what is left of it.\<close>

definition uio_advance :: "iovec \<Rightarrow> iovec list \<Rightarrow> u64 \<Rightarrow> uio \<Rightarrow> uio" where
  "uio_advance iov iovs cnt u =
     u\<lparr>uio_iov := iov\<lparr>iov_base := iov_base iov + cnt, iov_len := iov_len iov - cnt\<rparr> # iovs,
       uio_offset := uio_offset u + uint cnt, uio_resid := uio_resid u - uint cnt\<rparr>"

lemma uio_first_vector:
  assumes ok: "uio_ok cp (unat n) u" and iv: "uio_iov u = iov # iovs" and cnt: "cnt \<le> n" "cnt \<le> iov_len iov"
  defines "u1 \<equiv> uio_advance iov iovs cnt u"
    and "d1 \<equiv> (case uio_dir u of UIO_READ \<Rightarrow> span (iov_base iov) (unat cnt) | UIO_WRITE \<Rightarrow> span cp (unat cnt))"
    and "s1 \<equiv> (case uio_dir u of UIO_READ \<Rightarrow> span cp (unat cnt) | UIO_WRITE \<Rightarrow> span (iov_base iov) (unat cnt))"
  shows "uio_ok (cp + cnt) (unat (n - cnt)) u1"
    and "uio_dst cp (unat n) u = d1 @ uio_dst (cp + cnt) (unat (n - cnt)) u1"
    and "uio_src cp (unat n) u = s1 @ uio_src (cp + cnt) (unat (n - cnt)) u1"
    and "set d1 \<inter> set (uio_dst (cp + cnt) (unat (n - cnt)) u1) = {}"
    and "set d1 \<inter> set (uio_src (cp + cnt) (unat (n - cnt)) u1) = {}"
proof -
  have le: "unat cnt \<le> unat n" "unat cnt \<le> unat (iov_len iov)" using cnt by (simp_all add: word_le_nat_alt)
  have sub: "unat (n - cnt) = unat n - unat cnt" "unat (iov_len iov - cnt) = unat (iov_len iov) - unat cnt"
    using cnt by (simp_all add: unat_sub)
  let ?A = "span (iov_base iov) (unat cnt)" and ?C = "span cp (unat cnt)" and ?D = "span (cp + cnt) (unat (n - cnt))"
  have A: "addrs (uio_iov u) = ?A @ addrs (uio_iov u1)"
    using span_add [of "iov_base iov" "unat cnt" "unat (iov_len iov - cnt)"] le(2) sub(2)
    by (simp add: iv u1_def uio_advance_def)
  have C: "span cp (unat n) = ?C @ ?D"
    using span_add [of cp "unat cnt" "unat (n - cnt)"] le(1) sub(1) by simp
  have T: "take (unat n) (addrs (uio_iov u)) = ?A @ take (unat (n - cnt)) (addrs (uio_iov u1))"
    unfolding A using le(1) sub(1) by simp
  have sep: "set (span cp (unat n)) \<inter> set (addrs (uio_iov u)) = {}" "distinct (addrs (uio_iov u))"
    "unat n \<le> length (addrs (uio_iov u))" "int (unat n) \<le> uio_resid u" using ok unfolding uio_ok_def by blast+
  show "uio_ok (cp + cnt) (unat (n - cnt)) u1"
    using sep le(1) sub(1) unfolding A C uio_ok_def by (auto simp: u1_def uio_advance_def)
  have dC: "distinct (?C @ ?D)" using distinct_span [OF less_imp_le [OF u64_less_exp], of cp n] unfolding C .
  have dir: "uio_dir u1 = uio_dir u" by (simp add: u1_def uio_advance_def)
  show "uio_dst cp (unat n) u = d1 @ uio_dst (cp + cnt) (unat (n - cnt)) u1"
    and "uio_src cp (unat n) u = s1 @ uio_src (cp + cnt) (unat (n - cnt)) u1"
    unfolding uio_dst_def uio_src_def d1_def s1_def dir T C by (simp_all split: uio_rw.split)
  show "set d1 \<inter> set (uio_dst (cp + cnt) (unat (n - cnt)) u1) = {}"
    "set d1 \<inter> set (uio_src (cp + cnt) (unat (n - cnt)) u1) = {}"
    using sep(1,2) dC set_take_subset [of "unat (n - cnt)" "addrs (uio_iov u1)"]
    unfolding d1_def uio_dst_def uio_src_def dir A C by (auto split: uio_rw.split)
qed

lemma uioforeach_moves:
  assumes "uio_ok cp (unat n) u"
  shows "\<exists>u' m'. vfscore_uioforeach memcpy_wrapper cp n u m = Inr (0, u', m') \<and>
     uio_offset u' = uio_offset u + uint n \<and> uio_resid u' = uio_resid u - uint n \<and> uio_dir u' = uio_dir u \<and>
     moved (uio_dst cp (unat n) u) (uio_src cp (unat n) u) m m'"
  using assms
proof (induction "memcpy_wrapper" cp n u m rule: vfscore_uioforeach.induct)
  case (1 cp n u m)
  note ok = 1(3)
  show ?case
  proof (cases "n = 0")
    case True
    then show ?thesis by (auto simp: vfscore_uioforeach.simps [of _ cp] uio_dst_def uio_src_def split: uio_rw.split)
  next
    case False
    then have n0: "0 < unat n" by (simp add: unat_gt_0)
    then have ne: "\<not> (n = 0 \<or> uio_resid u = 0)" using ok False unfolding uio_ok_def by linarith
    obtain iov iovs where iv: "uio_iov u = iov # iovs" using ok n0 by (cases "uio_iov u") (auto simp: uio_ok_def)
    show ?thesis
    proof (cases "iov_len iov = 0")
      case True
      let ?u = "u\<lparr>uio_iov := iovs, uio_iovcnt := uio_iovcnt u - 1\<rparr>"
      have eq: "addrs (uio_iov u) = addrs (uio_iov ?u)" using True iv by simp
      have "uio_ok cp (unat n) ?u" using ok unfolding uio_ok_def eq by simp
      moreover have "uio_dst cp (unat n) u = uio_dst cp (unat n) ?u" "uio_src cp (unat n) u = uio_src cp (unat n) ?u"
        unfolding uio_dst_def uio_src_def eq by simp_all
      ultimately show ?thesis
        using 1(1) [OF ne iv True] ne iv True by (simp add: vfscore_uioforeach.simps [of _ cp n u])
    next
      case nz: False
      define cnt where "cnt = (if iov_len iov > n then n else iov_len iov)"
      define m1 where "m1 = (case uio_dir u of UIO_READ \<Rightarrow> memcpy (iov_base iov) cp cnt m
        | UIO_WRITE \<Rightarrow> memcpy cp (iov_base iov) cnt m)"
      let ?u1 = "uio_advance iov iovs cnt u"
      have cnt: "cnt \<le> n" "cnt \<le> iov_len iov" by (auto simp: cnt_def)
      note first = uio_first_vector [OF ok iv cnt]
      have eq: "vfscore_uioforeach memcpy_wrapper cp n u m =
          vfscore_uioforeach memcpy_wrapper (cp + cnt) (n - cnt) ?u1 m1"
        using ne iv nz by (subst vfscore_uioforeach.simps)
          (simp add: memcpy_wrapper_def m1_def uio_advance_def cnt_def Let_def split: uio_rw.split)
      have cp0: "(0, m1) = (case uio_dir u of UIO_READ \<Rightarrow> memcpy_wrapper (iov_base iov) cp cnt m
          | UIO_WRITE \<Rightarrow> memcpy_wrapper cp (iov_base iov) cnt m)"
        by (simp add: m1_def memcpy_wrapper_def split: uio_rw.split)
      from 1(2) [OF ne iv nz cnt_def refl cp0 refl uio_advance_def _ first(1)] obtain u' m' where
        "vfscore_uioforeach memcpy_wrapper (cp + cnt) (n - cnt) ?u1 m1 = Inr (0, u', m')"
        "uio_offset u' = uio_offset ?u1 + uint (n - cnt)" "uio_resid u' = uio_resid ?u1 - uint (n - cnt)"
        "uio_dir u' = uio_dir ?u1"
        "moved (uio_dst (cp + cnt) (unat (n - cnt)) ?u1) (uio_src (cp + cnt) (unat (n - cnt)) ?u1) m1 m'"
        by blast
      moreover have "uint n = uint cnt + uint (n - cnt)"
        using cnt(1) by (simp only: uint_nat unat_sub word_le_nat_alt)
      moreover have "moved (case uio_dir u of UIO_READ \<Rightarrow> span (iov_base iov) (unat cnt) | UIO_WRITE \<Rightarrow> span cp (unat cnt))
          (case uio_dir u of UIO_READ \<Rightarrow> span cp (unat cnt) | UIO_WRITE \<Rightarrow> span (iov_base iov) (unat cnt)) m m1"
        by (simp add: m1_def moved_memcpy split: uio_rw.split)
      note moved_append [OF this _ first(4,5)]
      ultimately show ?thesis
        unfolding eq first(2,3) by (auto simp: uio_advance_def)
    qed
  qed
qed

lemma uiomove_moves:
  assumes "0 \<le> n" "n < 2147483648" "uio_ok cp (nat n) u"
  obtains u' m' where "vfscore_uiomove cp n u m = Inr (0, u', m')"
    "uio_offset u' = uio_offset u + n" "uio_resid u' = uio_resid u - n"
    "moved (uio_dst cp (nat n) u) (uio_src cp (nat n) u) m m'"
proof -
  have n: "to_int n = n" using assms(1,2) by simp
  have u: "uint (word_of_int n :: u64) = n" using assms(1,2) by (simp add: uint_word_of_int)
  then have "unat (word_of_int n :: u64) = nat n" by (simp only: unat_eq_nat_uint)
  with uioforeach_moves [of cp "word_of_int n" u m] assms(3) u that show thesis
    unfolding vfscore_uiomove_def n by metis
qed

end
