(* ===== verification/Bitmap.thy ===== *)
theory Bitmap
  imports Prelude
begin

text \<open>
  Bitmaps (\<^verbatim>\<open>include/uk/bitops.h\<close>, \<^verbatim>\<open>bitmap.h\<close>, \<^verbatim>\<open>bitcount.h\<close>) in arrays of 64-bit words: searches,
  ranges, regions and population counts. Positions and sizes are those of bitmaps of less than
  \<open>2 ^ 31\<close> bits, where the \<^verbatim>\<open>int\<close> variables of the source do not overflow.
\<close>

type_synonym bitmap = "u64 list"

section \<open>Words\<close>

definition UK_BITS_PER_LONG :: nat where "UK_BITS_PER_LONG = 64"

definition word_at :: "bitmap \<Rightarrow> nat \<Rightarrow> u64 res" where
  "word_at ws i = (if i < length ws then Inr (ws ! i) else Inl Oob)"

definition put_word :: "bitmap \<Rightarrow> nat \<Rightarrow> u64 \<Rightarrow> bitmap res" where
  "put_word ws i x = (if i < length ws then Inr (ws[i := x]) else Inl Oob)"

definition UK_BIT_WORD :: "nat \<Rightarrow> nat" where "UK_BIT_WORD nr = nr div UK_BITS_PER_LONG"

definition UK_BITS_TO_LONGS :: "nat \<Rightarrow> nat" where
  "UK_BITS_TO_LONGS n = (n + (UK_BITS_PER_LONG - 1)) div UK_BITS_PER_LONG"

definition UK_BITMAP_FIRST_WORD_MASK :: "nat \<Rightarrow> u64" where
  "UK_BITMAP_FIRST_WORD_MASK start = push_bit (start mod UK_BITS_PER_LONG) (-1)"

text \<open>The shift count is \<^verbatim>\<open>UK_BITS_PER_LONG - n\<close>; a shift by 64 or more is undefined, and for \<open>n > 64\<close> the count is a huge unsigned number.\<close>

definition UK_BITMAP_LAST_WORD_MASK :: "nat \<Rightarrow> u64 res" where
  "UK_BITMAP_LAST_WORD_MASK n =
     (if 0 < n \<and> n \<le> UK_BITS_PER_LONG then Inr (drop_bit (UK_BITS_PER_LONG - n) (-1)) else Inl Undef)"

text \<open>
  The lowest and the highest set bit of a word, by the instructions \<^verbatim>\<open>bsf\<close> and \<^verbatim>\<open>bsr\<close>. Their
  result is undefined for 0; here it is 64 and 0, and the callers test for 0 first.
\<close>

definition ukarch_ffsl :: "u64 \<Rightarrow> nat" where
  "ukarch_ffsl w = length (takeWhile (\<lambda>i. \<not> bit w i) [0..<64])"

definition ukarch_flsl :: "u64 \<Rightarrow> nat" where
  "ukarch_flsl w = 63 - length (takeWhile (\<lambda>i. \<not> bit w (63 - i)) [0..<64])"

section \<open>Population counts\<close>

definition uk_bitcount16 :: "16 word \<Rightarrow> 16 word" where
  "uk_bitcount16 x =
     (let x = (x AND 0x5555) + drop_bit 1 (x AND 0xaaaa);
          x = (x AND 0x3333) + drop_bit 2 (x AND 0xcccc);
          x = (x + drop_bit 4 x) AND 0x0f0f;
          x = (x + drop_bit 8 x) AND 0x00ff
      in x)"

definition uk_bitcount32 :: "u32 \<Rightarrow> u32" where
  "uk_bitcount32 x =
     (let x = (x AND 0x55555555) + drop_bit 1 (x AND 0xaaaaaaaa);
          x = (x AND 0x33333333) + drop_bit 2 (x AND 0xcccccccc);
          x = (x + drop_bit 4 x) AND 0x0f0f0f0f;
          x = x + drop_bit 8 x;
          x = (x + drop_bit 16 x) AND 0x000000ff
      in x)"

definition uk_bitcount64 :: "u64 \<Rightarrow> u64" where
  "uk_bitcount64 x =
     (let x = (x AND 0x5555555555555555) + drop_bit 1 (x AND 0xaaaaaaaaaaaaaaaa);
          x = (x AND 0x3333333333333333) + drop_bit 2 (x AND 0xcccccccccccccccc);
          x = (x + drop_bit 4 x) AND 0x0f0f0f0f0f0f0f0f;
          x = x + drop_bit 8 x;
          x = x + drop_bit 16 x;
          x = (x + drop_bit 32 x) AND 0x000000ff
      in x)"

section \<open>Searches\<close>

text \<open>
  The loop over whole words and the rest of the last word, which the searches share. \<open>f\<close> is the
  identity for set bits and the complement for clear bits.
\<close>

fun scan_words :: "(u64 \<Rightarrow> u64) \<Rightarrow> bitmap \<Rightarrow> nat \<Rightarrow> nat \<Rightarrow> nat res" where
  "scan_words f [] sz bt = (if sz = 0 then Inr bt else Inl Oob)"
| "scan_words f (w # ws) sz bt =
     (if sz \<ge> UK_BITS_PER_LONG
      then if f w = 0 then scan_words f ws (sz - UK_BITS_PER_LONG) (bt + UK_BITS_PER_LONG) else Inr (bt + ukarch_ffsl (f w))
      else if sz \<noteq> 0
      then bindr (UK_BITMAP_LAST_WORD_MASK sz) (\<lambda>m.
             let mask = f w AND m in Inr (if mask \<noteq> 0 then bt + ukarch_ffsl mask else bt + sz))
      else Inr bt)"

definition uk_find_first_bit :: "bitmap \<Rightarrow> nat \<Rightarrow> nat res" where
  "uk_find_first_bit addr sz = scan_words (\<lambda>w. w) addr sz 0"

definition uk_find_first_zero_bit :: "bitmap \<Rightarrow> nat \<Rightarrow> nat res" where
  "uk_find_first_zero_bit addr sz = scan_words (\<lambda>w. NOT w) addr sz 0"

text \<open>The searches from an offset: first the rest of the word of the offset, then the loop.\<close>

definition find_next :: "(u64 \<Rightarrow> u64) \<Rightarrow> bitmap \<Rightarrow> nat \<Rightarrow> nat \<Rightarrow> nat res" where
  "find_next f addr sz offset =
     (if offset \<ge> sz then Inr sz
      else let pos = offset div UK_BITS_PER_LONG; offs = offset mod UK_BITS_PER_LONG; bt = UK_BITS_PER_LONG * pos
           in if offs \<noteq> 0
              then bindr (word_at addr pos) (\<lambda>w.
                   bindr (UK_BITMAP_LAST_WORD_MASK offs) (\<lambda>m.
                     let mask = f w AND NOT m
                     in if mask \<noteq> 0 then Inr (bt + ukarch_ffsl mask)
                        else if sz - bt \<le> UK_BITS_PER_LONG then Inr sz
                        else scan_words f (drop (pos + 1) addr) (sz - (bt + UK_BITS_PER_LONG)) (bt + UK_BITS_PER_LONG)))
              else scan_words f (drop pos addr) (sz - bt) bt)"

definition uk_find_next_bit :: "bitmap \<Rightarrow> nat \<Rightarrow> nat \<Rightarrow> nat res" where
  "uk_find_next_bit addr sz offset = find_next (\<lambda>w. w) addr sz offset"

definition uk_find_next_zero_bit :: "bitmap \<Rightarrow> nat \<Rightarrow> nat \<Rightarrow> nat res" where
  "uk_find_next_zero_bit addr sz offset = find_next (\<lambda>w. NOT w) addr sz offset"

fun last_word :: "bitmap \<Rightarrow> nat \<Rightarrow> nat \<Rightarrow> nat res" where
  "last_word addr sz 0 = Inr sz"
| "last_word addr sz (Suc pos) =
     bindr (word_at addr pos) (\<lambda>w.
       if w \<noteq> 0 then Inr (UK_BITS_PER_LONG * pos + ukarch_flsl w) else last_word addr sz pos)"

definition uk_find_last_bit :: "bitmap \<Rightarrow> nat \<Rightarrow> nat res" where
  "uk_find_last_bit addr sz =
     (let pos = sz div UK_BITS_PER_LONG; offs = sz mod UK_BITS_PER_LONG
      in if offs \<noteq> 0
         then bindr (word_at addr pos) (\<lambda>w.
              bindr (UK_BITMAP_LAST_WORD_MASK offs) (\<lambda>m.
                let mask = w AND m
                in if mask \<noteq> 0 then Inr (UK_BITS_PER_LONG * pos + ukarch_flsl mask) else last_word addr sz pos))
         else last_word addr sz pos)"

section \<open>Single bits\<close>

text \<open>Byte \<open>k\<close> of the array, on a little-endian machine.\<close>

definition byte_of :: "bitmap \<Rightarrow> int \<Rightarrow> u8 res" where
  "byte_of ws k =
     (if 0 \<le> k \<and> nat k div 8 < length ws then Inr (ucast (drop_bit (8 * (nat k mod 8)) (ws ! (nat k div 8)))) else Inl Oob)"

definition uk_test_bit :: "int \<Rightarrow> bitmap \<Rightarrow> bool res" where
  "uk_test_bit nr addr =
     bindr (byte_of addr (drop_bit 3 nr)) (\<lambda>b. Inr (push_bit (nat (nr AND 7)) 1 AND b \<noteq> 0))"

definition put_byte :: "bitmap \<Rightarrow> nat \<Rightarrow> u8 \<Rightarrow> bitmap" where
  "put_byte ws k b =
     (let s = 8 * (k mod 8)
      in ws[k div 8 := (ws ! (k div 8) AND NOT (push_bit s 0xff)) OR push_bit s (ucast b)])"

definition uk_test_and_set_bit :: "int \<Rightarrow> bitmap \<Rightarrow> (bool \<times> bitmap) res" where
  "uk_test_and_set_bit nr addr =
     bindr (byte_of addr (drop_bit 3 nr)) (\<lambda>orig.
       let mask = push_bit (nat (nr AND 7)) 1
       in Inr (orig AND mask \<noteq> 0, put_byte addr (nat (drop_bit 3 nr)) (orig OR mask)))"

definition uk_test_and_clear_bit :: "int \<Rightarrow> bitmap \<Rightarrow> (bool \<times> bitmap) res" where
  "uk_test_and_clear_bit nr addr =
     bindr (byte_of addr (drop_bit 3 nr)) (\<lambda>orig.
       let mask = push_bit (nat (nr AND 7)) 1
       in Inr (orig AND mask \<noteq> 0, put_byte addr (nat (drop_bit 3 nr)) (orig AND NOT mask)))"

definition uk_set_bit :: "int \<Rightarrow> bitmap \<Rightarrow> bitmap res" where
  "uk_set_bit nr addr = bindr (uk_test_and_set_bit nr addr) (\<lambda>(_, ws). Inr ws)"

definition uk_clear_bit :: "int \<Rightarrow> bitmap \<Rightarrow> bitmap res" where
  "uk_clear_bit nr addr = bindr (uk_test_and_clear_bit nr addr) (\<lambda>(_, ws). Inr ws)"

section \<open>Ranges\<close>

text \<open>The loops of \<^verbatim>\<open>uk_bitmap_set\<close> and \<^verbatim>\<open>uk_bitmap_clear\<close>; \<open>f\<close> combines a word with the mask.
  The number \<open>n\<close> of bits for the current word is never 0.\<close>

function range_loop :: "(u64 \<Rightarrow> u64 \<Rightarrow> u64) \<Rightarrow> nat \<Rightarrow> nat \<Rightarrow> nat \<Rightarrow> nat \<Rightarrow> u64 \<Rightarrow> bitmap \<Rightarrow> bitmap res" where
  "range_loop f sz i nr n mk ws =
     (if nr \<ge> n \<and> n > 0
      then bindr (word_at ws i) (\<lambda>w. bindr (put_word ws i (f w mk)) (\<lambda>ws'.
             range_loop f sz (i + 1) (nr - n) UK_BITS_PER_LONG (-1) ws'))
      else if nr \<noteq> 0
      then bindr (UK_BITMAP_LAST_WORD_MASK sz) (\<lambda>m. bindr (word_at ws i) (\<lambda>w. put_word ws i (f w (mk AND m))))
      else Inr ws)"
  by pat_completeness auto
termination by (relation "measure (\<lambda>(_, _, _, nr, _). nr)") auto

declare range_loop.simps [simp del]

definition bitmap_range :: "(u64 \<Rightarrow> u64 \<Rightarrow> u64) \<Rightarrow> bitmap \<Rightarrow> nat \<Rightarrow> nat \<Rightarrow> bitmap res" where
  "bitmap_range f mp start nr =
     range_loop f (start + nr) (UK_BIT_WORD start) nr (UK_BITS_PER_LONG - start mod UK_BITS_PER_LONG)
       (UK_BITMAP_FIRST_WORD_MASK start) mp"

definition uk_bitmap_set :: "bitmap \<Rightarrow> nat \<Rightarrow> nat \<Rightarrow> bitmap res" where
  "uk_bitmap_set mp start nr = bitmap_range (\<lambda>w m. w OR m) mp start nr"

definition uk_bitmap_clear :: "bitmap \<Rightarrow> nat \<Rightarrow> nat \<Rightarrow> bitmap res" where
  "uk_bitmap_clear mp start nr = bitmap_range (\<lambda>w m. w AND NOT m) mp start nr"

text \<open>\<^verbatim>\<open>memset\<close> of the whole words, and a last partial word.\<close>

definition uk_bitmap_zero :: "bitmap \<Rightarrow> nat \<Rightarrow> bitmap res" where
  "uk_bitmap_zero addr sz =
     (let n = UK_BITS_TO_LONGS sz in if n \<le> length addr then Inr (replicate n 0 @ drop n addr) else Inl Oob)"

definition uk_bitmap_fill :: "bitmap \<Rightarrow> nat \<Rightarrow> bitmap res" where
  "uk_bitmap_fill addr sz =
     (let tail = sz mod UK_BITS_PER_LONG; n = UK_BIT_WORD sz
      in if n \<le> length addr
         then let ws = replicate n (-1) @ drop n addr
              in if tail \<noteq> 0 then bindr (UK_BITMAP_LAST_WORD_MASK tail) (put_word ws n) else Inr ws
         else Inl Oob)"

text \<open>The loop over the whole words of one or two bitmaps, and the test of the rest.\<close>

definition all_words :: "(u64 \<Rightarrow> bool) \<Rightarrow> (u64 \<Rightarrow> u64 \<Rightarrow> bool) \<Rightarrow> bitmap \<Rightarrow> nat \<Rightarrow> bool res" where
  "all_words whole rest addr sz =
     (let n = UK_BIT_WORD sz; tail = sz mod UK_BITS_PER_LONG
      in if \<not> list_all whole (take n addr) then Inr False
         else if length addr < n then Inl Oob
         else if tail \<noteq> 0
         then bindr (UK_BITMAP_LAST_WORD_MASK tail) (\<lambda>m. bindr (word_at addr n) (\<lambda>w. Inr (rest w m)))
         else Inr True)"

definition uk_bitmap_full :: "bitmap \<Rightarrow> nat \<Rightarrow> bool res" where
  "uk_bitmap_full addr sz = all_words (\<lambda>w. w = -1) (\<lambda>w m. w AND m = m) addr sz"

definition uk_bitmap_empty :: "bitmap \<Rightarrow> nat \<Rightarrow> bool res" where
  "uk_bitmap_empty addr sz = all_words (\<lambda>w. w = 0) (\<lambda>w m. w AND m = 0) addr sz"

text \<open>\<open>uk_bitmap_equal\<close> compares word by word; both arrays have the words of \<open>sz\<close> bits.\<close>

definition uk_bitmap_equal :: "bitmap \<Rightarrow> bitmap \<Rightarrow> nat \<Rightarrow> bool res" where
  "uk_bitmap_equal pa pb sz = all_words (\<lambda>x. x = 0) (\<lambda>x m. x AND m = 0) (map2 (XOR) pa pb) sz"

definition uk_bitmap_weight :: "bitmap \<Rightarrow> nat \<Rightarrow> nat res" where
  "uk_bitmap_weight addr sz =
     (let n = UK_BIT_WORD sz; tail = sz mod UK_BITS_PER_LONG; sum = sum_list (map (unat \<circ> uk_bitcount64) (take n addr))
      in if length addr < n then Inl Oob
         else if tail \<noteq> 0
         then bindr (UK_BITMAP_LAST_WORD_MASK tail) (\<lambda>m. bindr (word_at addr n) (\<lambda>w. Inr (sum + unat (uk_bitcount64 (w AND m)))))
         else Inr sum)"

definition map_words :: "(u64 \<Rightarrow> u64 \<Rightarrow> u64) \<Rightarrow> bitmap \<Rightarrow> bitmap \<Rightarrow> bitmap \<Rightarrow> nat \<Rightarrow> bitmap res" where
  "map_words f dst src1 src2 sz =
     (let n = UK_BITS_TO_LONGS sz
      in if n \<le> length dst \<and> n \<le> length src1 \<and> n \<le> length src2
         then Inr (map2 f (take n src1) (take n src2) @ drop n dst) else Inl Oob)"

definition uk_bitmap_complement :: "bitmap \<Rightarrow> bitmap \<Rightarrow> nat \<Rightarrow> bitmap res" where
  "uk_bitmap_complement dst src sz = map_words (\<lambda>x _. NOT x) dst src src sz"

definition uk_bitmap_or :: "bitmap \<Rightarrow> bitmap \<Rightarrow> bitmap \<Rightarrow> nat \<Rightarrow> bitmap res" where
  "uk_bitmap_or = map_words (OR)"

definition uk_bitmap_and :: "bitmap \<Rightarrow> bitmap \<Rightarrow> bitmap \<Rightarrow> nat \<Rightarrow> bitmap res" where
  "uk_bitmap_and = map_words (AND)"

definition uk_bitmap_xor :: "bitmap \<Rightarrow> bitmap \<Rightarrow> bitmap \<Rightarrow> nat \<Rightarrow> bitmap res" where
  "uk_bitmap_xor = map_words (XOR)"

section \<open>Areas and regions\<close>

text \<open>The retry loop; each round starts behind a set bit of the last candidate.\<close>

definition align_index :: "nat \<Rightarrow> nat \<Rightarrow> nat \<Rightarrow> nat" where
  "align_index align_mask align_offset index =
     unat (((of_nat index + of_nat align_offset + of_nat align_mask) AND NOT (of_nat align_mask)) - of_nat align_offset :: u32)"

partial_function (option) find_area :: "bitmap \<Rightarrow> nat \<Rightarrow> nat \<Rightarrow> nat \<Rightarrow> nat \<Rightarrow> nat \<Rightarrow> nat res option" where
  "find_area mp sz start nr align_mask align_offset =
     (case uk_find_next_zero_bit mp sz start of
        Inl e \<Rightarrow> Some (Inl e)
      | Inr i \<Rightarrow>
          let index = align_index align_mask align_offset i; en = index + nr
          in if en > sz then Some (Inr en)
             else case uk_find_next_bit mp en index of
                    Inl e \<Rightarrow> Some (Inl e)
                  | Inr j \<Rightarrow> if j < en then find_area mp sz (j + 1) nr align_mask align_offset else Some (Inr index))"

definition uk_bitmap_find_next_zero_area_off :: "bitmap \<Rightarrow> nat \<Rightarrow> nat \<Rightarrow> nat \<Rightarrow> nat \<Rightarrow> nat \<Rightarrow> nat res" where
  "uk_bitmap_find_next_zero_area_off mp sz start nr align_mask align_offset =
     (case find_area mp sz start nr align_mask align_offset of None \<Rightarrow> Inl Hang | Some r \<Rightarrow> r)"

definition uk_bitmap_find_next_zero_area :: "bitmap \<Rightarrow> nat \<Rightarrow> nat \<Rightarrow> nat \<Rightarrow> nat \<Rightarrow> nat res" where
  "uk_bitmap_find_next_zero_area mp sz start nr align_mask = uk_bitmap_find_next_zero_area_off mp sz start nr align_mask 0"

text \<open>\<^verbatim>\<open>__uk_bitopts_reg_op\<close>: the mask of a region within a word, and the three operations on its words.\<close>

definition region_mask :: "nat \<Rightarrow> nat \<Rightarrow> u64" where
  "region_mask pos order =
     (let nbits = min (2 ^ order) UK_BITS_PER_LONG; m = push_bit (nbits - 1) 1
      in push_bit (pos mod UK_BITS_PER_LONG) (m + (m - 1)))"

definition region_words :: "nat \<Rightarrow> nat \<Rightarrow> nat list" where
  "region_words pos order = [pos div UK_BITS_PER_LONG ..< pos div UK_BITS_PER_LONG + UK_BITS_TO_LONGS (2 ^ order)]"

fun is_free :: "u64 \<Rightarrow> bitmap \<Rightarrow> nat list \<Rightarrow> bool res" where
  "is_free m ws [] = Inr True"
| "is_free m ws (i # is) = bindr (word_at ws i) (\<lambda>w. if w AND m \<noteq> 0 then Inr False else is_free m ws is)"

definition reg_op_isfree :: "bitmap \<Rightarrow> nat \<Rightarrow> nat \<Rightarrow> bool res" where
  "reg_op_isfree ws pos order = is_free (region_mask pos order) ws (region_words pos order)"

definition reg_op_update :: "(u64 \<Rightarrow> u64 \<Rightarrow> u64) \<Rightarrow> bitmap \<Rightarrow> nat \<Rightarrow> nat \<Rightarrow> bitmap res" where
  "reg_op_update f ws pos order =
     iterr (\<lambda>i ws. bindr (word_at ws i) (\<lambda>w. put_word ws i (f w (region_mask pos order)))) (region_words pos order) ws"

definition uk_bitmap_allocate_region :: "bitmap \<Rightarrow> nat \<Rightarrow> nat \<Rightarrow> (int \<times> bitmap) res" where
  "uk_bitmap_allocate_region ws pos order =
     bindr (reg_op_isfree ws pos order) (\<lambda>free.
       if \<not> free then Inr (-EBUSY, ws) else bindr (reg_op_update (OR) ws pos order) (\<lambda>ws'. Inr (0, ws')))"

definition uk_bitmap_release_region :: "bitmap \<Rightarrow> nat \<Rightarrow> nat \<Rightarrow> bitmap res" where
  "uk_bitmap_release_region ws pos order = reg_op_update (\<lambda>w m. w AND NOT m) ws pos order"

function free_region :: "bitmap \<Rightarrow> nat \<Rightarrow> nat \<Rightarrow> nat \<Rightarrow> (int \<times> bitmap) res" where
  "free_region ws bits order pos =
     (if pos + 2 ^ order \<le> bits
      then bindr (reg_op_isfree ws pos order) (\<lambda>free.
             if \<not> free then free_region ws bits order (pos + 2 ^ order)
             else bindr (reg_op_update (OR) ws pos order) (\<lambda>ws'. Inr (int pos, ws')))
      else Inr (-ENOMEM, ws))"
  by pat_completeness auto
termination
proof (relation "measure (\<lambda>(_, bits, _, pos). bits - pos)")
  fix ws :: bitmap and bits order pos :: nat and free
  assume "pos + 2 ^ order \<le> bits"
  moreover have "0 < (2 :: nat) ^ order" by simp
  ultimately show "((ws, bits, order, pos + 2 ^ order), ws, bits, order, pos) \<in> measure (\<lambda>(_, bits, _, pos). bits - pos)"
    unfolding in_measure prod.case by linarith
qed simp

declare free_region.simps [simp del]

definition uk_bitmap_find_free_region :: "bitmap \<Rightarrow> nat \<Rightarrow> nat \<Rightarrow> (int \<times> bitmap) res" where
  "uk_bitmap_find_free_region bitmap bits order = free_region bitmap bits order 0"

section \<open>Bits of a bitmap\<close>

definition bm_bit :: "bitmap \<Rightarrow> nat \<Rightarrow> bool" where
  "bm_bit ws i = bit (ws ! (i div 64)) (i mod 64)"

text \<open>The reference for the searches: the first position from \<open>lo\<close> on that satisfies \<open>Q\<close>, or \<open>hi\<close>.\<close>

definition next_pos :: "(nat \<Rightarrow> bool) \<Rightarrow> nat \<Rightarrow> nat \<Rightarrow> nat" where
  "next_pos Q lo hi = (case find Q [lo..<hi] of Some i \<Rightarrow> i | None \<Rightarrow> hi)"

lemma find_append: "find Q xs = None \<Longrightarrow> find Q (xs @ ys) = find Q ys"
  by (induction xs) (auto split: if_splits)

lemma next_pos_eqI:
  assumes "lo \<le> r" "r \<le> hi" "\<And>i. lo \<le> i \<Longrightarrow> i < r \<Longrightarrow> \<not> Q i" "r < hi \<Longrightarrow> Q r"
  shows "next_pos Q lo hi = r"
proof -
  have split: "[lo..<hi] = [lo..<r] @ [r..<hi]" using assms(1,2) upt_add_eq_append [of lo r "hi - r"] by simp
  have none: "find Q [lo..<r] = None" using assms(3) by (auto simp: find_None_iff)
  have "find Q [r..<hi] = (if r < hi then Some r else None)" using assms(4) by (simp add: upt_conv_Cons)
  then show ?thesis unfolding next_pos_def split find_append [OF none] using assms(2) by simp
qed

lemma ffsl_spec:
  assumes "w \<noteq> 0"
  shows "ukarch_ffsl w < 64" "bit w (ukarch_ffsl w)" "i < ukarch_ffsl w \<Longrightarrow> \<not> bit w i"
proof -
  let ?t = "takeWhile (\<lambda>i. \<not> bit w i) [0..<64]"
  obtain n where n: "n < 64" "bit w n" using assms by (auto simp: bit_eq_iff)
  have "length ?t < length [0..<64]"
  proof (rule ccontr)
    assume "\<not> length ?t < length [0..<64]"
    then have "?t = [0..<64]" by (metis length_takeWhile_le le_antisym not_le takeWhile_eq_take take_all_iff)
    then have "\<forall>i \<in> set [0..<64]. \<not> bit w i" by (metis takeWhile_eq_all_conv)
    with n show False by auto
  qed
  then show l: "ukarch_ffsl w < 64" by (simp add: ukarch_ffsl_def)
  show "bit w (ukarch_ffsl w)" using nth_length_takeWhile [of "\<lambda>i. \<not> bit w i" "[0..<64]"] l by (simp add: ukarch_ffsl_def)
  show "\<not> bit w i" if "i < ukarch_ffsl w"
    using nth_mem [of i ?t] that takeWhile_nth [of i "\<lambda>i. \<not> bit w i" "[0..<64]"] l
    by (auto simp: ukarch_ffsl_def dest: set_takeWhileD)
qed

lemma last_word_mask:
  assumes "0 < n" "n \<le> 64"
  obtains m where "UK_BITMAP_LAST_WORD_MASK n = Inr m" "\<And>i. bit m i \<longleftrightarrow> i < n"
  using assms by (intro that) (auto simp: UK_BITMAP_LAST_WORD_MASK_def UK_BITS_PER_LONG_def bit_mask_iff)

text \<open>A complementing or identical reading of the words.\<close>

definition reads :: "(u64 \<Rightarrow> u64) \<Rightarrow> (bool \<Rightarrow> bool) \<Rightarrow> bool" where
  "reads f P \<longleftrightarrow> (\<forall>w i. i < 64 \<longrightarrow> bit (f w) i = P (bit w i))"

lemma reads_id: "reads (\<lambda>w. w) (\<lambda>b. b)" and reads_not: "reads (\<lambda>w. NOT w) Not"
  by (auto simp: reads_def bit_not_iff)

lemma bm_bit_Cons: "i \<ge> 64 \<Longrightarrow> bm_bit (w # ws) i = bm_bit ws (i - 64)" "i < 64 \<Longrightarrow> bm_bit (w # ws) i = bit w i"
  by (auto simp: bm_bit_def nth_Cons' le_div_geq le_mod_geq)

lemma scan_words_spec:
  assumes "reads f P" "sz \<le> 64 * length ws"
  shows "\<exists>r. scan_words f ws sz b = Inr (b + r) \<and> r \<le> sz \<and> (\<forall>i < r. \<not> P (bm_bit ws i)) \<and> (r < sz \<longrightarrow> P (bm_bit ws r))"
  using assms(2)
proof (induction ws arbitrary: sz b)
  case (Cons w ws)
  have rd: "bit (f w) i = P (bit w i)" if "i < 64" for i using assms(1) that by (simp add: reads_def)
  show ?case
  proof (cases "sz \<ge> 64")
    case True
    show ?thesis
    proof (cases "f w = 0")
      case zero: True
      obtain r where r: "scan_words f ws (sz - 64) (b + 64) = Inr (b + 64 + r)" "r \<le> sz - 64"
        "\<forall>i < r. \<not> P (bm_bit ws i)" "r < sz - 64 \<longrightarrow> P (bm_bit ws r)"
        using Cons.IH [of "sz - 64" "b + 64"] Cons.prems by fastforce
      have "\<not> P (bm_bit (w # ws) i)" if "i < 64 + r" for i
        using that zero rd [of i] r(3) by (cases "i < 64") (auto simp: bm_bit_Cons)
      then show ?thesis using r True zero
        by (intro exI [of _ "64 + r"]) (auto simp: UK_BITS_PER_LONG_def bm_bit_Cons)
    next
      case False
      note ff = ffsl_spec [OF False]
      have "\<not> P (bm_bit (w # ws) i)" if "i < ukarch_ffsl (f w)" for i using that ff rd [of i] by (auto simp: bm_bit_Cons)
      moreover have "P (bm_bit (w # ws) (ukarch_ffsl (f w)))" using ff rd by (simp add: bm_bit_Cons)
      ultimately show ?thesis using True False ff(1) by (intro exI [of _ "ukarch_ffsl (f w)"]) (auto simp: UK_BITS_PER_LONG_def)
    qed
  next
    case False
    show ?thesis
    proof (cases "sz = 0")
      case nz: False
      obtain m where m: "UK_BITMAP_LAST_WORD_MASK sz = Inr m" "\<And>i. bit m i \<longleftrightarrow> i < sz"
        using last_word_mask [of sz] nz False by auto
      let ?x = "f w AND m"
      have bx: "bit ?x i \<longleftrightarrow> i < sz \<and> P (bit w i)" for i using rd [of i] False by (auto simp: bit_and_iff m(2))
      show ?thesis
      proof (cases "?x = 0")
        case True
        then have "\<not> P (bm_bit (w # ws) i)" if "i < sz" for i using that bx [of i] False by (auto simp: bm_bit_Cons)
        then show ?thesis using True nz False m(1) by (intro exI [of _ sz]) (auto simp: UK_BITS_PER_LONG_def)
      next
        case x: False
        note ff = ffsl_spec [OF x]
        have "\<not> P (bm_bit (w # ws) i)" if "i < ukarch_ffsl ?x" for i
          using that ff bx [of i] bx [of "ukarch_ffsl ?x"] by (auto simp: bm_bit_Cons)
        moreover have "P (bm_bit (w # ws) (ukarch_ffsl ?x))" "ukarch_ffsl ?x < sz" using ff bx by (auto simp: bm_bit_Cons)
        ultimately show ?thesis using x nz False m(1) by (intro exI [of _ "ukarch_ffsl ?x"]) (auto simp: UK_BITS_PER_LONG_def)
      qed
    qed (use False in \<open>auto simp: UK_BITS_PER_LONG_def\<close>)
  qed
qed simp

lemma scan_words_next:
  assumes "reads f P" "sz \<le> 64 * length ws"
  shows "scan_words f ws sz b = Inr (b + next_pos (\<lambda>i. P (bm_bit ws i)) 0 sz)"
proof -
  obtain r where "scan_words f ws sz b = Inr (b + r)" "r \<le> sz" "\<forall>i < r. \<not> P (bm_bit ws i)" "r < sz \<longrightarrow> P (bm_bit ws r)"
    using scan_words_spec [OF assms] by blast
  then show ?thesis using next_pos_eqI [of 0 r sz "\<lambda>i. P (bm_bit ws i)"] by simp
qed

lemma next_pos_spec:
  assumes "lo \<le> hi"
  shows "lo \<le> next_pos Q lo hi" "next_pos Q lo hi \<le> hi" "\<And>i. lo \<le> i \<Longrightarrow> i < next_pos Q lo hi \<Longrightarrow> \<not> Q i"
    "next_pos Q lo hi < hi \<Longrightarrow> Q (next_pos Q lo hi)"
proof -
  let ?r = "next_pos Q lo hi"
  have "lo \<le> ?r \<and> ?r \<le> hi \<and> (\<forall>i. lo \<le> i \<longrightarrow> i < ?r \<longrightarrow> \<not> Q i) \<and> (?r < hi \<longrightarrow> Q ?r)"
  proof (cases "find Q [lo..<hi]")
    case None
    then have "next_pos Q lo hi = hi" by (simp add: next_pos_def)
    then show ?thesis using None assms by (auto simp: find_None_iff)
  next
    case (Some x)
    then obtain k where k: "k < hi - lo" "x = lo + k" "Q x" "\<forall>j < k. \<not> Q (lo + j)" by (auto simp: find_Some_iff)
    have "\<not> Q i" if "lo \<le> i" "i < x" for i using k(4) that k(2) by (metis le_Suc_ex nat_add_left_cancel_less)
    then show ?thesis using Some k by (auto simp: next_pos_def)
  qed
  then show "lo \<le> ?r" "?r \<le> hi" "\<And>i. lo \<le> i \<Longrightarrow> i < ?r \<Longrightarrow> \<not> Q i" "?r < hi \<Longrightarrow> Q ?r" by blast+
qed

lemma next_pos_shift:
  assumes "lo + k \<le> hi" "\<And>i. lo \<le> i \<Longrightarrow> i < lo + k \<Longrightarrow> \<not> Q i"
  shows "next_pos Q lo hi = lo + k + next_pos (\<lambda>i. Q (lo + k + i)) 0 (hi - (lo + k))"
proof -
  let ?Q = "\<lambda>i. Q (lo + k + i)" and ?n = "hi - (lo + k)"
  note s = next_pos_spec [where lo = 0 and hi = ?n and Q = ?Q]
  show ?thesis
  proof (rule next_pos_eqI)
    fix i assume i: "lo \<le> i" "i < lo + k + next_pos ?Q 0 ?n"
    show "\<not> Q i"
    proof (cases "i < lo + k")
      case False
      then show ?thesis using s(3) [of "i - (lo + k)"] i by simp
    qed (use assms(2) i in blast)
  next
    assume "lo + k + next_pos ?Q 0 ?n < hi"
    then show "Q (lo + k + next_pos ?Q 0 ?n)" using s(4) by simp
  qed (use s(2) assms(1) in simp_all)
qed

lemma bm_bit_drop: "bm_bit (drop k ws) i = bm_bit ws (64 * k + i)"
  if "k \<le> length ws"
  using that by (simp add: bm_bit_def nth_drop)

lemma find_next_spec:
  assumes rd: "reads f P" and sz: "sz \<le> 64 * length ws" and off: "off \<le> sz"
  shows "\<exists>r. find_next f ws sz off = Inr r \<and> min r sz = next_pos (\<lambda>i. P (bm_bit ws i)) off sz \<and>
    (off mod 64 = 0 \<or> 64 dvd sz \<longrightarrow> r \<le> sz)"
proof (cases "off = sz")
  case True
  then show ?thesis by (simp add: find_next_def next_pos_def)
next
  case False
  let ?Q = "\<lambda>i. P (bm_bit ws i)"
  define p where "p = off div 64"
  define o' where "o' = off mod 64"
  have o: "off = 64 * p + o'" "o' < 64" by (simp_all add: p_def o'_def)
  have p: "p < length ws" using sz off False o by simp
  show ?thesis
  proof (cases "o' = 0")
    case True
    have "scan_words f (drop p ws) (sz - 64 * p) (64 * p) = Inr (64 * p + next_pos (\<lambda>i. P (bm_bit (drop p ws) i)) 0 (sz - 64 * p))"
      using sz by (intro scan_words_next [OF rd]) simp
    moreover have "next_pos ?Q off sz = off + next_pos (\<lambda>i. ?Q (off + i)) 0 (sz - off)"
      using next_pos_shift [of off 0 sz ?Q] off by simp
    moreover have "next_pos ?Q off sz \<le> sz" using next_pos_spec(2) [OF off] .
    moreover have "find_next f ws sz off = scan_words f (drop p ws) (sz - 64 * p) (64 * p)"
      using True False off by (simp add: find_next_def Let_def UK_BITS_PER_LONG_def flip: p_def o'_def)
    moreover have "off = 64 * p" "next_pos (\<lambda>i. P (bm_bit (drop p ws) i)) 0 (sz - 64 * p) = next_pos (\<lambda>i. ?Q (64 * p + i)) 0 (sz - 64 * p)"
      using True o p by (simp_all add: bm_bit_drop)
    ultimately show ?thesis by (intro exI [of _ "next_pos ?Q off sz"]) (simp add: min_absorb1)
  next
    case nz: False
    obtain m where m: "UK_BITMAP_LAST_WORD_MASK o' = Inr m" "\<And>i. bit m i \<longleftrightarrow> i < o'"
      using last_word_mask [of o'] nz o(2) by auto
    let ?x = "f (ws ! p) AND NOT m"
    have bx: "bit ?x i \<longleftrightarrow> o' \<le> i \<and> i < 64 \<and> ?Q (64 * p + i)" for i
      using rd by (auto simp: reads_def bit_and_iff bit_not_iff m(2) bm_bit_def dest: bit_imp_le_length)
    have unf: "find_next f ws sz off = (if ?x \<noteq> 0 then Inr (64 * p + ukarch_ffsl ?x) else if sz - 64 * p \<le> 64 then Inr sz
        else scan_words f (drop (p + 1) ws) (sz - (64 * p + 64)) (64 * p + 64))"
      using nz False off m(1) p by (simp add: find_next_def Let_def UK_BITS_PER_LONG_def word_at_def flip: p_def o'_def)
    have clear: "\<not> ?Q i" if i: "?x = 0" "off \<le> i" "i < 64 * p + 64" for i
    proof -
      define k where "k = i - 64 * p"
      have k: "i = 64 * p + k" "o' \<le> k" "k < 64" using i o by (simp_all add: k_def)
      have "\<not> bit ?x k" unfolding i(1) by simp
      then show ?thesis using bx [of k] k by blast
    qed
    consider "?x \<noteq> 0" | "?x = 0" "sz - 64 * p \<le> 64" | "?x = 0" "sz - 64 * p > 64" by linarith
    then show ?thesis
    proof cases
      case 1
      note ff = ffsl_spec [OF 1]
      let ?r = "64 * p + ukarch_ffsl ?x"
      have hit: "off \<le> ?r" "?Q ?r" using bx [of "ukarch_ffsl ?x"] ff(2) o by auto
      have before: "\<not> ?Q i" if i: "off \<le> i" "i < ?r" for i
      proof -
        define k where "k = i - 64 * p"
        have k: "i = 64 * p + k" "o' \<le> k" "k < ukarch_ffsl ?x" using i o by (simp_all add: k_def)
        then have "\<not> bit ?x k" "k < 64" using ff(1) ff(3) [of k] by simp_all
        then show ?thesis using bx [of k] k by blast
      qed
      have "min ?r sz = next_pos ?Q off sz"
        using hit before off by (intro next_pos_eqI [symmetric]) (simp_all add: min_def split: if_splits)
      moreover have "?r < 64 * (p + 1)" using ff(1) by simp
      moreover have "?r \<le> sz" if "64 dvd sz"
      proof -
        obtain q where "sz = 64 * q" using \<open>64 dvd sz\<close> by (rule dvdE)
        moreover have "p < q" using calculation False off o by simp
        ultimately show ?thesis using ff(1) by simp
      qed
      ultimately show ?thesis using unf 1 nz by (intro exI [of _ ?r]) (simp add: o'_def)
    next
      case 2
      then have "next_pos ?Q off sz = sz" using clear off by (intro next_pos_eqI) simp_all
      then show ?thesis using unf 2 by (intro exI [of _ sz]) simp
    next
      case 3
      have "scan_words f (drop (p + 1) ws) (sz - (64 * p + 64)) (64 * p + 64) =
          Inr (64 * p + 64 + next_pos (\<lambda>i. P (bm_bit (drop (p + 1) ws) i)) 0 (sz - (64 * p + 64)))"
        using sz by (intro scan_words_next [OF rd]) simp
      moreover have "next_pos ?Q off sz = 64 * p + 64 + next_pos (\<lambda>i. ?Q (64 * p + 64 + i)) 0 (sz - (64 * p + 64))"
        using next_pos_shift [of off "64 - o'" sz ?Q] clear [OF 3(1)] 3(2) o by simp
      moreover have "bm_bit (drop (p + 1) ws) i = bm_bit ws (64 * p + 64 + i)" for i using bm_bit_drop [of "p + 1" ws i] p by (simp add: algebra_simps)
      moreover have "next_pos ?Q off sz \<le> sz" using next_pos_spec(2) [OF off] .
      ultimately show ?thesis using unf 3 by (intro exI [of _ "next_pos ?Q off sz"]) (simp add: min_absorb1)
    qed
  qed
qed

section \<open>Ranges of bits\<close>

text \<open>\<open>f\<close> gives the bits of the mask the value \<open>v\<close> and keeps the others.\<close>

definition assigns :: "(u64 \<Rightarrow> u64 \<Rightarrow> u64) \<Rightarrow> bool \<Rightarrow> bool" where
  "assigns f v \<longleftrightarrow> (\<forall>w m i. i < 64 \<longrightarrow> bit (f w m) i = (if bit m i then v else bit w i))"

lemma assigns_or: "assigns (\<lambda>w m. w OR m) True" and assigns_clear: "assigns (\<lambda>w m. w AND NOT m) False"
  by (auto simp: assigns_def bit_or_iff bit_and_iff bit_not_iff)

definition range_is :: "bitmap \<Rightarrow> bitmap \<Rightarrow> nat \<Rightarrow> nat \<Rightarrow> bool \<Rightarrow> bool" where
  "range_is ws ws' lo hi v \<longleftrightarrow> length ws' = length ws \<and>
     (\<forall>j < 64 * length ws. bm_bit ws' j = (if lo \<le> j \<and> j < hi then v else bm_bit ws j))"

lemma range_is_word:
  assumes f: "assigns f v" and i: "i < length ws" and m: "\<And>j. j < 64 \<Longrightarrow> bit m j \<longleftrightarrow> lo \<le> 64 * i + j \<and> 64 * i + j < hi"
    and lo: "64 * i \<le> lo" "hi \<le> 64 * (i + 1)"
  shows "range_is ws (ws[i := f (ws ! i) m]) lo hi v"
  unfolding range_is_def
proof (intro conjI allI impI)
  fix j assume j: "j < 64 * length ws"
  show "bm_bit (ws[i := f (ws ! i) m]) j = (if lo \<le> j \<and> j < hi then v else bm_bit ws j)"
  proof (cases "j div 64 = i")
    case True
    then have "j = 64 * i + j mod 64" by (metis mult_div_mod_eq)
    with True show ?thesis using f m [of "j mod 64"] i by (auto simp: bm_bit_def assigns_def)
  next
    case False
    then have "j < 64 * i \<or> 64 * (i + 1) \<le> j" by (auto simp: div_nat_eqI)
    with lo have "\<not> (lo \<le> j \<and> j < hi)" by linarith
    moreover have "j div 64 < length ws" using j by (simp add: less_mult_imp_div_less)
    ultimately show ?thesis using False by (auto simp: bm_bit_def)
  qed
qed simp

lemma range_is_trans:
  "range_is ws ws' lo mid v \<Longrightarrow> range_is ws' ws'' mid hi v \<Longrightarrow> lo \<le> mid \<Longrightarrow> mid \<le> hi \<Longrightarrow> range_is ws ws'' lo hi v"
  by (auto simp: range_is_def)

lemma range_loop_spec:
  assumes "assigns f v" "0 < n" "n \<le> 64" "\<And>j. j < 64 \<Longrightarrow> bit mk j \<longleftrightarrow> 64 - n \<le> j" "sz = 64 * i + (64 - n) + nr" "sz \<le> 64 * length ws"
  shows "if sz \<le> 64 \<or> 64 dvd sz \<or> nr = 0 then \<exists>ws'. range_loop f sz i nr n mk ws = Inr ws' \<and> range_is ws ws' (64 * i + (64 - n)) sz v
    else range_loop f sz i nr n mk ws = Inl Undef"
  using assms(2-)
proof (induction nr arbitrary: i n mk ws rule: less_induct)
  case (less nr)
  let ?lo = "64 * i + (64 - n)"
  have lo: "?lo + n = 64 * (i + 1)" using less.prems(2) by simp
  show ?case
  proof (cases "nr \<ge> n")
    case True
    then have i: "i < length ws" using less.prems(4,5) lo by simp
    let ?ws = "ws[i := f (ws ! i) mk]"
    have r1: "range_is ws ?ws ?lo (64 * (i + 1)) v"
      using less.prems(2,3) by (intro range_is_word [OF assms(1) i]) auto
    have step: "range_loop f sz i nr n mk ws = range_loop f sz (i + 1) (nr - n) 64 (-1) ?ws"
      using True less.prems(1) i by (subst range_loop.simps) (simp add: word_at_def put_word_def UK_BITS_PER_LONG_def)
    have "if sz \<le> 64 \<or> 64 dvd sz \<or> nr - n = 0
        then \<exists>ws'. range_loop f sz (i + 1) (nr - n) 64 (-1) ?ws = Inr ws' \<and> range_is ?ws ws' (64 * (i + 1) + (64 - 64)) sz v
        else range_loop f sz (i + 1) (nr - n) 64 (-1) ?ws = Inl Undef"
      using True less.prems lo by (intro less.IH) auto
    moreover have "64 dvd sz" if "nr - n = 0" using that True less.prems(4) lo by simp
    ultimately show ?thesis unfolding step using True less.prems(1,4) lo r1 range_is_trans [OF r1]
      by (auto split: if_splits)
  next
    case False
    show ?thesis
    proof (cases "nr = 0")
      case True
      then show ?thesis using False less.prems(4) by (subst range_loop.simps) (auto simp: range_is_def)
    next
      case nz: False
      have nd: "\<not> 64 dvd sz"
      proof
        assume "64 dvd sz"
        then obtain q where "sz = 64 * q" by (rule dvdE)
        moreover have "sz + n = 64 * (i + 1) + nr" using less.prems(4) lo by simp
        ultimately have "64 * q < 64 * (i + 1)" "64 * i < 64 * q" using less.prems(2) False nz by simp_all
        then show False by simp
      qed
      have i: "i < length ws" using less.prems(4,5) lo nz False by simp
      show ?thesis
      proof (cases "sz \<le> 64")
        case True
        then have i0: "i = 0" using less.prems(4) nz lo by simp
        obtain m where m: "UK_BITMAP_LAST_WORD_MASK sz = Inr m" "\<And>j. bit m j \<longleftrightarrow> j < sz"
          using last_word_mask [of sz] True less.prems(4) nz by auto
        have "range_is ws (ws[i := f (ws ! i) (mk AND m)]) ?lo sz v"
          using less.prems(2,3) m(2) i0 True by (intro range_is_word [OF assms(1) i]) (auto simp: bit_and_iff)
        then show ?thesis using True False nz m(1) i by (subst range_loop.simps) (simp add: word_at_def put_word_def)
      next
        case big: False
        then have "UK_BITMAP_LAST_WORD_MASK sz = Inl Undef" by (simp add: UK_BITMAP_LAST_WORD_MASK_def UK_BITS_PER_LONG_def)
        then show ?thesis using big nd False nz by (subst range_loop.simps) simp
      qed
    qed
  qed
qed

lemma bitmap_range_spec:
  assumes "assigns f v" "start + nr \<le> 64 * length ws"
  shows "if start + nr \<le> 64 \<or> 64 dvd start + nr \<or> nr = 0
    then \<exists>ws'. bitmap_range f ws start nr = Inr ws' \<and> range_is ws ws' start (start + nr) v
    else bitmap_range f ws start nr = Inl Undef"
proof -
  have start: "64 * (start div 64) + (64 - (64 - start mod 64)) = start" by (simp add: mult.commute)
  have "bit (UK_BITMAP_FIRST_WORD_MASK start) j \<longleftrightarrow> 64 - (64 - start mod 64) \<le> j" if "j < 64" for j
    using that by (simp add: UK_BITMAP_FIRST_WORD_MASK_def UK_BITS_PER_LONG_def bit_not_iff bit_mask_iff not_less)
  from range_loop_spec [of f v "64 - start mod 64" "UK_BITMAP_FIRST_WORD_MASK start" "start + nr" "start div 64" nr ws,
      OF assms(1) _ _ this, unfolded start] assms(2)
  show ?thesis by (simp add: bitmap_range_def UK_BIT_WORD_def UK_BITS_PER_LONG_def)
qed

section \<open>Counting bits\<close>

text \<open>A number as a list of fields of \<open>k\<close> bits.\<close>

fun pack :: "nat \<Rightarrow> nat list \<Rightarrow> nat" where
  "pack k [] = 0"
| "pack k (c # cs) = c + 2 ^ k * pack k cs"

definition pair_sums :: "nat list \<Rightarrow> nat list" where
  "pair_sums cs = map (\<lambda>i. cs ! (2 * i) + cs ! (2 * i + 1)) [0..<length cs div 2]"

lemma bit_field:
  fixes a b :: nat
  assumes "a < 2 ^ k"
  shows "bit (a + 2 ^ k * b) i = (if i < k then bit a i else bit b (i - k))"
proof (cases "i < k")
  case True
  then have "(2 :: nat) ^ k = 2 ^ i * (2 * 2 ^ (k - i - 1))" by (simp flip: power_add power_Suc)
  then have "(a + 2 ^ k * b) div 2 ^ i = a div 2 ^ i + 2 * (2 ^ (k - i - 1) * b)" by (simp add: mult.assoc)
  then show ?thesis using True by (simp add: bit_iff_odd)
next
  case False
  then have "(2 :: nat) ^ i = 2 ^ k * 2 ^ (i - k)" by (simp flip: power_add)
  then have "(a + 2 ^ k * b) div 2 ^ i = b div 2 ^ (i - k)" using assms by (simp add: div_mult2_eq)
  then show ?thesis using False by (simp add: bit_iff_odd)
qed

lemma and_field:
  fixes a b c d :: nat
  assumes "a < 2 ^ k" "c < 2 ^ k"
  shows "(a + 2 ^ k * b) AND (c + 2 ^ k * d) = (a AND c) + 2 ^ k * (b AND d)"
proof -
  have "take_bit k (a AND c) = a AND c" using assms by (simp add: take_bit_and take_bit_nat_eq_self)
  then have "a AND c < 2 ^ k" by (metis take_bit_nat_less_exp)
  then show ?thesis using assms by (auto simp: bit_eq_iff bit_field bit_and_iff)
qed

lemma drop_pack: "c < 2 ^ k \<Longrightarrow> drop_bit k (pack k (c # cs)) = pack k cs"
  by (simp add: drop_bit_eq_div)

lemma pack_less: "\<forall>c \<in> set cs. c < 2 ^ k \<Longrightarrow> pack k cs < 2 ^ (k * length cs)"
proof (induction cs)
  case (Cons c cs)
  then have "pack k cs + 1 \<le> 2 ^ (k * length cs)" "c < 2 ^ k" by simp_all
  then have "c + 2 ^ k * pack k cs < 2 ^ k * (pack k cs + 1)" by simp
  also have "\<dots> \<le> 2 ^ k * 2 ^ (k * length cs)" using \<open>pack k cs + 1 \<le> _\<close> by (rule mult_le_mono2)
  finally show ?case by (simp add: power_add)
qed simp

lemma pack_add: "length xs = length ys \<Longrightarrow> pack k xs + pack k ys = pack k (map2 (+) xs ys)"
  by (induction xs ys rule: list_induct2) (auto simp flip: distrib_left)

text \<open>Masks of every other field.\<close>

primrec even_mask :: "nat \<Rightarrow> nat \<Rightarrow> nat" where
  "even_mask k 0 = 0"
| "even_mask k (Suc n) = mask k + 2 ^ (2 * k) * even_mask k n"

lemma even_fields:
  assumes "\<forall>c \<in> set cs. c < 2 ^ k" "length cs = 2 * n"
  shows "pack k cs AND even_mask k n = pack (2 * k) (map (\<lambda>i. cs ! (2 * i)) [0..<n])"
  using assms
proof (induction n arbitrary: cs)
  case (Suc n)
  then obtain c d ds where cs: "cs = c # d # ds" "length ds = 2 * n" by (auto simp: length_Suc_conv)
  have cd: "c < 2 ^ k" "d < 2 ^ k" using Suc.prems(1) cs by auto
  then have "c + 2 ^ k * d < 2 ^ (2 * k)" using pack_less [of "[c, d]" k] by (simp add: mult_2)
  moreover have "mask k < (2 :: nat) ^ (2 * k)"
  proof -
    have "(2 :: nat) ^ k \<le> 2 ^ (2 * k)" "0 < (2 :: nat) ^ k" by (simp_all add: power_increasing)
    then show ?thesis unfolding mask_eq_exp_minus_1 by linarith
  qed
  moreover have "pack k cs = (c + 2 ^ k * d) + 2 ^ (2 * k) * pack k ds" by (simp add: cs distrib_left power_add mult_2)
  ultimately have "pack k cs AND even_mask k (Suc n) =
      ((c + 2 ^ k * d) AND mask k) + 2 ^ (2 * k) * (pack k ds AND even_mask k n)"
    by (simp only: even_mask.simps and_field)
  moreover have "(c + 2 ^ k * d) AND mask k = c" using cd by (simp only: take_bit_eq_mask [symmetric] take_bit_eq_mod) simp
  moreover have "pack k ds AND even_mask k n = pack (2 * k) (map (\<lambda>i. ds ! (2 * i)) [0..<n])" using Suc cs by auto
  moreover have "[0..<Suc n] = 0 # map Suc [0..<n]" by (simp add: upt_conv_Cons map_Suc_upt)
  ultimately show ?case by (simp add: cs o_def)
qed simp

lemma pack_snoc_0: "pack k (cs @ [0]) = pack k cs"
  by (induction cs) auto

lemma sum_pair_sums: "length cs = 2 * n \<Longrightarrow> sum_list (pair_sums cs) = sum_list cs"
proof (induction n arbitrary: cs)
  case (Suc n)
  then obtain c d ds where cs: "cs = c # d # ds" "length ds = 2 * n" by (auto simp: length_Suc_conv)
  have "[0..<Suc n] = 0 # map Suc [0..<n]" by (simp add: upt_conv_Cons map_Suc_upt)
  then have "pair_sums cs = (c + d) # pair_sums ds" by (simp add: pair_sums_def cs o_def del: upt_Suc)
  then show ?case using Suc.IH [OF cs(2)] by (simp add: cs)
qed (simp add: pair_sums_def)

lemma pair_sums_le: "\<forall>c \<in> set cs. c \<le> B \<Longrightarrow> length cs = 2 * n \<Longrightarrow> \<forall>c \<in> set (pair_sums cs). c \<le> 2 * B"
  by (auto simp: pair_sums_def mult_2 intro!: add_mono)

text \<open>A step that adds neighbouring fields under masks, and one that masks after the addition.\<close>

lemma masked_step:
  fixes x m m' :: u64
  assumes x: "unat x = pack k cs" "\<forall>c \<in> set cs. c \<le> B" "length cs = 2 * n" and B: "B < 2 ^ k" "2 * B < 2 ^ (2 * k)" "2 * k * n = 64"
    and m: "unat m = even_mask k n" "drop_bit k (unat m') = even_mask k n"
  shows "unat ((x AND m) + drop_bit k (x AND m')) = pack (2 * k) (pair_sums cs)"
proof -
  have small: "\<forall>c \<in> set cs. c < 2 ^ k" using x(2) B(1) by auto
  have "n > 0" using B(3) by (cases n) auto
  then obtain c ds where cs: "cs = c # ds" using x(3) by (cases cs) auto
  have e: "unat (x AND m) = pack (2 * k) (map (\<lambda>i. cs ! (2 * i)) [0..<n])"
    unfolding unsigned_and_eq m(1) x(1) by (rule even_fields [OF small x(3)])
  have "unat (drop_bit k (x AND m')) = pack k (ds @ [0]) AND even_mask k n"
    unfolding unat_drop_bit_eq unsigned_and_eq drop_bit_and m(2) x(1) pack_snoc_0 using drop_pack small by (simp add: cs)
  also have "\<dots> = pack (2 * k) (map (\<lambda>i. (ds @ [0]) ! (2 * i)) [0..<n])"
    using small x(3) by (intro even_fields) (auto simp: cs)
  also have "map (\<lambda>i. (ds @ [0]) ! (2 * i)) [0..<n] = map (\<lambda>i. cs ! (2 * i + 1)) [0..<n]"
    using x(3) by (auto simp: cs nth_append)
  finally have "unat (x AND m) + unat (drop_bit k (x AND m')) = pack (2 * k) (pair_sums cs)"
    unfolding e by (simp add: pack_add pair_sums_def x(3) map2_map_map)
  moreover have "pack (2 * k) (pair_sums cs) < 2 ^ (2 * k * length (pair_sums cs))"
    using pair_sums_le [OF x(2,3)] B(2) by (intro pack_less) auto
  moreover have "length (pair_sums cs) = n" by (simp add: pair_sums_def x(3))
  ultimately show ?thesis using B(3) by (simp add: unat_word_ariths(1))
qed

lemma added_step:
  fixes x m :: u64
  assumes x: "unat x = pack k cs" "\<forall>c \<in> set cs. c \<le> B" "length cs = 2 * n" and B: "2 * B < 2 ^ k" "2 * k * n = 64"
    and m: "unat m = even_mask k n"
  shows "unat ((x + drop_bit k x) AND m) = pack (2 * k) (pair_sums cs)"
proof -
  have small: "\<forall>c \<in> set cs. c < 2 ^ k" using x(2) B(1) by auto
  have "n > 0" using B(2) by (cases n) auto
  then obtain c ds where cs: "cs = c # ds" using x(3) by (cases cs) auto
  let ?ss = "map2 (+) cs (ds @ [0])"
  have "unat (drop_bit k x) = pack k (ds @ [0])"
    unfolding unat_drop_bit_eq x(1) pack_snoc_0 using drop_pack small by (simp add: cs)
  then have s: "unat x + unat (drop_bit k x) = pack k ?ss" unfolding x(1) by (simp only: pack_add cs length_Cons length_append list.size add_0_right add_0)
  have le: "\<forall>c \<in> set ?ss. c < 2 ^ k"
  proof
    fix e assume "e \<in> set ?ss"
    then obtain a b where ab: "e = a + b" "(a, b) \<in> set (zip cs (ds @ [0]))" by auto
    have "a \<in> set cs" "b \<in> set (ds @ [0])" using set_zip_leftD [OF ab(2)] set_zip_rightD [OF ab(2)] by simp_all
    then have "a \<le> B" "b \<le> B" using x(2) by (auto simp: cs)
    with B(1) ab(1) show "e < 2 ^ k" by linarith
  qed
  have len: "length ?ss = 2 * n" using x(3) by (simp add: cs)
  moreover have "k * (2 * n) = 64" using B(2) by simp
  ultimately have "pack k ?ss < 2 ^ 64" using pack_less [OF le] by metis
  then have "unat (x + drop_bit k x) = pack k ?ss" using s by (simp add: unat_word_ariths(1))
  then have "unat ((x + drop_bit k x) AND m) = pack (2 * k) (map (\<lambda>i. ?ss ! (2 * i)) [0..<n])"
    unfolding unsigned_and_eq m using even_fields [OF le len] by simp
  moreover have "map (\<lambda>i. ?ss ! (2 * i)) [0..<n] = pair_sums cs" using x(3) by (auto simp: pair_sums_def cs nth_append)
  ultimately show ?thesis by simp
qed

definition bits_of :: "u64 \<Rightarrow> nat list" where
  "bits_of x = map (\<lambda>i. of_bool (bit x i)) [0..<64]"

text \<open>The reference for the population count.\<close>

definition popcount :: "u64 \<Rightarrow> nat" where
  "popcount x = length (filter (bit x) [0..<64])"

lemma pack_bits: "pack 1 (map (\<lambda>i. of_bool (bit x i)) [j..<j + n]) = take_bit n (drop_bit j x)" for x :: nat
proof (induction n arbitrary: j)
  case (Suc n)
  have "[j..<j + Suc n] = j # [Suc j..<Suc j + n]" by (simp add: upt_conv_Cons)
  then have "pack 1 (map (\<lambda>i. of_bool (bit x i)) [j..<j + Suc n]) = of_bool (bit x j) + 2 * take_bit n (drop_bit (Suc j) x)"
    using Suc.IH [of "Suc j"] by (simp del: upt_Suc)
  moreover have "drop_bit (Suc j) x = drop_bit j x div 2" by (simp add: drop_bit_eq_div flip: div_mult2_eq) (simp add: mult.commute)
  ultimately show ?case by (simp add: take_bit_Suc bit_iff_odd_drop_bit mod2_eq_if del: upt_Suc)
qed simp

lemma unat_bits: "unat x = pack 1 (bits_of x)"
proof -
  have "pack 1 (bits_of x) = pack 1 (map (\<lambda>i. of_bool (bit (unat x) i)) [0..<0 + 64])" by (simp add: bits_of_def bit_unsigned_iff)
  also have "\<dots> = take_bit 64 (unat x)" unfolding pack_bits by simp
  finally show ?thesis by (simp add: take_bit_nat_eq_self)
qed

lemma sum_bits: "sum_list (bits_of x) = popcount x"
proof -
  have "sum_list (map (\<lambda>i. of_bool (bit x i)) is) = length (filter (bit x) is)" for "is" :: "nat list"
    by (induction "is") auto
  then show ?thesis by (simp add: bits_of_def popcount_def)
qed

text \<open>The last three steps add eight fields of eight bits into the lowest one.\<close>

lemma drop_pack_add: "\<forall>c \<in> set cs. c < 2 ^ k \<Longrightarrow> drop_bit (k * j) (pack k cs) = pack k (drop j cs)"
proof (induction j arbitrary: cs)
  case (Suc j)
  show ?case
  proof (cases cs)
    case (Cons c ds)
    then have "drop_bit (k * Suc j) (pack k cs) = drop_bit (k * j) (drop_bit k (pack k (c # ds)))" by (simp add: drop_bit_drop_bit add.commute)
    also have "\<dots> = drop_bit (k * j) (pack k ds)" using Suc.prems Cons by (subst drop_pack) auto
    finally show ?thesis using Suc Cons by simp
  qed simp
qed simp

lemma last_steps:
  fixes x :: u64
  assumes x: "unat x = pack 8 cs" "\<forall>c \<in> set cs. c \<le> 8" "length cs = 8"
  defines "x1 \<equiv> x + drop_bit 8 x"
  defines "x2 \<equiv> x1 + drop_bit 16 x1"
  shows "unat ((x2 + drop_bit 32 x2) AND 0xff) = sum_list cs"
proof -
  obtain a b c d e f g h where cs: "cs = [a, b, c, d, e, f, g, h]" using x(3) by (auto simp: numeral_eq_Suc length_Suc_conv)
  have le: "a \<le> 8" "b \<le> 8" "c \<le> 8" "d \<le> 8" "e \<le> 8" "f \<le> 8" "g \<le> 8" "h \<le> 8" using x(2) by (auto simp: cs)
  have sh: "unat (drop_bit (8 * j) y) = pack 8 (drop j ys)" if "unat y = pack 8 ys" "\<forall>c \<in> set ys. c < 2 ^ 8" for j ys and y :: u64
    using drop_pack_add [OF that(2)] by (simp add: unat_drop_bit_eq that(1))
  have "unat (drop_bit 8 x) = pack 8 [b, c, d, e, f, g, h]" using sh [OF x(1), of 1] le by (simp add: cs)
  then have x1: "unat x1 = pack 8 [a + b, b + c, c + d, d + e, e + f, f + g, g + h, h]"
    using le x(1) by (simp add: x1_def cs unat_word_ariths(1))
  then have "unat (drop_bit 16 x1) = pack 8 [c + d, d + e, e + f, f + g, g + h, h]" using sh [OF x1, of 2] le by simp
  then have x2: "unat x2 = pack 8 [a + b + c + d, b + c + d + e, c + d + e + f, d + e + f + g, e + f + g + h, f + g + h, g + h, h]"
    using le x1 by (simp add: x2_def unat_word_ariths(1))
  then have "unat (drop_bit 32 x2) = pack 8 [e + f + g + h, f + g + h, g + h, h]" using sh [OF x2, of 4] le by simp
  then have "\<exists>K. unat (x2 + drop_bit 32 x2) = (a + b + c + d + e + f + g + h) + 256 * K"
    using le x2 by (intro exI [of _ "pack 8 [b + c + d + e + f + g + h, c + d + e + f + g + h, d + e + f + g + h, e + f + g + h,
        f + g + h, g + h, h]"]) (simp add: unat_word_ariths(1))
  then obtain K where "unat (x2 + drop_bit 32 x2) = (a + b + c + d + e + f + g + h) + 256 * K" ..
  moreover have "unat ((x2 + drop_bit 32 x2) AND 0xff) = unat (x2 + drop_bit 32 x2) mod 2 ^ 8"
  proof -
    have "(0xff :: u64) = mask 8" by (simp add: mask_eq_exp_minus_1)
    then show ?thesis by (simp only: take_bit_eq_mask [symmetric] unsigned_take_bit_eq) (simp add: take_bit_eq_mod)
  qed
  ultimately have "unat ((x2 + drop_bit 32 x2) AND 0xff) = ((a + b + c + d + e + f + g + h) + 256 * K) mod 256" by simp
  also have "\<dots> = a + b + c + d + e + f + g + h" using le unfolding mod_mult_self2 by (intro mod_less) linarith
  finally show ?thesis by (simp add: cs)
qed

lemma even_mask_add: "even_mask k (n + m) = even_mask k n + 2 ^ (2 * k * n) * even_mask k m"
  by (induction n) (simp_all add: distrib_left power_add)

lemma even_mask_values: "even_mask 1 32 = 0x5555555555555555" "even_mask 2 16 = 0x3333333333333333" "even_mask 4 8 = 0x0f0f0f0f0f0f0f0f"
proof -
  have d: "even_mask k (n + n) = even_mask k n * (1 + 2 ^ (2 * k * n))" for k n by (simp add: even_mask_add distrib_left mult.commute)
  have m: "even_mask k 2 = mask k * (1 + 2 ^ (2 * k))" "even_mask k 4 = even_mask k 2 * (1 + 2 ^ (4 * k))"
    "even_mask k 8 = even_mask k 4 * (1 + 2 ^ (8 * k))" "even_mask k 16 = even_mask k 8 * (1 + 2 ^ (16 * k))"
    "even_mask k 32 = even_mask k 16 * (1 + 2 ^ (32 * k))" for k
    subgoal using d [of k 1] by (simp add: numeral_2_eq_2)
    subgoal using d [of k 2] by (simp add: mult.commute)
    subgoal using d [of k 4] by (simp add: mult.commute)
    subgoal using d [of k 8] by (simp add: mult.commute)
    subgoal using d [of k 16] by (simp add: mult.commute)
    done
  show "even_mask 1 32 = 0x5555555555555555" "even_mask 2 16 = 0x3333333333333333" "even_mask 4 8 = 0x0f0f0f0f0f0f0f0f"
    by (simp_all add: m mask_eq_exp_minus_1)
qed

lemma bitcount64_popcount: "unat (uk_bitcount64 x) = popcount x"
proof -
  define x1 where "x1 = (x AND 0x5555555555555555) + drop_bit 1 (x AND 0xaaaaaaaaaaaaaaaa)"
  define x2 where "x2 = (x1 AND 0x3333333333333333) + drop_bit 2 (x1 AND 0xcccccccccccccccc)"
  define x3 where "x3 = (x2 + drop_bit 4 x2) AND 0x0f0f0f0f0f0f0f0f"
  let ?p1 = "pair_sums (bits_of x)" and ?p2 = "pair_sums (pair_sums (bits_of x))"
  have l: "length (bits_of x) = 2 * 32" "length ?p1 = 2 * 16" "length ?p2 = 2 * 8" by (simp_all add: bits_of_def pair_sums_def)
  have b: "\<forall>c \<in> set (bits_of x). c \<le> 1" by (auto simp: bits_of_def)
  have b1: "\<forall>c \<in> set ?p1. c \<le> 2" using pair_sums_le [OF b l(1)] by simp
  have b2: "\<forall>c \<in> set ?p2. c \<le> 4" using pair_sums_le [OF b1 l(2)] by simp
  have "unat x1 = pack 2 ?p1" unfolding x1_def
    using masked_step [OF unat_bits b l(1), of "0x5555555555555555" "0xaaaaaaaaaaaaaaaa"] by (simp add: even_mask_values [unfolded One_nat_def] drop_bit_eq_div)
  then have "unat x2 = pack 4 ?p2" unfolding x2_def
    using masked_step [of x1 2 ?p1 2 16 "0x3333333333333333" "0xcccccccccccccccc"] b1 l(2) by (simp add: even_mask_values drop_bit_eq_div)
  then have "unat x3 = pack 8 (pair_sums ?p2)" unfolding x3_def
    using added_step [of x2 4 ?p2 4 8 "0x0f0f0f0f0f0f0f0f"] b2 l(3) by (simp add: even_mask_values)
  moreover have "uk_bitcount64 x = ((x3 + drop_bit 8 x3) + drop_bit 16 (x3 + drop_bit 8 x3) +
      drop_bit 32 ((x3 + drop_bit 8 x3) + drop_bit 16 (x3 + drop_bit 8 x3))) AND 0xff"
    unfolding uk_bitcount64_def Let_def x3_def x2_def x1_def by (rule refl)
  ultimately show ?thesis
    using last_steps [of x3 "pair_sums ?p2"] pair_sums_le [OF b2 l(3)] sum_pair_sums l sum_bits by (simp add: pair_sums_def)
qed

section \<open>The last set bit and single bits\<close>

definition last_pos :: "(nat \<Rightarrow> bool) \<Rightarrow> nat \<Rightarrow> nat" where
  "last_pos Q hi = (case find Q (rev [0..<hi]) of Some i \<Rightarrow> i | None \<Rightarrow> hi)"

lemma find_rev_upt: "r < hi \<Longrightarrow> Q r \<Longrightarrow> \<forall>i. r < i \<longrightarrow> i < hi \<longrightarrow> \<not> Q i \<Longrightarrow> find Q (rev [0..<hi]) = Some r"
proof (induction hi)
  case (Suc hi)
  then show ?case by (cases "r = hi") auto
qed simp

lemma last_pos_found: "r < hi \<Longrightarrow> Q r \<Longrightarrow> \<forall>i. r < i \<longrightarrow> i < hi \<longrightarrow> \<not> Q i \<Longrightarrow> last_pos Q hi = r"
  by (simp add: last_pos_def find_rev_upt)

lemma last_pos_none: "\<forall>i < hi. \<not> Q i \<Longrightarrow> last_pos Q hi = hi"
proof -
  assume "\<forall>i < hi. \<not> Q i"
  then have "find Q (rev [0..<hi]) = None" by (auto simp: find_None_iff)
  then show ?thesis by (simp add: last_pos_def)
qed

lemma flsl_spec:
  assumes "w \<noteq> 0"
  shows "ukarch_flsl w < 64" "bit w (ukarch_flsl w)" "ukarch_flsl w < i \<Longrightarrow> \<not> bit w i"
proof -
  let ?P = "\<lambda>i. \<not> bit w (63 - i)"
  let ?t = "takeWhile ?P [0..<64]"
  obtain n where n: "n < 64" "bit w n" using assms by (auto simp: bit_eq_iff)
  have l: "length ?t < 64"
  proof (rule ccontr)
    assume "\<not> length ?t < 64"
    then have "?t = [0..<64]" using length_takeWhile_le [of ?P "[0..<64]"] by (metis length_upt diff_zero le_antisym not_less takeWhile_eq_take take_all_iff)
    then have "\<forall>i \<in> set [0..<64]. ?P i" by (metis takeWhile_eq_all_conv)
    then have "?P (63 - n)" using n(1) by (auto dest: bspec [of _ _ "63 - n"])
    with n show False by simp
  qed
  show "ukarch_flsl w < 64" by (simp add: ukarch_flsl_def)
  show "bit w (ukarch_flsl w)" using nth_length_takeWhile [of ?P "[0..<64]"] l by (simp add: ukarch_flsl_def)
  show "\<not> bit w i" if i: "ukarch_flsl w < i"
  proof
    assume b: "bit w i"
    then have i64: "i < 64" using bit_imp_le_length by fastforce
    then have "63 - i < length ?t" using i l by (simp add: ukarch_flsl_def)
    then have "?P (?t ! (63 - i))" "?t ! (63 - i) = 63 - i"
      using nth_mem [of "63 - i" ?t] by (auto dest: set_takeWhileD simp: takeWhile_nth)
    with b i64 show False by simp
  qed
qed

lemma last_word_spec:
  assumes "pos \<le> length ws" "64 * pos \<le> sz" "\<forall>i. 64 * pos \<le> i \<longrightarrow> i < sz \<longrightarrow> \<not> bm_bit ws i"
  shows "last_word ws sz pos = Inr (last_pos (bm_bit ws) sz)"
  using assms
proof (induction pos)
  case 0
  then show ?case using last_pos_none [of sz "bm_bit ws"] by simp
next
  case (Suc pos)
  have w: "word_at ws pos = Inr (ws ! pos)" using Suc.prems(1) by (simp add: word_at_def)
  have in_word: "bm_bit ws i = bit (ws ! pos) (i - 64 * pos)" if "64 * pos \<le> i" "i < 64 * Suc pos" for i
  proof -
    obtain k where "i = 64 * pos + k" using \<open>64 * pos \<le> i\<close> by (rule le_Suc_ex [THEN exE])
    with that show ?thesis by (simp add: bm_bit_def)
  qed
  show ?case
  proof (cases "ws ! pos = 0")
    case True
    then have "\<forall>i. 64 * pos \<le> i \<longrightarrow> i < sz \<longrightarrow> \<not> bm_bit ws i" using Suc.prems(3) in_word by (metis bit_0_eq bot_apply bot_bool_def not_less)
    with Suc True show ?thesis by (simp add: w)
  next
    case False
    note f = flsl_spec [OF False]
    let ?r = "64 * pos + ukarch_flsl (ws ! pos)"
    have "last_pos (bm_bit ws) sz = ?r"
    proof (rule last_pos_found)
      show "?r < sz" using f(1) Suc.prems(2) by simp
      show "bm_bit ws ?r" using f(1,2) by (simp add: in_word)
      show "\<forall>i. ?r < i \<longrightarrow> i < sz \<longrightarrow> \<not> bm_bit ws i"
      proof (intro allI impI)
        fix i assume i: "?r < i" "i < sz"
        show "\<not> bm_bit ws i"
        proof (cases "i < 64 * Suc pos")
          case True
          then show ?thesis using in_word [of i] f(3) [of "i - 64 * pos"] i(1) by simp
        qed (use Suc.prems(3) i(2) in simp)
      qed
    qed
    then show ?thesis using False by (simp add: w UK_BITS_PER_LONG_def)
  qed
qed

lemma find_last_spec:
  assumes "sz \<le> 64 * length ws"
  shows "uk_find_last_bit ws sz = Inr (last_pos (bm_bit ws) sz)"
proof -
  define p where "p = sz div 64"
  define o' where "o' = sz mod 64"
  have o: "sz = 64 * p + o'" "o' < 64" by (simp_all add: p_def o'_def)
  show ?thesis
  proof (cases "o' = 0")
    case True
    then show ?thesis using last_word_spec [of p ws sz] o assms
      by (simp add: uk_find_last_bit_def Let_def UK_BITS_PER_LONG_def flip: p_def o'_def)
  next
    case False
    then have p: "p < length ws" using assms o by simp
    obtain m where m: "UK_BITMAP_LAST_WORD_MASK o' = Inr m" "\<And>i. bit m i \<longleftrightarrow> i < o'"
      using last_word_mask [of o'] False o(2) by auto
    let ?x = "ws ! p AND m"
    have bx: "bit ?x i \<longleftrightarrow> i < o' \<and> bm_bit ws (64 * p + i)" for i using o(2) by (auto simp: bit_and_iff m(2) bm_bit_def)
    have unf: "uk_find_last_bit ws sz = (if ?x \<noteq> 0 then Inr (64 * p + ukarch_flsl ?x) else last_word ws sz p)"
      using False p m(1) by (simp add: uk_find_last_bit_def Let_def UK_BITS_PER_LONG_def word_at_def flip: p_def o'_def)
    show ?thesis
    proof (cases "?x = 0")
      case True
      have "\<not> bm_bit ws i" if "64 * p \<le> i" "i < sz" for i
        using bx [of "i - 64 * p"] that o unfolding True by simp
      then show ?thesis using last_word_spec [of p ws sz] unf True p o by simp
    next
      case x: False
      note f = flsl_spec [OF x]
      have "\<not> bm_bit ws i" if i: "64 * p + ukarch_flsl ?x < i" "i < sz" for i
      proof -
        obtain k where k: "i = 64 * p + k" using i(1) by (metis add_leE le_Suc_ex less_imp_le)
        with i f(3) [of k] bx [of k] o show ?thesis by simp
      qed
      moreover have "64 * p + ukarch_flsl ?x < sz" "bm_bit ws (64 * p + ukarch_flsl ?x)" using f(2) bx o by auto
      ultimately show ?thesis using last_pos_found [of "64 * p + ukarch_flsl ?x" sz "bm_bit ws"] unf x by simp
    qed
  qed
qed

lemma test_bit_spec:
  assumes "0 \<le> nr" "nat nr < 64 * length ws"
  shows "uk_test_bit nr ws = Inr (bm_bit ws (nat nr))"
proof -
  define n where "n = nat nr"
  have nr: "nr = int n" using assms(1) by (simp add: n_def)
  have sh: "drop_bit 3 nr = int (n div 8)" "nr AND 7 = int (n mod 8)"
  proof -
    show "drop_bit 3 nr = int (n div 8)" by (simp add: nr drop_bit_eq_div zdiv_int)
    have "(7 :: int) = mask 3" by (simp add: mask_eq_exp_minus_1)
    then show "nr AND 7 = int (n mod 8)" by (simp only: take_bit_eq_mask [symmetric]) (simp add: nr take_bit_eq_mod zmod_int)
  qed
  have d: "n div 8 div 8 = n div 64" "8 * (n div 8 mod 8) + n mod 8 = n mod 64"
    by (simp_all flip: div_mult2_eq add: mod_mult2_eq [of n 8 8, simplified])
  have in_range: "n div 8 div 8 < length ws" using assms(2) d(1) by (simp add: n_def less_mult_imp_div_less mult.commute)
  let ?b = "ucast (drop_bit (8 * (n div 8 mod 8)) (ws ! (n div 64))) :: u8"
  have "byte_of ws (drop_bit 3 nr) = Inr ?b" unfolding sh(1) byte_of_def using in_range by (simp add: d(1))
  moreover have "push_bit (n mod 8) 1 AND ?b \<noteq> 0 \<longleftrightarrow> bit ?b (n mod 8)"
  proof -
    have "bit (push_bit (n mod 8) 1 AND ?b) i \<longleftrightarrow> i = n mod 8 \<and> bit ?b (n mod 8)" for i
      by (auto simp: bit_and_iff bit_exp_iff)
    then show ?thesis by (metis bit_0_eq bot_apply bot_bool_def bit_word_eqI)
  qed
  moreover have "bit ?b (n mod 8) \<longleftrightarrow> bm_bit ws n"
  proof -
    have "n mod 8 < LENGTH(8)" by simp
    then have "bit ?b (n mod 8) \<longleftrightarrow> bit (ws ! (n div 64)) (8 * (n div 8 mod 8) + n mod 8)"
      by (simp only: bit_ucast_iff bit_drop_bit_eq o_def simp_thms)
    then show ?thesis unfolding d(2) bm_bit_def .
  qed
  ultimately show ?thesis unfolding uk_test_bit_def sh n_def [symmetric] by simp
qed

lemma partial_word_count:
  assumes "k \<le> 64" "\<And>i. bit m i \<longleftrightarrow> i < k"
  shows "popcount (ws ! p AND m) = length (filter (bm_bit ws) [64 * p..<64 * p + k])"
proof -
  have "filter (bit (ws ! p AND m)) [0..<64] = filter (bit (ws ! p)) [0..<k]"
  proof -
    have "[0..<64] = [0..<k] @ [k..<64]" using assms(1) upt_add_eq_append [of 0 k "64 - k"] by simp
    moreover have "filter (bit (ws ! p AND m)) [0..<k] = filter (bit (ws ! p)) [0..<k]"
      by (rule filter_cong) (auto simp: bit_and_iff assms(2))
    moreover have "filter (bit (ws ! p AND m)) [k..<64] = []" by (auto simp: filter_empty_conv bit_and_iff assms(2))
    ultimately show ?thesis by (simp only: filter_append append_Nil2)
  qed
  moreover have "[64 * p..<64 * p + k] = map ((+) (64 * p)) [0..<k]"
    by (rule nth_equalityI) simp_all
  moreover have "filter (bm_bit ws \<circ> (+) (64 * p)) [0..<k] = filter (bit (ws ! p)) [0..<k]"
    using assms(1) by (intro filter_cong) (auto simp: bm_bit_def)
  ultimately show ?thesis by (simp add: popcount_def filter_map)
qed

lemma whole_words_count:
  "k \<le> length ws \<Longrightarrow> sum_list (map (unat \<circ> uk_bitcount64) (take k ws)) = length (filter (bm_bit ws) [0..<64 * k])"
proof (induction k)
  case (Suc k)
  have "popcount (ws ! k) = length (filter (bm_bit ws) [64 * k..<64 * k + 64])"
    using partial_word_count [of 64 "-1" ws k] by simp
  moreover have "[0..<64 * Suc k] = [0..<64 * k] @ [64 * k..<64 * k + 64]" using upt_add_eq_append [of 0 "64 * k" 64] by (simp add: add.commute)
  ultimately show ?case using Suc by (simp add: take_Suc_conv_app_nth bitcount64_popcount)
qed simp

section \<open>Properties\<close>



text \<open>
  C32 (the weight counts the set bits): the sum of the population counts of the words, computed
  by adding neighbouring fields of each word, is the number of set bits below \<open>sz\<close>.
\<close>

theorem bitmap_weight_counts:
  assumes "sz \<le> 64 * length ws"
  shows "uk_bitmap_weight ws sz = Inr (length (filter (bm_bit ws) [0..<sz]))"
proof -
  define p where "p = sz div 64"
  define o' where "o' = sz mod 64"
  have o: "sz = 64 * p + o'" "o' < 64" by (simp_all add: p_def o'_def)
  have whole: "k \<le> length ws \<Longrightarrow> sum_list (map (unat \<circ> uk_bitcount64) (take k ws)) = length (filter (bm_bit ws) [0..<64 * k])" for k
    by (rule whole_words_count)
  show ?thesis
  proof (cases "o' = 0")
    case True
    then show ?thesis using whole [of p] o assms
      by (simp add: uk_bitmap_weight_def UK_BIT_WORD_def UK_BITS_PER_LONG_def Let_def flip: p_def o'_def)
  next
    case False
    then have p: "p < length ws" using assms o by simp
    obtain m where m: "UK_BITMAP_LAST_WORD_MASK o' = Inr m" "\<And>i. bit m i \<longleftrightarrow> i < o'"
      using last_word_mask [of o'] False o(2) by auto
    have "unat (uk_bitcount64 (ws ! p AND m)) = length (filter (bm_bit ws) [64 * p..<64 * p + o'])"
      unfolding bitcount64_popcount using partial_word_count [OF _ m(2)] o(2) by simp
    moreover have "[0..<sz] = [0..<64 * p] @ [64 * p..<64 * p + o']" using upt_add_eq_append [of 0 "64 * p" o'] o(1) by simp
    ultimately show ?thesis using whole [of p] p False m(1)
      by (simp add: uk_bitmap_weight_def UK_BIT_WORD_def UK_BITS_PER_LONG_def Let_def word_at_def flip: p_def o'_def)
  qed
qed

theorem bitmap_weight_counts_witness: "uk_bitmap_weight [0xff, 1024] 70 = Inr (length (filter (bm_bit [0xff, 1024]) [0..<70]))"
  by (rule bitmap_weight_counts) simp

text \<open>
  C33 (range updates): \<^verbatim>\<open>uk_bitmap_set\<close> and \<^verbatim>\<open>uk_bitmap_clear\<close> change exactly the bits of their range
  when the range ends within the first word or at a word boundary. Every other non-empty range
  makes them shift a word by 64 or more places, which is undefined.
\<close>

theorem bitmap_range_updates:
  assumes "start + nr \<le> 64 * length ws" "0 < nr"
  shows "if start + nr \<le> 64 \<or> 64 dvd start + nr
    then (\<exists>ws'. uk_bitmap_set ws start nr = Inr ws' \<and> range_is ws ws' start (start + nr) True) \<and>
         (\<exists>ws'. uk_bitmap_clear ws start nr = Inr ws' \<and> range_is ws ws' start (start + nr) False)
    else uk_bitmap_set ws start nr = Inl Undef \<and> uk_bitmap_clear ws start nr = Inl Undef"
  using bitmap_range_spec [OF assigns_or assms(1)] bitmap_range_spec [OF assigns_clear assms(1)] assms(2)
  unfolding uk_bitmap_set_def uk_bitmap_clear_def by (simp split: if_splits)

theorem bitmap_range_updates_witness:
  "(\<exists>ws'. uk_bitmap_set [0, 0] 3 4 = Inr ws' \<and> range_is [0, 0] ws' 3 7 True) \<and> uk_bitmap_set [0, 0] 64 1 = Inl Undef"
  using bitmap_range_updates [of 3 4 "[0, 0]"] bitmap_range_updates [of 64 1 "[0, 0]"] by simp

end
