(* ===== verification/Vfs_State.thy ===== *)
theory Vfs_State
  imports Windows Uio Bitmap
begin

text \<open>
  The state of the file system cubicles, \<^verbatim>\<open>lib/vfscore\<close> and \<^verbatim>\<open>lib/ramfs\<close>: the structures in
  memory by their address (0 is \<^verbatim>\<open>NULL\<close>), the bytes of buffers, the hash tables, the window
  tables and the files. Locks are no-operations in this build and are left out.
\<close>

section \<open>Structures\<close>

datatype vtype = VNON | VREG | VDIR | VBLK | VCHR | VLNK | VSOCK | VFIFO | VBAD

record timespec =
  tv_sec :: int
  tv_nsec :: int

record vnode =
  v_ino :: u64
  v_mount :: u64
  v_refcnt :: int
  v_type :: vtype
  v_flags :: int
  v_mode :: u32
  v_size :: int
  v_names :: "u64 list"
  v_data :: u64

text \<open>The path of a dentry is the string in the buffer at \<open>d_pathbuf\<close>.\<close>

record dentry =
  d_refcnt :: int
  d_path :: string
  d_pathbuf :: u64
  d_vnode :: u64
  d_mount :: u64
  d_parent :: u64
  d_child_list :: "u64 list"

text \<open>\<^verbatim>\<open>m_op\<close> is the number of the file system in the list of file systems.\<close>

record mount =
  m_op :: nat
  m_flags :: int
  m_count :: int
  m_path :: string
  m_special :: string
  m_dev :: u64
  m_root :: u64
  m_covered :: u64

text \<open>The name of a node is the string in the buffer at \<open>rn_namebuf\<close>.\<close>

record ramfs_node =
  rn_next :: u64
  rn_child :: u64
  rn_type :: vtype
  rn_name :: string
  rn_namebuf :: u64
  rn_namelen :: nat
  rn_size :: u64
  rn_buf :: u64
  rn_bufsize :: u64
  rn_ctime :: timespec
  rn_atime :: timespec
  rn_mtime :: timespec
  rn_mode :: u32
  rn_owns_buf :: bool

record vfscore_file =
  f_fd :: int
  f_flags :: int
  f_count :: int
  f_offset :: int
  f_data :: u64
  f_vfs_flags :: int
  f_dentry :: u64

text \<open>
  \<open>w_answers\<close> are the results that the allocators of the two cubicles will return, in order,
  and \<open>w_live\<close> are the blocks they have handed out, with their sizes. The allocators
  themselves (\<^verbatim>\<open>dlmalloc.c\<close>) are not modelled.
\<close>

record vfs =
  w_mem :: mem
  w_answers :: "u64 list"
  w_live :: "u64 \<rightharpoonup> u64"
  w_mount :: "u64 \<Rightarrow> mount"
  w_vnode :: "u64 \<Rightarrow> vnode"
  w_dentry :: "u64 \<Rightarrow> dentry"
  w_node :: "u64 \<Rightarrow> ramfs_node"
  w_file :: "u64 \<Rightarrow> vfscore_file"
  mount_list :: "u64 list"
  vnode_table :: "nat \<Rightarrow> u64 list"
  dentry_hash_table :: "nat \<Rightarrow> u64 list"
  dentry_fake :: "u64 list"
  vfs_heap_tab :: real_table
  vfs_stack_tab :: "ipc_struct list"
  ramfs_heap_tab :: "ipc_struct list"
  ramfs_stack_tab :: "ipc_struct list"
  inode_count :: u64
  fd_bitmap :: bitmap
  fd_files :: "u64 list"

abbreviation (input) set_vnode :: "u64 \<Rightarrow> (vnode \<Rightarrow> vnode) \<Rightarrow> vfs \<Rightarrow> vfs" where
  "set_vnode vp f w \<equiv> w\<lparr>w_vnode := (w_vnode w)(vp := f (w_vnode w vp))\<rparr>"

abbreviation (input) set_dentry :: "u64 \<Rightarrow> (dentry \<Rightarrow> dentry) \<Rightarrow> vfs \<Rightarrow> vfs" where
  "set_dentry dp f w \<equiv> w\<lparr>w_dentry := (w_dentry w)(dp := f (w_dentry w dp))\<rparr>"

abbreviation (input) set_node :: "u64 \<Rightarrow> (ramfs_node \<Rightarrow> ramfs_node) \<Rightarrow> vfs \<Rightarrow> vfs" where
  "set_node np f w \<equiv> w\<lparr>w_node := (w_node w)(np := f (w_node w np))\<rparr>"

abbreviation (input) set_mount :: "u64 \<Rightarrow> (mount \<Rightarrow> mount) \<Rightarrow> vfs \<Rightarrow> vfs" where
  "set_mount mp f w \<equiv> w\<lparr>w_mount := (w_mount w)(mp := f (w_mount w mp))\<rparr>"

abbreviation (input) set_file :: "u64 \<Rightarrow> (vfscore_file \<Rightarrow> vfscore_file) \<Rightarrow> vfs \<Rightarrow> vfs" where
  "set_file fp f w \<equiv> w\<lparr>w_file := (w_file w)(fp := f (w_file w fp))\<rparr>"

section \<open>Allocation\<close>

text \<open>
  The next answer of the allocator; an exhausted supply answers \<^verbatim>\<open>NULL\<close>. Releasing a block
  that is not in use is undefined.
\<close>

definition alloc_mem :: "u64 \<Rightarrow> vfs \<Rightarrow> u64 \<times> vfs" where
  "alloc_mem n w =
     (case w_answers w of
        [] \<Rightarrow> (0, w)
      | p # ps \<Rightarrow> (p, w\<lparr>w_answers := ps, w_live := (if p = 0 then w_live w else (w_live w)(p \<mapsto> n))\<rparr>))"

definition calloc_mem :: "u64 \<Rightarrow> u64 \<Rightarrow> vfs \<Rightarrow> u64 \<times> vfs" where
  "calloc_mem k n w =
     (let (p, w') = alloc_mem (k * n) w
      in (p, if p = 0 then w' else w'\<lparr>w_mem := memset p 0 (k * n) (w_mem w')\<rparr>))"

definition free_mem :: "u64 \<Rightarrow> vfs \<Rightarrow> vfs res" where
  "free_mem p w =
     (if p = 0 then Inr w
      else if w_live w p = None then Inl Undef
      else Inr (w\<lparr>w_live := (w_live w)(p := None)\<rparr>))"

text \<open>Sizes of the structures in a build without \<^verbatim>\<open>CONFIG_LIBUKSCHED\<close>.\<close>

definition sizeof_vnode :: u64 where "sizeof_vnode = 88"

definition sizeof_dentry :: u64 where "sizeof_dentry = 104"

definition sizeof_mount :: u64 where "sizeof_mount = 8264"

definition sizeof_ramfs_node :: u64 where "sizeof_ramfs_node = 120"

text \<open>\<^verbatim>\<open>PATH_MAX\<close>, \<^verbatim>\<open>NAME_MAX\<close> and the file modes of nolibc.\<close>

definition PATH_MAX :: nat where "PATH_MAX = 4096"

definition NAME_MAX :: nat where "NAME_MAX = 255"

definition S_IFMT :: u32 where "S_IFMT = 0xF000"

definition S_IFREG :: u32 where "S_IFREG = 0x8000"

definition S_IFDIR :: u32 where "S_IFDIR = 0x4000"

definition S_IFBLK :: u32 where "S_IFBLK = 0x6000"

definition S_IFCHR :: u32 where "S_IFCHR = 0x2000"

definition S_IFLNK :: u32 where "S_IFLNK = 0xA000"

definition S_IFSOCK :: u32 where "S_IFSOCK = 0xC000"

definition S_IFIFO :: u32 where "S_IFIFO = 0x1000"

definition UK_ALLPERMS :: u32 where "UK_ALLPERMS = 0xFFF"

definition strlcpy :: "string \<Rightarrow> nat \<Rightarrow> string" where
  "strlcpy src n = take (n - 1) src"

definition strlcat :: "string \<Rightarrow> string \<Rightarrow> nat \<Rightarrow> string" where
  "strlcat dst src n = (if length dst < n then take (n - 1) (dst @ src) else dst)"

text \<open>The windows that VFSCORE opens on its structures: to VFSCORE, RAMFS and, for some, LWIP.\<close>

definition add_vfs_window :: "u64 \<Rightarrow> u64 \<Rightarrow> int \<Rightarrow> vfs \<Rightarrow> vfs res" where
  "add_vfs_window p n msk w =
     bindr (vfs_ipc_add_heap (vfs_heap_tab w) p n msk) (\<lambda>t. Inr (w\<lparr>vfs_heap_tab := t\<rparr>))"

definition remove_vfs_window :: "u64 \<Rightarrow> vfs \<Rightarrow> vfs res" where
  "remove_vfs_window p w =
     bindr (vfs_ipc_remove_heap (vfs_heap_tab w) p) (\<lambda>t. Inr (w\<lparr>vfs_heap_tab := t\<rparr>))"

text \<open>An assignment to \<^verbatim>\<open>VFSCORE_ipc_tab_stack[i].begin\<close>.\<close>

definition vfs_stack_window :: "nat \<Rightarrow> u64 \<Rightarrow> vfs \<Rightarrow> vfs" where
  "vfs_stack_window i p w = w\<lparr>vfs_stack_tab := (vfs_stack_tab w)[i := (vfs_stack_tab w ! i)\<lparr>ipc_begin := p\<rparr>]\<rparr>"

end
