(* ===== verification/Vnode.thy ===== *)
theory Vnode
  imports Vfs_State
begin

text \<open>
  Active vnodes (\<^verbatim>\<open>vfscore/vnode.c\<close>): the table of vnodes, reference counts, attributes and
  access checks. The operations of the file system behind a vnode are parameters where the
  source calls them through \<^verbatim>\<open>v_op\<close>.
\<close>

section \<open>Types and modes\<close>

definition iftovt_tab :: "vtype list" where
  "iftovt_tab = [VNON, VFIFO, VCHR, VNON, VDIR, VNON, VBLK, VNON, VREG, VNON, VLNK, VNON, VSOCK, VNON, VNON, VBAD]"

definition vttoif_tab :: "vtype \<Rightarrow> u32" where
  "vttoif_tab t = (case t of VNON \<Rightarrow> 0 | VREG \<Rightarrow> S_IFREG | VDIR \<Rightarrow> S_IFDIR | VBLK \<Rightarrow> S_IFBLK | VCHR \<Rightarrow> S_IFCHR
     | VLNK \<Rightarrow> S_IFLNK | VSOCK \<Rightarrow> S_IFSOCK | VFIFO \<Rightarrow> S_IFIFO | VBAD \<Rightarrow> S_IFMT)"

definition IFTOVT :: "u32 \<Rightarrow> vtype" where
  "IFTOVT mode = iftovt_tab ! unat (drop_bit 12 (mode AND S_IFMT))"

section \<open>Mount reference counts\<close>

definition vfs_busy :: "u64 \<Rightarrow> vfs \<Rightarrow> vfs" where
  "vfs_busy mp w = set_mount mp (\<lambda>m. m\<lparr>m_count := m_count m + 1\<rparr>) w"

definition vfs_unbusy :: "u64 \<Rightarrow> vfs \<Rightarrow> vfs" where
  "vfs_unbusy mp w = set_mount mp (\<lambda>m. m\<lparr>m_count := m_count m - 1\<rparr>) w"

section \<open>The table of vnodes\<close>

definition VNODE_BUCKETS :: nat where "VNODE_BUCKETS = 32"

definition vn_hash :: "u64 \<Rightarrow> u64 \<Rightarrow> nat" where
  "vn_hash mp ino = unat ((ino XOR mp) AND (of_nat VNODE_BUCKETS - 1))"

text \<open>The result is 0 when there is no such vnode.\<close>

definition vn_lookup :: "u64 \<Rightarrow> u64 \<Rightarrow> vfs \<Rightarrow> u64 \<times> vfs" where
  "vn_lookup mp ino w =
     (case find (\<lambda>vp. v_mount (w_vnode w vp) = mp \<and> v_ino (w_vnode w vp) = ino) (vnode_table w (vn_hash mp ino)) of
        Some vp \<Rightarrow> (vp, set_vnode vp (\<lambda>v. v\<lparr>v_refcnt := v_refcnt v + 1\<rparr>) w)
      | None \<Rightarrow> (0, w))"

definition vn_lock :: "u64 \<Rightarrow> vfs \<Rightarrow> unit res" where
  "vn_lock vp w = guardr (vp \<noteq> 0 \<and> v_refcnt (w_vnode w vp) > 0) Assert"

definition vn_unlock :: "u64 \<Rightarrow> vfs \<Rightarrow> unit res" where
  "vn_unlock vp w = guardr (vp \<noteq> 0 \<and> v_refcnt (w_vnode w vp) \<ge> 0) Assert"

text \<open>
  The result, the vnode stored to \<^verbatim>\<open>*vpp\<close>, and the state; \<open>vget\<close> is \<^verbatim>\<open>VFS_VGET\<close>. Fields
  that the source leaves as they are in the fresh block are kept.
\<close>

definition vfscore_vget ::
  "(u64 \<Rightarrow> u64 \<Rightarrow> vfs \<Rightarrow> (int \<times> vfs) res) \<Rightarrow> u64 \<Rightarrow> u64 \<Rightarrow> vfs \<Rightarrow> (int \<times> u64 \<times> vfs) res" where
  "vfscore_vget vget mp ino w =
     (let (vp, w1) = vn_lookup mp ino w
      in if vp \<noteq> 0 then Inr (1, vp, w1)
         else let (vp, w2) = alloc_mem sizeof_vnode w1
         in if vp = 0 then Inr (0, 0, w2)
            else bindr (add_vfs_window vp sizeof_vnode (bits [21, 2, 17]) w2) (\<lambda>w3.
                 let w4 = set_vnode vp (\<lambda>v. v\<lparr>v_ino := ino, v_mount := mp, v_refcnt := 1, v_names := []\<rparr>) w3
                 in bindr (vget mp vp w4) (\<lambda>(error, w5).
                      if error \<noteq> 0 then bindr (free_mem vp w5) (\<lambda>w6. Inr (error, 0, w6))
                      else let w6 = vfs_busy (v_mount (w_vnode w5 vp)) w5;
                               h = vn_hash mp ino
                           in Inr (0, vp, w6\<lparr>vnode_table := (vnode_table w6)(h := vp # vnode_table w6 h)\<rparr>))))"

text \<open>Removal from the list the vnode is linked in; \<open>h\<close> is the bucket that list belongs to.\<close>

definition vn_unlink :: "u64 \<Rightarrow> vfs \<Rightarrow> vfs" where
  "vn_unlink vp w =
     (let h = vn_hash (v_mount (w_vnode w vp)) (v_ino (w_vnode w vp))
      in w\<lparr>vnode_table := (vnode_table w)(h := remove1 vp (vnode_table w h))\<rparr>)"

definition vref :: "u64 \<Rightarrow> vfs \<Rightarrow> vfs res" where
  "vref vp w =
     (if vp = 0 \<or> \<not> v_refcnt (w_vnode w vp) > 0 then Inl Assert
      else Inr (set_vnode vp (\<lambda>v. v\<lparr>v_refcnt := v_refcnt v + 1\<rparr>) w))"

definition vrele :: "(u64 \<Rightarrow> vfs \<Rightarrow> vfs res) \<Rightarrow> u64 \<Rightarrow> vfs \<Rightarrow> vfs res" where
  "vrele inactive vp w =
     (if vp = 0 \<or> \<not> v_refcnt (w_vnode w vp) > 0 then Inl Assert
      else let w1 = set_vnode vp (\<lambda>v. v\<lparr>v_refcnt := v_refcnt v - 1\<rparr>) w
           in if v_refcnt (w_vnode w1 vp) > 0 then Inr w1
              else bindr (inactive vp (vn_unlink vp w1)) (\<lambda>w2.
                     free_mem vp (vfs_unbusy (v_mount (w_vnode w2 vp)) w2)))"

definition vput :: "(u64 \<Rightarrow> vfs \<Rightarrow> vfs res) \<Rightarrow> u64 \<Rightarrow> vfs \<Rightarrow> vfs res" where
  "vput inactive vp w =
     (if vp = 0 \<or> \<not> v_refcnt (w_vnode w vp) > 0 then Inl Assert
      else let w1 = set_vnode vp (\<lambda>v. v\<lparr>v_refcnt := v_refcnt v - 1\<rparr>) w
           in if v_refcnt (w_vnode w1 vp) > 0 then bindr (vn_unlock vp w1) (\<lambda>_. Inr w1)
              else bindr (inactive vp (vn_unlink vp w1)) (\<lambda>w2.
                     free_mem vp (vfs_unbusy (v_mount (w_vnode w2 vp)) w2)))"

definition vn_add_name :: "u64 \<Rightarrow> u64 \<Rightarrow> vfs \<Rightarrow> vfs" where
  "vn_add_name vp dp w = set_vnode vp (\<lambda>v. v\<lparr>v_names := dp # v_names v\<rparr>) w"

definition vn_del_name :: "u64 \<Rightarrow> u64 \<Rightarrow> vfs \<Rightarrow> vfs" where
  "vn_del_name vp dp w = set_vnode vp (\<lambda>v. v\<lparr>v_names := remove1 dp (v_names v)\<rparr>) w"

definition vnode_init :: "vfs \<Rightarrow> vfs" where
  "vnode_init w = w\<lparr>vnode_table := (\<lambda>h. if h < VNODE_BUCKETS then [] else vnode_table w h)\<rparr>"

section \<open>Attributes\<close>

record vattr =
  va_mask :: u32
  va_type :: vtype
  va_mode :: u32
  va_nlink :: int
  va_uid :: int
  va_gid :: int
  va_fsid :: int
  va_nodeid :: u64
  va_atime :: timespec
  va_mtime :: timespec
  va_ctime :: timespec
  va_rdev :: int
  va_size :: int

definition zero_time :: timespec where
  "zero_time = \<lparr>tv_sec = 0, tv_nsec = 0\<rparr>"

definition zero_vattr :: vattr where
  "zero_vattr = \<lparr>va_mask = 0, va_type = VNON, va_mode = 0, va_nlink = 0, va_uid = 0, va_gid = 0, va_fsid = 0,
     va_nodeid = 0, va_atime = zero_time, va_mtime = zero_time, va_ctime = zero_time, va_rdev = 0, va_size = 0\<rparr>"

record stat =
  st_ino :: u64
  st_size :: int
  st_mode :: u32
  st_nlink :: int
  st_blksize :: int
  st_blocks :: int
  st_uid :: int
  st_gid :: int
  st_dev :: int
  st_rdev :: int
  st_atim :: timespec
  st_mtim :: timespec
  st_ctim :: timespec

definition zero_stat :: stat where
  "zero_stat = \<lparr>st_ino = 0, st_size = 0, st_mode = 0, st_nlink = 0, st_blksize = 0, st_blocks = 0, st_uid = 0,
     st_gid = 0, st_dev = 0, st_rdev = 0, st_atim = zero_time, st_mtim = zero_time, st_ctim = zero_time\<rparr>"

definition AT_MODE :: u32 where "AT_MODE = 0x2"

definition AT_ATIME :: u32 where "AT_ATIME = 0x100"

definition AT_MTIME :: u32 where "AT_MTIME = 0x200"

definition AT_CTIME :: u32 where "AT_CTIME = 0x400"

definition type_mode :: "vtype \<Rightarrow> u32 option" where
  "type_mode t = (case t of VREG \<Rightarrow> Some S_IFREG | VDIR \<Rightarrow> Some S_IFDIR | VBLK \<Rightarrow> Some S_IFBLK
     | VCHR \<Rightarrow> Some S_IFCHR | VLNK \<Rightarrow> Some S_IFLNK | VSOCK \<Rightarrow> Some S_IFSOCK | VFIFO \<Rightarrow> Some S_IFIFO | _ \<Rightarrow> None)"

text \<open>
  \<open>pad\<close> is the address of the attributes on the stack, \<open>BSIZE\<close> the block size of the build.
  The results are the error and \<^verbatim>\<open>*st\<close>.
\<close>

definition vn_stat ::
  "int \<Rightarrow> (u64 \<Rightarrow> vattr \<Rightarrow> vfs \<Rightarrow> (int \<times> vattr \<times> vfs) res) \<Rightarrow> u64 \<Rightarrow> u64 \<Rightarrow> vfs \<Rightarrow> (int \<times> stat \<times> vfs) res" where
  "vn_stat BSIZE getattr pad vp w =
     bindr (getattr vp zero_vattr (vfs_stack_window 10 pad w)) (\<lambda>(error, vap, w1).
       if error \<noteq> 0 then Inr (error, zero_stat, w1)
       else let st = zero_stat\<lparr>st_ino := va_nodeid vap, st_size := va_size vap\<rparr>
       in case type_mode (v_type (w_vnode w1 vp)) of
            None \<Rightarrow> Inr (EBADF, st, w1)
          | Some tm \<Rightarrow> Inr (0, st\<lparr>st_mode := va_mode vap OR tm, st_nlink := va_nlink vap, st_blksize := BSIZE,
              st_blocks := va_size vap div 512, st_uid := va_uid vap, st_gid := va_gid vap, st_dev := va_fsid vap,
              st_rdev := (if v_type (w_vnode w1 vp) = VCHR \<or> v_type (w_vnode w1 vp) = VBLK then va_rdev vap else 0),
              st_atim := va_atime vap, st_mtim := va_mtime vap, st_ctim := va_ctime vap\<rparr>, w1))"

definition UTIME_OMIT :: int where "UTIME_OMIT = 0x3ffffffe"

definition vn_settimes ::
  "(u64 \<Rightarrow> vattr \<Rightarrow> vfs \<Rightarrow> (int \<times> vfs) res) \<Rightarrow> u64 \<Rightarrow> u64 \<Rightarrow> timespec \<Rightarrow> timespec \<Rightarrow> vfs \<Rightarrow> (int \<times> vfs) res" where
  "vn_settimes setattr pad vp t0 t1 w =
     (let w1 = vfs_stack_window 10 pad w;
          vap = zero_vattr\<lparr>va_mask := (if tv_nsec t0 = UTIME_OMIT then 0 else AT_ATIME) OR
                    (if tv_nsec t1 = UTIME_OMIT then 0 else AT_MTIME), va_atime := t0, va_mtime := t1\<rparr>
      in bindr (vn_lock vp w1) (\<lambda>_. bindr (setattr vp vap w1) (\<lambda>(error, w2).
           bindr (vn_unlock vp w2) (\<lambda>_. Inr (error, w2)))))"

definition vn_setmode ::
  "(u64 \<Rightarrow> vattr \<Rightarrow> vfs \<Rightarrow> (int \<times> vfs) res) \<Rightarrow> u64 \<Rightarrow> u64 \<Rightarrow> u32 \<Rightarrow> vfs \<Rightarrow> (int \<times> vfs) res" where
  "vn_setmode setattr pad vp new_mode w =
     (let w1 = vfs_stack_window 10 pad w;
          vap = zero_vattr\<lparr>va_mask := AT_MODE, va_mode := new_mode\<rparr>
      in bindr (vn_lock vp w1) (\<lambda>_. bindr (setattr vp vap (set_vnode vp (\<lambda>v. v\<lparr>v_mode := new_mode\<rparr>) w1)) (\<lambda>(error, w2).
           bindr (vn_unlock vp w2) (\<lambda>_. Inr (error, w2)))))"

definition VEXEC :: int where "VEXEC = 1"

definition VWRITE :: int where "VWRITE = 2"

definition VREAD :: int where "VREAD = 4"

definition MNT_RDONLY :: int where "MNT_RDONLY = 1"

definition vn_access :: "u64 \<Rightarrow> int \<Rightarrow> vfs \<Rightarrow> int" where
  "vn_access vp flags w =
     (let v = w_vnode w vp
      in if flags AND VEXEC \<noteq> 0 \<and> v_mode v AND 0x49 = 0 then EACCES
         else if flags AND VREAD \<noteq> 0 \<and> v_mode v AND 0x124 = 0 then EACCES
         else if flags AND VWRITE \<noteq> 0
         then if m_flags (w_mount w (v_mount v)) AND MNT_RDONLY \<noteq> 0 then EROFS
              else if v_mode v AND 0x92 = 0 then EACCES else 0
         else 0)"

section \<open>Default operations\<close>

definition vfscore_vop_nullop :: int where "vfscore_vop_nullop = 0"

definition vfscore_vop_einval :: int where "vfscore_vop_einval = EINVAL"

definition vfscore_vop_eperm :: int where "vfscore_vop_eperm = EPERM"

definition vfscore_vop_erofs :: int where "vfscore_vop_erofs = EROFS"

end
