(* ===== verification/Ramfs.thy ===== *)
theory Ramfs
  imports Vnode
begin

text \<open>
  The memory file system (\<^verbatim>\<open>lib/ramfs\<close>): nodes in a tree of linked lists, file data in one
  buffer per file, and the windows that let the other cubicles access these buffers. Results
  are error numbers, 0 for success; loops over a list of nodes with a cycle run forever.
\<close>

section \<open>Nodes\<close>

text \<open>\<^verbatim>\<open>set_times_to_now\<close> stores the time zero.\<close>

definition touch_mc :: "ramfs_node \<Rightarrow> ramfs_node" where
  "touch_mc n = n\<lparr>rn_ctime := zero_time, rn_mtime := zero_time\<rparr>"

definition touch_a :: "ramfs_node \<Rightarrow> ramfs_node" where
  "touch_a n = n\<lparr>rn_atime := zero_time\<rparr>"

definition new_node :: "string \<Rightarrow> u64 \<Rightarrow> vtype \<Rightarrow> ramfs_node" where
  "new_node name namebuf ty =
     \<lparr>rn_next = 0, rn_child = 0, rn_type = ty, rn_name = name, rn_namebuf = namebuf, rn_namelen = length name,
      rn_size = 0, rn_buf = 0, rn_bufsize = 0, rn_ctime = zero_time, rn_atime = zero_time, rn_mtime = zero_time,
      rn_mode = (if ty = VDIR then S_IFDIR else if ty = VLNK then S_IFLNK else S_IFREG) OR 0x1FF,
      rn_owns_buf = True\<rparr>"

definition ramfs_allocate_node :: "string \<Rightarrow> vtype \<Rightarrow> vfs \<Rightarrow> (u64 \<times> vfs) res" where
  "ramfs_allocate_node name ty w =
     (let (np, w1) = alloc_mem sizeof_ramfs_node w
      in if np = 0 then Inr (0, w1)
         else let (nb, w2) = alloc_mem (of_nat (length name) + 1) w1
              in if nb = 0 then bindr (free_mem np w2) (\<lambda>w3. Inr (0, w3))
                 else Inr (np, set_node np (\<lambda>_. new_node name nb ty) w2))"

definition remove_ramfs_window :: "u64 \<Rightarrow> vfs \<Rightarrow> vfs res" where
  "remove_ramfs_window p w =
     bindr (ramfs_ipc_remove_heap (ramfs_heap_tab w) p) (\<lambda>t. Inr (w\<lparr>ramfs_heap_tab := t\<rparr>))"

definition add_ramfs_window :: "u64 \<Rightarrow> u64 \<Rightarrow> vfs \<Rightarrow> vfs res" where
  "add_ramfs_window p n w =
     bindr (ramfs_ipc_add_heap (ramfs_heap_tab w) p n (bits [21, 2])) (\<lambda>t. Inr (w\<lparr>ramfs_heap_tab := t\<rparr>))"

definition ramfs_free_node :: "u64 \<Rightarrow> vfs \<Rightarrow> vfs res" where
  "ramfs_free_node np w =
     (let n = w_node w np
      in bindr (if rn_buf n \<noteq> 0 \<and> rn_owns_buf n
                then bindr (remove_ramfs_window (rn_buf n) w) (free_mem (rn_buf n))
                else Inr w) (\<lambda>w1.
         bindr (free_mem (rn_namebuf n) w1) (free_mem np)))"

text \<open>The last node of a list, and the node before \<open>np\<close> (0 if \<open>np\<close> is not in the list).\<close>

partial_function (option) last_node :: "vfs \<Rightarrow> u64 \<Rightarrow> u64 option" where
  "last_node w prev =
     (if rn_next (w_node w prev) = 0 then Some prev else last_node w (rn_next (w_node w prev)))"

partial_function (option) prev_node :: "vfs \<Rightarrow> u64 \<Rightarrow> u64 \<Rightarrow> u64 option" where
  "prev_node w np prev =
     (if rn_next (w_node w prev) = np then Some prev
      else if rn_next (w_node w prev) = 0 then Some 0
      else prev_node w np (rn_next (w_node w prev)))"

definition ramfs_add_node :: "u64 \<Rightarrow> string \<Rightarrow> vtype \<Rightarrow> vfs \<Rightarrow> (u64 \<times> vfs) res" where
  "ramfs_add_node dnp name ty w =
     bindr (ramfs_allocate_node name ty w) (\<lambda>(np, w1).
       if np = 0 then Inr (0, w1)
       else bindr (if rn_child (w_node w1 dnp) = 0 then Inr (set_node dnp (\<lambda>n. n\<lparr>rn_child := np\<rparr>) w1)
                   else case last_node w1 (rn_child (w_node w1 dnp)) of
                          None \<Rightarrow> Inl Hang
                        | Some prev \<Rightarrow> Inr (set_node prev (\<lambda>n. n\<lparr>rn_next := np\<rparr>) w1)) (\<lambda>w2.
              Inr (np, set_node dnp touch_mc w2)))"

definition ramfs_remove_node :: "u64 \<Rightarrow> u64 \<Rightarrow> vfs \<Rightarrow> (int \<times> vfs) res" where
  "ramfs_remove_node dnp np w =
     (let child = rn_child (w_node w dnp)
      in if child = 0 then Inr (EBUSY, w)
         else if child = np
         then Inr (0, set_node dnp touch_mc (set_node dnp (\<lambda>n. n\<lparr>rn_child := rn_next (w_node w np)\<rparr>) w))
         else case prev_node w np child of
                None \<Rightarrow> Inl Hang
              | Some prev \<Rightarrow>
                  if prev = 0 then Inr (ENOENT, w)
                  else Inr (0, set_node dnp touch_mc (set_node prev (\<lambda>n. n\<lparr>rn_next := rn_next (w_node w np)\<rparr>) w)))"

definition ramfs_rename_node :: "u64 \<Rightarrow> string \<Rightarrow> vfs \<Rightarrow> (int \<times> vfs) res" where
  "ramfs_rename_node np name w =
     (let len = length name
      in if len > NAME_MAX then Inr (ENAMETOOLONG, w)
         else bindr (if len \<le> rn_namelen (w_node w np)
                     then Inr (0, set_node np (\<lambda>n. n\<lparr>rn_name := strlcpy name (rn_namelen n + 1)\<rparr>) w)
                     else let (tmp, w1) = alloc_mem (of_nat len + 1) w
                          in if tmp = 0 then Inr (ENOMEM, w1)
                             else bindr (free_mem (rn_namebuf (w_node w1 np)) w1) (\<lambda>w2.
                                    Inr (0, set_node np (\<lambda>n. n\<lparr>rn_name := strlcpy name (len + 1), rn_namebuf := tmp\<rparr>) w2)))
              (\<lambda>(error, w3).
                 if error \<noteq> 0 then Inr (error, w3)
                 else Inr (0, set_node np (\<lambda>n. n\<lparr>rn_namelen := len, rn_ctime := zero_time\<rparr>) w3)))"

section \<open>Directories\<close>

partial_function (option) find_child :: "vfs \<Rightarrow> string \<Rightarrow> u64 \<Rightarrow> u64 option" where
  "find_child w name np =
     (if np = 0 then Some 0
      else if rn_namelen (w_node w np) = length name \<and> take (length name) (rn_name (w_node w np)) = name then Some np
      else find_child w name (rn_next (w_node w np)))"

text \<open>
  \<open>pad\<close> is the address of the local variable \<^verbatim>\<open>pad.vp\<close>. The results are the error and the
  vnode stored to \<^verbatim>\<open>*vpp\<close>.
\<close>

definition ramfs_vget :: "u64 \<Rightarrow> u64 \<Rightarrow> vfs \<Rightarrow> (int \<times> vfs) res" where
  "ramfs_vget mp vp w = Inr (0, w)"

definition ramfs_lookup :: "u64 \<Rightarrow> u64 \<Rightarrow> string \<Rightarrow> vfs \<Rightarrow> (int \<times> u64 \<times> vfs) res" where
  "ramfs_lookup pad dvp name w =
     (let w0 = w\<lparr>ramfs_stack_tab := (ramfs_stack_tab w)[0 := (ramfs_stack_tab w ! 0)\<lparr>ipc_begin := pad\<rparr>]\<rparr>
      in if name = [] then Inr (ENOENT, 0, w0)
         else case find_child w0 name (rn_child (w_node w0 (v_data (w_vnode w0 dvp)))) of
                None \<Rightarrow> Inl Hang
              | Some np \<Rightarrow>
                  if np = 0 then Inr (ENOENT, 0, w0)
                  else bindr (vfscore_vget ramfs_vget (v_mount (w_vnode w0 dvp)) (inode_count w0)
                                (w0\<lparr>inode_count := inode_count w0 + 1\<rparr>)) (\<lambda>(found, vp, w1).
                    if found \<noteq> 0 then Inr (0, vp, w1)
                    else if vp = 0 then Inr (ENOMEM, 0, w1)
                    else Inr (0, vp, set_vnode vp (\<lambda>v. v\<lparr>v_type := rn_type (w_node w1 np), v_mode := UK_ALLPERMS,
                                v_size := sint (rn_size (w_node w1 np)), v_data := np\<rparr>) w1)))"

definition ramfs_mkdir :: "u64 \<Rightarrow> string \<Rightarrow> u32 \<Rightarrow> vfs \<Rightarrow> (int \<times> vfs) res" where
  "ramfs_mkdir dvp name mode w =
     (if length name > NAME_MAX then Inr (ENAMETOOLONG, w)
      else if mode AND S_IFMT \<noteq> S_IFDIR then Inr (EINVAL, w)
      else bindr (ramfs_add_node (v_data (w_vnode w dvp)) name VDIR w) (\<lambda>(np, w1).
        if np = 0 then Inr (ENOMEM, w1) else Inr (0, set_node np (\<lambda>n. n\<lparr>rn_size := 0\<rparr>) w1)))"

definition ramfs_create :: "u64 \<Rightarrow> string \<Rightarrow> u32 \<Rightarrow> vfs \<Rightarrow> (int \<times> vfs) res" where
  "ramfs_create dvp name mode w =
     (if length name > NAME_MAX then Inr (ENAMETOOLONG, w)
      else if mode AND S_IFMT \<noteq> S_IFREG then Inr (EINVAL, w)
      else bindr (ramfs_add_node (v_data (w_vnode w dvp)) name VREG w) (\<lambda>(np, w1).
        Inr (if np = 0 then ENOMEM else 0, w1)))"

text \<open>\<^verbatim>\<open>strndup\<close> copies the bytes of a string to a new block; its failure is not tested.\<close>

definition store_string :: "u64 \<Rightarrow> string \<Rightarrow> mem \<Rightarrow> mem" where
  "store_string p s m a = (if unat (a - p) < length s then of_char (s ! unat (a - p))
     else if unat (a - p) = length s then 0 else m a)"

definition strndup :: "string \<Rightarrow> vfs \<Rightarrow> u64 \<times> vfs" where
  "strndup s w =
     (let (p, w1) = alloc_mem (of_nat (length s) + 1) w
      in (p, if p = 0 then w1 else w1\<lparr>w_mem := store_string p s (w_mem w1)\<rparr>))"

definition ramfs_symlink :: "u64 \<Rightarrow> string \<Rightarrow> string \<Rightarrow> vfs \<Rightarrow> (int \<times> vfs) res" where
  "ramfs_symlink dvp name link w =
     (if length name > NAME_MAX then Inr (ENAMETOOLONG, w)
      else bindr (ramfs_add_node (v_data (w_vnode w dvp)) name VLNK w) (\<lambda>(np, w1).
        if np = 0 then Inr (ENOMEM, w1)
        else let (p, w2) = strndup link w1; len = of_nat (length link)
             in Inr (0, set_node np (\<lambda>n. n\<lparr>rn_size := len, rn_buf := p, rn_bufsize := len\<rparr>) w2)))"

definition ramfs_rmdir :: "u64 \<Rightarrow> u64 \<Rightarrow> string \<Rightarrow> vfs \<Rightarrow> (int \<times> vfs) res" where
  "ramfs_rmdir dvp vp name w = ramfs_remove_node (v_data (w_vnode w dvp)) (v_data (w_vnode w vp)) w"

definition ramfs_remove :: "u64 \<Rightarrow> u64 \<Rightarrow> string \<Rightarrow> vfs \<Rightarrow> (int \<times> vfs) res" where
  "ramfs_remove dvp vp name w = ramfs_remove_node (v_data (w_vnode w dvp)) (v_data (w_vnode w vp)) w"

text \<open>\<open>vp2\<close> is 0 when the new name does not exist yet.\<close>

definition ramfs_rename ::
  "u64 \<Rightarrow> u64 \<Rightarrow> string \<Rightarrow> u64 \<Rightarrow> u64 \<Rightarrow> string \<Rightarrow> vfs \<Rightarrow> (int \<times> vfs) res" where
  "ramfs_rename dvp1 vp1 name1 dvp2 vp2 name2 w =
     bindr (if vp2 = 0 then Inr (0, w)
            else ramfs_remove_node (v_data (w_vnode w dvp2)) (v_data (w_vnode w vp2)) w) (\<lambda>(error, w1).
       if error \<noteq> 0 then Inr (error, w1)
       else if dvp1 = dvp2 then ramfs_rename_node (v_data (w_vnode w1 vp1)) name2 w1
       else let old_np = v_data (w_vnode w1 vp1)
       in bindr (ramfs_add_node (v_data (w_vnode w1 dvp2)) name2 (rn_type (w_node w1 old_np)) w1) (\<lambda>(np, w2).
            if np = 0 then Inr (ENOMEM, w2)
            else let old = w_node w2 old_np;
                     w3 = (if rn_buf old \<noteq> 0
                           then set_node old_np (\<lambda>n. n\<lparr>rn_buf := 0\<rparr>)
                                  (set_node np (\<lambda>n. n\<lparr>rn_size := rn_size old, rn_buf := rn_buf old, rn_bufsize := rn_bufsize old\<rparr>) w2)
                           else w2)
                 in bindr (ramfs_remove_node (v_data (w_vnode w3 dvp1)) (v_data (w_vnode w3 vp1)) w3)
                      (\<lambda>(_, w4). Inr (0, w4))))"

datatype d_type = DT_DIR | DT_REG | DT_LNK

record dirent =
  d_fileno :: int
  d_type :: d_type
  d_name :: string

partial_function (option) nth_node :: "vfs \<Rightarrow> u64 \<Rightarrow> int \<Rightarrow> u64 option" where
  "nth_node w np i =
     (if i = 0 then Some np
      else let np' = rn_next (w_node w np) in if np' = 0 then Some 0 else nth_node w np' (i - 1))"

text \<open>The results are the error and the entry; none is stored on an error.\<close>

definition ramfs_readdir :: "u64 \<Rightarrow> u64 \<Rightarrow> vfs \<Rightarrow> (int \<times> dirent option \<times> vfs) res" where
  "ramfs_readdir vp fp w =
     (let dnp = v_data (w_vnode w vp); w1 = set_node dnp touch_a w; off = f_offset (w_file w1 fp);
          done = (\<lambda>ty name. Inr (0, Some \<lparr>d_fileno = off, d_type = ty, d_name = strlcpy name 256\<rparr>,
                     set_file fp (\<lambda>f. f\<lparr>f_offset := off + 1\<rparr>) w1))
      in if off = 0 then done DT_DIR ''.''
         else if off = 1 then done DT_DIR ''..''
         else if rn_child (w_node w1 dnp) = 0 then Inr (ENOENT, None, w1)
         else case nth_node w1 (rn_child (w_node w1 dnp)) (off - 2) of
                None \<Rightarrow> Inl Hang
              | Some np \<Rightarrow>
                  if np = 0 then Inr (ENOENT, None, w1)
                  else done (case rn_type (w_node w1 np) of VDIR \<Rightarrow> DT_DIR | VLNK \<Rightarrow> DT_LNK | _ \<Rightarrow> DT_REG)
                         (rn_name (w_node w1 np)))"

section \<open>Files\<close>

definition uiomove_vfs :: "u64 \<Rightarrow> int \<Rightarrow> uio \<Rightarrow> vfs \<Rightarrow> (int \<times> uio \<times> vfs) res" where
  "uiomove_vfs cp n u w =
     bindr (vfscore_uiomove cp n u (w_mem w)) (\<lambda>(error, u', m). Inr (error, u', w\<lparr>w_mem := m\<rparr>))"

definition transfer_len :: "int \<Rightarrow> uio \<Rightarrow> int" where
  "transfer_len sz u = (if sz - uio_offset u < uio_resid u then sz - uio_offset u else uio_resid u)"

definition ramfs_readlink :: "u64 \<Rightarrow> uio \<Rightarrow> vfs \<Rightarrow> (int \<times> uio \<times> vfs) res" where
  "ramfs_readlink vp u w =
     (let v = w_vnode w vp
      in if v_type v \<noteq> VLNK then Inr (EINVAL, u, w)
         else if uio_offset u < 0 then Inr (EINVAL, u, w)
         else if uio_resid u = 0 then Inr (0, u, w)
         else if uio_offset u \<ge> v_size v then Inr (0, u, w)
         else uiomove_vfs (rn_buf (w_node w (v_data v)) + word_of_int (uio_offset u)) (transfer_len (v_size v) u) u
                (set_node (v_data v) touch_a w))"

definition ramfs_read :: "u64 \<Rightarrow> uio \<Rightarrow> vfs \<Rightarrow> (int \<times> uio \<times> vfs) res" where
  "ramfs_read vp u w =
     (let v = w_vnode w vp
      in if v_type v = VDIR then Inr (EISDIR, u, w)
         else if v_type v \<noteq> VREG then Inr (EINVAL, u, w)
         else if uio_offset u < 0 then Inr (EINVAL, u, w)
         else if uio_resid u = 0 then Inr (0, u, w)
         else if uio_offset u \<ge> v_size v then Inr (0, u, w)
         else uiomove_vfs (rn_buf (w_node w (v_data v)) + word_of_int (uio_offset u)) (transfer_len (v_size v) u) u
                (set_node (v_data v) touch_a w))"

text \<open>The new buffer of \<^verbatim>\<open>ramfs_truncate\<close> is not cleared and gets no window.\<close>

definition truncate_grow :: "u64 \<Rightarrow> int \<Rightarrow> vfs \<Rightarrow> (int \<times> vfs) res" where
  "truncate_grow vp len w =
     (let np = v_data (w_vnode w vp); n = w_node w np; new_size = align_up (word_of_int len) 4096;
          (new_buf, w1) = alloc_mem new_size w
      in if new_buf = 0 then Inr (EIO, w1)
         else bindr (if rn_size n \<noteq> 0
                     then let w2 = w1\<lparr>w_mem := memcpy new_buf (rn_buf n) (word_of_int (v_size (w_vnode w vp))) (w_mem w1)\<rparr>
                          in if rn_owns_buf n then free_mem (rn_buf n) w2 else Inr w2
                     else Inr w1) (\<lambda>w3.
              Inr (0, set_node np (\<lambda>n. n\<lparr>rn_buf := new_buf, rn_bufsize := new_size, rn_owns_buf := True\<rparr>) w3)))"

definition ramfs_truncate :: "u64 \<Rightarrow> int \<Rightarrow> vfs \<Rightarrow> (int \<times> vfs) res" where
  "ramfs_truncate vp len w =
     (let np = v_data (w_vnode w vp); n = w_node w np
      in bindr (if len = 0
                then if rn_buf n \<noteq> 0
                     then bindr (if rn_owns_buf n then free_mem (rn_buf n) w else Inr w) (\<lambda>w1.
                            Inr (0, set_node np (\<lambda>n. n\<lparr>rn_buf := 0, rn_bufsize := 0\<rparr>) w1))
                     else Inr (0, w)
                else if word_of_int len > rn_bufsize n then truncate_grow vp len w
                else Inr (0, w)) (\<lambda>(error, w2).
           if error \<noteq> 0 then Inr (error, w2)
           else Inr (0, set_node np (\<lambda>n. touch_mc (n\<lparr>rn_size := word_of_int len\<rparr>))
                          (set_vnode vp (\<lambda>v. v\<lparr>v_size := len\<rparr>) w2))))"

definition ramfs_set_file_data :: "u64 \<Rightarrow> u64 \<Rightarrow> u64 \<Rightarrow> vfs \<Rightarrow> (int \<times> vfs) res" where
  "ramfs_set_file_data vp data sz w =
     (let v = w_vnode w vp
      in if v_type v = VDIR then Inr (EISDIR, w)
         else if v_type v \<noteq> VREG then Inr (EINVAL, w)
         else if rn_buf (w_node w (v_data v)) \<noteq> 0 then Inr (EINVAL, w)
         else Inr (0, set_node (v_data v) (\<lambda>n. n\<lparr>rn_size := sz, rn_buf := data, rn_bufsize := sz, rn_owns_buf := False\<rparr>)
                        (set_vnode vp (\<lambda>v. v\<lparr>v_size := sint sz\<rparr>) w)))"

definition IO_APPEND :: int where "IO_APPEND = 1"

definition LONG_MAX :: int where "LONG_MAX = 9223372036854775807"

text \<open>A larger buffer for a file: cleared, with a window, holding the old content.\<close>

definition write_grow :: "u64 \<Rightarrow> int \<Rightarrow> vfs \<Rightarrow> (int \<times> vfs) res" where
  "write_grow vp end_pos w =
     (let np = v_data (w_vnode w vp); n = w_node w np; new_size = align_up (word_of_int end_pos) 4096;
          (new_buf, w1) = calloc_mem 1 new_size w
      in if new_buf = 0 then Inr (EIO, w1)
         else bindr (add_ramfs_window new_buf new_size w1) (\<lambda>w2.
              bindr (if rn_size n \<noteq> 0
                     then let w3 = w2\<lparr>w_mem := memcpy new_buf (rn_buf n) (word_of_int (v_size (w_vnode w vp))) (w_mem w2)\<rparr>
                          in if rn_owns_buf n then bindr (free_mem (rn_buf n) w3) (remove_ramfs_window (rn_buf n)) else Inr w3
                     else Inr w2) (\<lambda>w4.
              Inr (0, set_node np (\<lambda>n. n\<lparr>rn_buf := new_buf, rn_bufsize := new_size\<rparr>) w4))))"

text \<open>A sum of two \<^verbatim>\<open>off_t\<close> beyond \<^verbatim>\<open>LONG_MAX\<close> is undefined.\<close>

definition write_expand :: "u64 \<Rightarrow> uio \<Rightarrow> vfs \<Rightarrow> (int \<times> vfs) res" where
  "write_expand vp u w =
     (let np = v_data (w_vnode w vp)
      in if word_of_int (uio_offset u) + word_of_int (uio_resid u) > (word_of_int (v_size (w_vnode w vp)) :: u64)
         then let end_pos = uio_offset u + uio_resid u
              in if end_pos > LONG_MAX then Inl Undef
                 else bindr (if end_pos > sint (rn_bufsize (w_node w np)) then write_grow vp end_pos w else Inr (0, w))
                        (\<lambda>(error, w1).
                           if error \<noteq> 0 then Inr (error, w1)
                           else Inr (0, set_node np (\<lambda>n. n\<lparr>rn_size := word_of_int end_pos, rn_owns_buf := True\<rparr>)
                                          (set_vnode vp (\<lambda>v. v\<lparr>v_size := end_pos\<rparr>) w1)))
         else Inr (0, w))"

definition ramfs_write :: "u64 \<Rightarrow> uio \<Rightarrow> int \<Rightarrow> vfs \<Rightarrow> (int \<times> uio \<times> vfs) res" where
  "ramfs_write vp u ioflag w =
     (let v = w_vnode w vp; np = v_data v
      in if v_type v = VDIR then Inr (EISDIR, u, w)
         else if v_type v \<noteq> VREG then Inr (EINVAL, u, w)
         else if uio_offset u < 0 then Inr (EINVAL, u, w)
         else if uio_offset u \<ge> LONG_MAX then Inr (EFBIG, u, w)
         else if uio_resid u = 0 then Inr (0, u, w)
         else let u1 = (if ioflag AND IO_APPEND \<noteq> 0 then u\<lparr>uio_offset := sint (rn_size (w_node w np))\<rparr> else u)
              in bindr (write_expand vp u1 w) (\<lambda>(error, w1).
                   if error \<noteq> 0 then Inr (error, u1, w1)
                   else let w2 = set_node np touch_mc w1
                        in uiomove_vfs (rn_buf (w_node w2 np) + word_of_int (uio_offset u1)) (uio_resid u1) u1 w2))"

section \<open>Attributes and mounting\<close>

definition ramfs_getattr :: "u64 \<Rightarrow> vattr \<Rightarrow> vfs \<Rightarrow> (int \<times> vattr \<times> vfs) res" where
  "ramfs_getattr vp attr w =
     (let v = w_vnode w vp; n = w_node w (v_data v)
      in Inr (0, attr\<lparr>va_type := rn_type n, va_mode := rn_mode n, va_nodeid := v_ino v, va_atime := rn_atime n,
                va_mtime := rn_mtime n, va_ctime := rn_ctime n, va_size := v_size v\<rparr>, w))"

definition ramfs_setattr :: "u64 \<Rightarrow> vattr \<Rightarrow> vfs \<Rightarrow> (int \<times> vfs) res" where
  "ramfs_setattr vp attr w =
     Inr (0, set_node (v_data (w_vnode w vp)) (\<lambda>n.
       n\<lparr>rn_ctime := (if va_mask attr AND AT_CTIME \<noteq> 0 then va_ctime attr else rn_ctime n),
         rn_atime := (if va_mask attr AND AT_ATIME \<noteq> 0 then va_atime attr else rn_atime n),
         rn_mtime := (if va_mask attr AND AT_MTIME \<noteq> 0 then va_mtime attr else rn_mtime n),
         rn_mode := (if va_mask attr AND AT_MODE \<noteq> 0 then va_mode attr else rn_mode n)\<rparr>) w)"

definition ramfs_mount :: "u64 \<Rightarrow> vfs \<Rightarrow> (int \<times> vfs) res" where
  "ramfs_mount mp w =
     bindr (ramfs_allocate_node ''/'' VDIR w) (\<lambda>(np, w1).
       if np = 0 then Inr (ENOMEM, w1)
       else Inr (0, set_vnode (d_vnode (w_dentry w1 (m_root (w_mount w1 mp)))) (\<lambda>v. v\<lparr>v_data := np\<rparr>) w1))"

end
