(* ===== verification/Ramfs_Dirs.thy ===== *)
theory Ramfs_Dirs
  imports Ramfs
begin

text \<open>
  Directories of \<^verbatim>\<open>lib/ramfs\<close>: the linked lists of \<^verbatim>\<open>ramfs_vnops.c\<close> refine lists of entries, and
  every walk over them ends.
\<close>

section \<open>Directory lists\<close>

text \<open>
  \<open>chain w np ns\<close>: the list of nodes from \<open>np\<close> is \<open>ns\<close>. A directory is well formed when its
  list is finite, without repetition and does not contain the directory itself.
\<close>

primrec chain :: "vfs \<Rightarrow> u64 \<Rightarrow> u64 list \<Rightarrow> bool" where
  "chain w np [] \<longleftrightarrow> np = 0"
| "chain w np (n # ns) \<longleftrightarrow> np = n \<and> n \<noteq> 0 \<and> chain w (rn_next (w_node w n)) ns"

definition dir_ok :: "vfs \<Rightarrow> u64 \<Rightarrow> u64 list \<Rightarrow> bool" where
  "dir_ok w dnp ns \<longleftrightarrow> chain w (rn_child (w_node w dnp)) ns \<and> distinct ns \<and> dnp \<notin> set ns \<and>
     (\<forall>n \<in> set ns. rn_namelen (w_node w n) = length (rn_name (w_node w n)))"

definition names :: "vfs \<Rightarrow> u64 list \<Rightarrow> (string \<times> vtype) list" where
  "names w ns = map (\<lambda>n. (rn_name (w_node w n), rn_type (w_node w n))) ns"

lemma chain_nonzero: "chain w np ns \<Longrightarrow> 0 \<notin> set ns"
  by (induction ns arbitrary: np) auto

lemma chain_0 [simp]: "chain w 0 ns \<longleftrightarrow> ns = []"
  by (cases ns) auto

lemma chain_hd: "chain w np ns \<Longrightarrow> np = (if ns = [] then 0 else hd ns)"
  by (cases ns) auto

lemma chain_cong:
  "(\<And>n. n \<in> set ns \<Longrightarrow> rn_next (w_node w' n) = rn_next (w_node w n)) \<Longrightarrow> chain w' np ns = chain w np ns"
  by (induction ns arbitrary: np) auto

lemma last_node_chain: "chain w np ns \<Longrightarrow> ns \<noteq> [] \<Longrightarrow> last_node w np = Some (last ns)"
proof (induction ns arbitrary: np)
  case (Cons n ns)
  then show ?case by (subst last_node.simps) (auto dest: chain_hd)
qed simp

lemma find_child_chain:
  "chain w np ns \<Longrightarrow> (\<forall>n \<in> set ns. rn_namelen (w_node w n) = length (rn_name (w_node w n))) \<Longrightarrow>
     find_child w name np = Some (case find (\<lambda>n. rn_name (w_node w n) = name) ns of None \<Rightarrow> 0 | Some n \<Rightarrow> n)"
proof (induction ns arbitrary: np)
  case Nil
  then show ?case by (subst find_child.simps) simp
next
  case (Cons n ns)
  then show ?case by (subst find_child.simps) auto
qed

text \<open>The walk of \<^verbatim>\<open>ramfs_remove_node\<close>: the node before \<open>np\<close>.\<close>

lemma prev_node_chain:
  "chain w p ns \<Longrightarrow> ns \<noteq> [] \<Longrightarrow> np \<noteq> 0 \<Longrightarrow> np \<notin> set ns \<Longrightarrow> prev_node w np p = Some 0"
proof (induction ns arbitrary: p)
  case (Cons n ns)
  then show ?case by (subst prev_node.simps) (cases ns; auto)
qed simp

lemma prev_node_found:
  "chain w p (ms @ m # np # ns) \<Longrightarrow> distinct (ms @ m # np # ns) \<Longrightarrow> prev_node w np p = Some m"
proof (induction ms arbitrary: p)
  case Nil
  then show ?case by (subst prev_node.simps) auto
next
  case (Cons n ms)
  then have "rn_next (w_node w n) = hd (ms @ [m])" "rn_next (w_node w n) \<noteq> 0"
    by (cases ms; auto)+
  with Cons show ?case by (subst prev_node.simps) (cases ms; auto)
qed

lemma nth_node_chain:
  "chain w np ns \<Longrightarrow> ns \<noteq> [] \<Longrightarrow> 0 \<le> i \<Longrightarrow>
     nth_node w np i = Some (if nat i < length ns then ns ! nat i else 0)"
proof (induction ns arbitrary: np i)
  case (Cons n ns)
  have np: "np = n" and ch: "chain w (rn_next (w_node w n)) ns" using Cons.prems(1) by auto
  show ?case
  proof (cases "i = 0 \<or> ns = []")
    case True
    then show ?thesis using ch Cons.prems(3) by (subst nth_node.simps) (auto simp: np)
  next
    case False
    then have "nat i = Suc (nat (i - 1))" "ns \<noteq> []" "0 \<le> i - 1" using Cons.prems(3) by auto
    moreover have "rn_next (w_node w n) \<noteq> 0" using ch False by (cases ns) auto
    ultimately show ?thesis using Cons.IH [OF ch] False by (subst nth_node.simps) (simp add: np Let_def)
  qed
qed simp

lemma prev_node_returns: "chain w p ns \<Longrightarrow> ns \<noteq> [] \<Longrightarrow> \<exists>q. prev_node w np p = Some q"
proof (induction ns arbitrary: p)
  case (Cons n ns)
  then show ?case by (subst prev_node.simps) (cases ns, auto)
qed simp

lemma nth_node_returns: "chain w np ns \<Longrightarrow> ns \<noteq> [] \<Longrightarrow> \<exists>p. nth_node w np i = Some p"
proof (induction ns arbitrary: np i)
  case (Cons n ns)
  then show ?case by (subst nth_node.simps) (cases ns, auto simp: Let_def)
qed simp

section \<open>Adding and removing entries\<close>

lemma chain_snoc:
  assumes "chain w p ns" "distinct ns" "ns \<noteq> []" "np \<notin> set ns" "np \<noteq> 0" "rn_next (w_node w np) = 0"
  shows "chain (set_node (last ns) (\<lambda>n. n\<lparr>rn_next := np\<rparr>) w) p (ns @ [np])"
  using assms
proof (induction ns arbitrary: p)
  case (Cons n ns)
  show ?case
  proof (cases "ns = []")
    case False
    then have "last ns \<noteq> n" using Cons.prems(2) last_in_set by fastforce
    with Cons False show ?thesis by auto
  qed (use Cons in auto)
qed simp

lemma chain_unlink:
  assumes "chain w p (ms @ m # np # ns)" "distinct (ms @ m # np # ns)"
  shows "chain (set_node m (\<lambda>n. n\<lparr>rn_next := rn_next (w_node w np)\<rparr>) w) p (ms @ m # ns)"
  using assms
proof (induction ms arbitrary: p)
  case Nil
  then have "chain (set_node m (\<lambda>n. n\<lparr>rn_next := rn_next (w_node w np)\<rparr>) w) (rn_next (w_node w np)) ns =
      chain w (rn_next (w_node w np)) ns"
    by (intro chain_cong) auto
  with Nil show ?case by (auto simp del: fun_upd_apply) (simp_all add: fun_upd_def)
qed auto

text \<open>A node and a name buffer for a new entry.\<close>

definition fresh_node :: "vfs \<Rightarrow> u64 \<Rightarrow> u64 list \<Rightarrow> u64 \<Rightarrow> bool" where
  "fresh_node w dnp ns np \<longleftrightarrow> (\<exists>nb ps. w_answers w = np # nb # ps \<and> nb \<noteq> 0) \<and> np \<noteq> 0 \<and> np \<noteq> dnp \<and> np \<notin> set ns"

lemma allocate_node_ok:
  assumes "w_answers w = np # nb # ps" "np \<noteq> 0" "nb \<noteq> 0"
  obtains w' where "ramfs_allocate_node name ty w = Inr (np, w')" "w_node w' = (w_node w)(np := new_node name nb ty)"
    "w_vnode w' = w_vnode w"
  using assms by (auto simp: ramfs_allocate_node_def alloc_mem_def Let_def)

lemma touch_mc_fields [simp]: "rn_next (touch_mc n) = rn_next n" "rn_child (touch_mc n) = rn_child n"
  "rn_name (touch_mc n) = rn_name n" "rn_type (touch_mc n) = rn_type n" "rn_namelen (touch_mc n) = rn_namelen n"
  by (simp_all add: touch_mc_def)

lemma new_node_fields [simp]: "rn_next (new_node name nb ty) = 0" "rn_name (new_node name nb ty) = name"
  "rn_type (new_node name nb ty) = ty" "rn_namelen (new_node name nb ty) = length name"
  by (simp_all add: new_node_def)

lemma add_node_ok:
  assumes dir: "dir_ok w dnp ns" and new: "fresh_node w dnp ns np"
  obtains w' where "ramfs_add_node dnp name ty w = Inr (np, w')" "dir_ok w' dnp (ns @ [np])"
    "names w' (ns @ [np]) = names w ns @ [(name, ty)]" "w_vnode w' = w_vnode w"
    "\<forall>n. n \<notin> set (dnp # np # ns) \<longrightarrow> w_node w' n = w_node w n"
proof -
  obtain nb ps where "w_answers w = np # nb # ps" "nb \<noteq> 0" and np: "np \<noteq> 0" "np \<noteq> dnp" "np \<notin> set ns"
    using new by (auto simp: fresh_node_def)
  then obtain w1 where w1: "ramfs_allocate_node name ty w = Inr (np, w1)" "w_node w1 = (w_node w)(np := new_node name nb ty)"
    "w_vnode w1 = w_vnode w" using allocate_node_ok by metis
  have "chain w1 p ns = chain w p ns" for p using np(3) by (intro chain_cong) (auto simp: w1(2))
  then have ch: "chain w1 (rn_child (w_node w1 dnp)) ns" "distinct ns" "dnp \<notin> set ns"
    using dir np by (auto simp: dir_ok_def w1(2))
  have nl: "\<forall>n \<in> set ns. rn_namelen (w_node w1 n) = length (rn_name (w_node w1 n))"
    using dir np by (auto simp: dir_ok_def w1(2))
  define w2 where "w2 = (if ns = [] then set_node dnp (\<lambda>n. n\<lparr>rn_child := np\<rparr>) w1
      else set_node (last ns) (\<lambda>n. n\<lparr>rn_next := np\<rparr>) w1)"
  have "rn_child (w_node w1 dnp) = 0 \<longleftrightarrow> ns = []" using ch(1) by (cases ns) auto
  then have "ramfs_add_node dnp name ty w = Inr (np, set_node dnp touch_mc w2)"
    using last_node_chain [OF ch(1)] np(1) unfolding ramfs_add_node_def w1(1) by (simp add: w2_def)
  then show thesis
  proof (rule that)
    have c2: "chain w2 (rn_child (w_node w2 dnp)) (ns @ [np])"
    proof (cases "ns = []")
      case False
      have "last ns \<noteq> dnp" using False ch(3) last_in_set by metis
      with chain_snoc [OF ch(1,2) False np(3,1)] False show ?thesis by (simp add: w2_def w1(2))
    qed (use np in \<open>simp add: w2_def w1(2)\<close>)
    then have "chain (set_node dnp touch_mc w2) (rn_child (w_node w2 dnp)) (ns @ [np])"
      using chain_cong [of "ns @ [np]" "set_node dnp touch_mc w2" w2] by simp
    then show "dir_ok (set_node dnp touch_mc w2) dnp (ns @ [np])"
      using ch(2,3) np nl by (auto simp: dir_ok_def w2_def w1(2))
    show "names (set_node dnp touch_mc w2) (ns @ [np]) = names w ns @ [(name, ty)]"
      using np ch(3) by (auto simp: names_def w2_def w1(2))
    show "\<forall>n. n \<notin> set (dnp # np # ns) \<longrightarrow> w_node (set_node dnp touch_mc w2) n = w_node w n"
      by (auto simp: w2_def w1(2))
    show "w_vnode (set_node dnp touch_mc w2) = w_vnode w" by (simp add: w2_def w1(3))
  qed
qed

lemma remove_node_ok:
  assumes dir: "dir_ok w dnp ns" and np: "np \<in> set ns"
  obtains w' where "ramfs_remove_node dnp np w = Inr (0, w')" "dir_ok w' dnp (remove1 np ns)"
    "\<forall>n. rn_name (w_node w' n) = rn_name (w_node w n) \<and> rn_type (w_node w' n) = rn_type (w_node w n)" "w_vnode w' = w_vnode w"
    "\<forall>n. n \<notin> set (dnp # ns) \<longrightarrow> w_node w' n = w_node w n"
proof -
  have ch: "chain w (rn_child (w_node w dnp)) ns" "distinct ns" "dnp \<notin> set ns"
    and nl: "\<forall>n \<in> set ns. rn_namelen (w_node w n) = length (rn_name (w_node w n))" using dir by (auto simp: dir_ok_def)
  obtain ms ks where ns: "ns = ms @ np # ks" using np by (meson split_list)
  have np0: "np \<notin> set ms" "np \<notin> set ks" "np \<noteq> 0" "np \<noteq> dnp" using ch(2,3) chain_nonzero [OF ch(1)] by (auto simp: ns)
  have rm: "remove1 np ns = ms @ ks" using np0(1) by (simp add: ns remove1_append)
  show thesis
  proof (cases ms rule: rev_cases)
    case Nil
    let ?w = "set_node dnp touch_mc (set_node dnp (\<lambda>n. n\<lparr>rn_child := rn_next (w_node w np)\<rparr>) w)"
    have "ramfs_remove_node dnp np w = Inr (0, ?w)" using ch(1) np0(3) by (simp add: ramfs_remove_node_def ns Nil)
    then show ?thesis
    proof (rule that)
      show "dir_ok ?w dnp (remove1 np ns)"
        using ch nl np0(4) chain_cong [of ks ?w w] unfolding rm by (auto simp: dir_ok_def ns Nil)
    qed auto
  next
    case (snoc ms' m)
    let ?w = "set_node dnp touch_mc (set_node m (\<lambda>n. n\<lparr>rn_next := rn_next (w_node w np)\<rparr>) w)"
    have c: "chain w (rn_child (w_node w dnp)) (ms' @ m # np # ks)" "distinct (ms' @ m # np # ks)" using ch(1,2) by (auto simp: ns snoc)
    have m: "m \<noteq> 0" "m \<noteq> dnp" using ch(3) chain_nonzero [OF ch(1)] by (auto simp: ns snoc)
    have "rn_child (w_node w dnp) \<noteq> 0" "rn_child (w_node w dnp) \<noteq> np" using c by (cases ms'; auto)+
    then have "ramfs_remove_node dnp np w = Inr (0, ?w)"
      using prev_node_found [OF c] m(1) by (simp add: ramfs_remove_node_def)
    then show ?thesis
    proof (rule that)
      have "chain ?w (rn_child (w_node w dnp)) (ms' @ m # ks)"
        using chain_unlink [OF c] chain_cong [of "ms' @ m # ks" ?w "set_node m (\<lambda>n. n\<lparr>rn_next := rn_next (w_node w np)\<rparr>) w"]
        by simp
      then show "dir_ok ?w dnp (remove1 np ns)"
        using ch nl m(2) unfolding rm by (auto simp: dir_ok_def ns snoc)
    qed (auto simp: ns snoc)
  qed
qed

section \<open>Abstract directories\<close>

text \<open>
  The abstract directory is the list of its entries, in the order of their creation: the node,
  its name and its type.
\<close>

type_synonym dir = "(u64 \<times> string \<times> vtype) list"

definition dir_rel :: "vfs \<Rightarrow> u64 \<Rightarrow> dir \<Rightarrow> bool" where
  "dir_rel w dnp d \<longleftrightarrow> dir_ok w dnp (map fst d) \<and> names w (map fst d) = map snd d"

definition dir_find :: "string \<Rightarrow> dir \<Rightarrow> u64 option" where
  "dir_find name d = map_option fst (find (\<lambda>e. fst (snd e) = name) d)"

lemma names_entry: "names w (map fst d) = map snd d \<Longrightarrow> e \<in> set d \<Longrightarrow>
    rn_name (w_node w (fst e)) = fst (snd e) \<and> rn_type (w_node w (fst e)) = snd (snd e)"
  by (induction d) (auto simp: names_def)

lemma find_names:
  "names w (map fst d) = map snd d \<Longrightarrow>
     find (\<lambda>n. rn_name (w_node w n) = name) (map fst d) = dir_find name d"
  by (induction d) (auto simp: names_def dir_find_def)

lemma dir_rel_size [simp]: "dir_rel (set_node np (\<lambda>n. n\<lparr>rn_size := k\<rparr>) w) dnp d = dir_rel w dnp d"
proof -
  let ?w = "set_node np (\<lambda>n. n\<lparr>rn_size := k\<rparr>) w"
  have "chain ?w p (map fst d) = chain w p (map fst d)" for p by (rule chain_cong) simp
  moreover have "rn_child (w_node ?w n) = rn_child (w_node w n)" "rn_name (w_node ?w n) = rn_name (w_node w n)"
    "rn_type (w_node ?w n) = rn_type (w_node w n)" "rn_namelen (w_node ?w n) = rn_namelen (w_node w n)" for n by simp_all
  ultimately show ?thesis by (simp only: dir_rel_def dir_ok_def names_def)
qed

lemma add_node_refines:
  assumes "dir_rel w dnp d" "fresh_node w dnp (map fst d) np"
  obtains w' where "ramfs_add_node dnp name ty w = Inr (np, w')" "dir_rel w' dnp (d @ [(np, name, ty)])" "w_vnode w' = w_vnode w"
    "np \<notin> {0, dnp}"
proof -
  have d: "dir_ok w dnp (map fst d)" "names w (map fst d) = map snd d" using assms(1) by (auto simp: dir_rel_def)
  obtain w' where "ramfs_add_node dnp name ty w = Inr (np, w')" "dir_ok w' dnp (map fst d @ [np])"
    "names w' (map fst d @ [np]) = names w (map fst d) @ [(name, ty)]" "w_vnode w' = w_vnode w"
    by (rule add_node_ok [OF d(1) assms(2)])
  then show thesis using d(2) assms(2) by (intro that [of w']) (auto simp: dir_rel_def fresh_node_def)
qed

lemma remove1_fst: "distinct (map fst d) \<Longrightarrow> remove1 np (map fst d) = map fst (filter (\<lambda>e. fst e \<noteq> np) d)"
  by (simp add: distinct_remove1_removeAll removeAll_filter_not_eq filter_map o_def) (metis)

lemma remove_node_refines:
  assumes "dir_rel w dnp d" "np \<in> fst ` set d"
  obtains w' where "ramfs_remove_node dnp np w = Inr (0, w')" "dir_rel w' dnp (filter (\<lambda>e. fst e \<noteq> np) d)" "w_vnode w' = w_vnode w"
proof -
  have d: "dir_ok w dnp (map fst d)" "names w (map fst d) = map snd d" "np \<in> set (map fst d)" using assms by (auto simp: dir_rel_def)
  obtain w' where w': "ramfs_remove_node dnp np w = Inr (0, w')" "dir_ok w' dnp (remove1 np (map fst d))"
    "\<forall>n. rn_name (w_node w' n) = rn_name (w_node w n) \<and> rn_type (w_node w' n) = rn_type (w_node w n)" "w_vnode w' = w_vnode w"
    by (rule remove_node_ok [OF d(1,3)])
  have "distinct (map fst d)" using d(1) by (simp add: dir_ok_def)
  note rm = remove1_fst [OF this]
  have "names w' (map fst (filter (\<lambda>e. fst e \<noteq> np) d)) = map snd (filter (\<lambda>e. fst e \<noteq> np) d)"
    using names_entry [OF d(2)] w'(3) by (auto simp: names_def)
  with w' show thesis by (intro that [of w']) (auto simp: dir_rel_def rm)
qed

lemma remove_node_missing:
  assumes "dir_rel w dnp d" "np \<notin> fst ` set d" "np \<noteq> 0"
  shows "ramfs_remove_node dnp np w = Inr (if d = [] then EBUSY else ENOENT, w)"
proof -
  have d: "chain w (rn_child (w_node w dnp)) (map fst d)" "np \<notin> set (map fst d)" using assms by (auto simp: dir_rel_def dir_ok_def)
  show ?thesis
  proof (cases "d = []")
    case False
    then have "rn_child (w_node w dnp) \<noteq> 0" "rn_child (w_node w dnp) \<noteq> np" using d by (cases d; auto)+
    with prev_node_chain [OF d(1) _ assms(3) d(2)] False show ?thesis by (simp add: ramfs_remove_node_def)
  qed (use d in \<open>simp add: ramfs_remove_node_def\<close>)
qed

section \<open>Lookup\<close>

text \<open>A vnode for the result of a lookup: no vnode has the next inode number, and there is memory and a window for one.\<close>

definition fresh_vnode :: "vfs \<Rightarrow> u64 \<Rightarrow> u64 \<Rightarrow> bool" where
  "fresh_vnode w mp vp \<longleftrightarrow> (\<exists>ps. w_answers w = vp # ps) \<and> vp \<noteq> 0 \<and>
     (\<forall>x \<in> set (vnode_table w (vn_hash mp (inode_count w))). v_mount (w_vnode w x) = mp \<longrightarrow> v_ino (w_vnode w x) \<noteq> inode_count w) \<and>
     length (rt_tab (vfs_heap_tab w)) = VFS_HEAP_MAX \<and> (\<exists>e \<in> set (rt_tab (vfs_heap_tab w)). ipc_size e = 0)"

lemma vget_fresh:
  assumes "fresh_vnode w mp vp" "inode_count w = ino"
  obtains w' where "vfscore_vget ramfs_vget mp ino (w\<lparr>inode_count := n\<rparr>) = Inr (0, vp, w')" "w_node w' = w_node w"
    "v_refcnt (w_vnode w' vp) = 1" "\<forall>x. x \<noteq> vp \<longrightarrow> w_vnode w' x = w_vnode w x" "vp \<in> set (vnode_table w' (vn_hash mp ino))"
proof -
  let ?w = "w\<lparr>inode_count := n\<rparr>"
  obtain ps e where f: "w_answers w = vp # ps" "vp \<noteq> 0" "length (rt_tab (vfs_heap_tab w)) = VFS_HEAP_MAX"
    "e \<in> set (rt_tab (vfs_heap_tab w))" "ipc_size e = 0" using assms(1) by (auto simp: fresh_vnode_def)
  have "find (\<lambda>vp. v_mount (w_vnode w vp) = mp \<and> v_ino (w_vnode w vp) = ino) (vnode_table w (vn_hash mp ino)) = None"
    using assms by (auto simp: fresh_vnode_def find_None_iff)
  then have l: "vn_lookup mp ino ?w = (0, ?w)" by (simp add: vn_lookup_def)
  obtain t where t: "vfs_ipc_add_heap (vfs_heap_tab w) vp sizeof_vnode (bits [21, 2, 17]) = Inr t"
    using vfscore.add_free f(3-5) by blast
  have "vfscore_vget ramfs_vget mp ino ?w = Inr (0, vp, vfs_busy mp (set_vnode vp (\<lambda>v. v\<lparr>v_ino := ino, v_mount := mp, v_refcnt := 1, v_names := []\<rparr>)
      (?w\<lparr>w_answers := ps, w_live := (w_live w)(vp \<mapsto> sizeof_vnode), vfs_heap_tab := t\<rparr>))
        \<lparr>vnode_table := (vnode_table w)(vn_hash mp ino := vp # vnode_table w (vn_hash mp ino))\<rparr>)"
    by (simp add: vfscore_vget_def l alloc_mem_def f(1,2) add_vfs_window_def t ramfs_vget_def vfs_busy_def Let_def)
  then show thesis by (rule that) (simp_all add: vfs_busy_def)
qed

lemma lookup_refines:
  assumes "dir_rel w (v_data (w_vnode w dvp)) d" "name \<noteq> []"
  shows "dir_find name d = None \<Longrightarrow> \<exists>w'. ramfs_lookup pad dvp name w = Inr (ENOENT, 0, w') \<and> w_node w' = w_node w \<and> w_vnode w' = w_vnode w"
    and "dir_find name d = Some np \<Longrightarrow> fresh_vnode w (v_mount (w_vnode w dvp)) vp \<Longrightarrow>
      \<exists>w'. ramfs_lookup pad dvp name w = Inr (0, vp, w') \<and> w_node w' = w_node w \<and> (\<forall>x. x \<noteq> vp \<longrightarrow> w_vnode w' x = w_vnode w x) \<and>
        v_data (w_vnode w' vp) = np \<and> v_type (w_vnode w' vp) = rn_type (w_node w np) \<and>
        v_size (w_vnode w' vp) = sint (rn_size (w_node w np)) \<and> v_refcnt (w_vnode w' vp) = 1"
proof -
  define w0 where "w0 = w\<lparr>ramfs_stack_tab := (ramfs_stack_tab w)[0 := (ramfs_stack_tab w ! 0)\<lparr>ipc_begin := pad\<rparr>]\<rparr>"
  have same: "w_node w0 = w_node w" "w_vnode w0 = w_vnode w" "inode_count w0 = inode_count w" by (simp_all add: w0_def)
  have d: "chain w0 (rn_child (w_node w (v_data (w_vnode w dvp)))) (map fst d)" "names w (map fst d) = map snd d"
    "\<forall>n \<in> set (map fst d). rn_namelen (w_node w n) = length (rn_name (w_node w n))"
    using assms(1) chain_cong [of "map fst d" w0 w] by (auto simp: dir_rel_def dir_ok_def same)
  have fc: "find_child w0 name (rn_child (w_node w (v_data (w_vnode w dvp)))) =
      Some (case dir_find name d of None \<Rightarrow> 0 | Some n \<Rightarrow> n)"
    using find_child_chain [OF d(1), unfolded same, OF d(3)] find_names [OF d(2)] by simp
  have lk: "ramfs_lookup pad dvp name w =
     (let np = (case dir_find name d of None \<Rightarrow> 0 | Some n \<Rightarrow> n)
      in if np = 0 then Inr (ENOENT, 0, w0)
         else bindr (vfscore_vget ramfs_vget (v_mount (w_vnode w dvp)) (inode_count w0) (w0\<lparr>inode_count := inode_count w0 + 1\<rparr>))
           (\<lambda>(found, vp, w1). if found \<noteq> 0 then Inr (0, vp, w1) else if vp = 0 then Inr (ENOMEM, 0, w1)
              else Inr (0, vp, set_vnode vp (\<lambda>v. v\<lparr>v_type := rn_type (w_node w1 np), v_mode := UK_ALLPERMS,
                                v_size := sint (rn_size (w_node w1 np)), v_data := np\<rparr>) w1)))"
    using assms(2) unfolding ramfs_lookup_def Let_def w0_def [symmetric] same fc by simp
  show "\<exists>w'. ramfs_lookup pad dvp name w = Inr (ENOENT, 0, w') \<and> w_node w' = w_node w \<and> w_vnode w' = w_vnode w"
    if "dir_find name d = None" using that by (simp add: lk same)
  assume np: "dir_find name d = Some np" and "fresh_vnode w (v_mount (w_vnode w dvp)) vp"
  then have fv: "fresh_vnode w0 (v_mount (w_vnode w dvp)) vp" and vp0: "vp \<noteq> 0"
    by (simp_all add: fresh_vnode_def w0_def)
  obtain w1 where w1: "vfscore_vget ramfs_vget (v_mount (w_vnode w dvp)) (inode_count w0) (w0\<lparr>inode_count := inode_count w0 + 1\<rparr>) = Inr (0, vp, w1)"
    "w_node w1 = w_node w0" "v_refcnt (w_vnode w1 vp) = 1" "\<forall>x. x \<noteq> vp \<longrightarrow> w_vnode w1 x = w_vnode w0 x"
    by (rule vget_fresh [OF fv refl])
  have "np \<in> set (map fst d)" using np by (auto simp: dir_find_def find_Some_iff) (metis fst_conv image_eqI nth_mem)
  then have "np \<noteq> 0" using chain_nonzero [OF d(1)] by metis
  then show "\<exists>w'. ramfs_lookup pad dvp name w = Inr (0, vp, w') \<and> w_node w' = w_node w \<and> (\<forall>x. x \<noteq> vp \<longrightarrow> w_vnode w' x = w_vnode w x) \<and>
        v_data (w_vnode w' vp) = np \<and> v_type (w_vnode w' vp) = rn_type (w_node w np) \<and>
        v_size (w_vnode w' vp) = sint (rn_size (w_node w np)) \<and> v_refcnt (w_vnode w' vp) = 1"
    using vp0 w1(2-4) by (simp add: lk np w1(1) [unfolded same] same)
qed

section \<open>Properties\<close>

text \<open>
  C28 (the walks end): on a well-formed directory list every loop of the file system over the
  list returns, whatever name, node or position it looks for.
\<close>

theorem directory_walks_return:
  assumes "dir_ok w dnp ns"
  shows "(\<exists>p. find_child w name (rn_child (w_node w dnp)) = Some p) \<and>
    (ns \<noteq> [] \<longrightarrow> (\<exists>p. last_node w (rn_child (w_node w dnp)) = Some p) \<and>
       (\<exists>p. prev_node w np (rn_child (w_node w dnp)) = Some p) \<and> (\<exists>p. nth_node w (rn_child (w_node w dnp)) i = Some p))"
proof -
  have d: "chain w (rn_child (w_node w dnp)) ns" "\<forall>n \<in> set ns. rn_namelen (w_node w n) = length (rn_name (w_node w n))"
    using assms by (auto simp: dir_ok_def)
  have "\<exists>p. prev_node w np (rn_child (w_node w dnp)) = Some p" if "ns \<noteq> []" using prev_node_returns [OF d(1) that] .
  with find_child_chain [OF d] last_node_chain [OF d(1)] nth_node_returns [OF d(1)] show ?thesis by blast
qed


section \<open>A concrete file system\<close>

text \<open>A root directory (vnode \<^verbatim>\<open>0x1000\<close>, node \<^verbatim>\<open>0x2000\<close>) with one empty file \<^verbatim>\<open>a\<close> (vnode \<^verbatim>\<open>0x1100\<close>, node \<^verbatim>\<open>0x2100\<close>).\<close>

definition ex_vnode :: "vtype \<Rightarrow> u64 \<Rightarrow> vnode" where
  "ex_vnode ty np = \<lparr>v_ino = 1, v_mount = 0x3000, v_refcnt = 1, v_type = ty, v_flags = 0, v_mode = UK_ALLPERMS, v_size = 0,
     v_names = [], v_data = np\<rparr>"

definition ex_vfs :: vfs where
  "ex_vfs = \<lparr>w_mem = (\<lambda>_. 0), w_answers = [0x200000, 0x300000], w_live = Map.empty,
     w_mount = (\<lambda>_. \<lparr>m_op = 0, m_flags = 0, m_count = 1, m_path = ''/'', m_special = [], m_dev = 0, m_root = 0, m_covered = 0\<rparr>),
     w_vnode = (\<lambda>_. ex_vnode VREG 0x2100)(0x1000 := ex_vnode VDIR 0x2000),
     w_dentry = (\<lambda>_. \<lparr>d_refcnt = 0, d_path = [], d_pathbuf = 0, d_vnode = 0, d_mount = 0, d_parent = 0, d_child_list = []\<rparr>),
     w_node = (\<lambda>_. new_node ''a'' 0x2180 VREG)(0x2000 := (new_node ''/'' 0x2080 VDIR)\<lparr>rn_child := 0x2100\<rparr>),
     w_file = (\<lambda>_. \<lparr>f_fd = 0, f_flags = 0, f_count = 0, f_offset = 0, f_data = 0, f_vfs_flags = 0, f_dentry = 0\<rparr>),
     mount_list = [0x3000], vnode_table = (\<lambda>_. []), dentry_hash_table = (\<lambda>_. []), dentry_fake = [],
     vfs_heap_tab = VFSCORE_ipc_tab_heap, vfs_stack_tab = [], ramfs_heap_tab = RAMFS_ipc_tab_heap,
     ramfs_stack_tab = RAMFS_ipc_tab_stack, inode_count = 1, fd_bitmap = replicate 16 0, fd_files = replicate 1024 0\<rparr>"

lemma ex_dir: "dir_rel ex_vfs (v_data (w_vnode ex_vfs 0x1000)) [(0x2100, ''a'', VREG)]"
  by (simp add: dir_rel_def dir_ok_def names_def ex_vfs_def ex_vnode_def new_node_def)

lemma ex_new_node: "fresh_node ex_vfs (v_data (w_vnode ex_vfs 0x1000)) (map fst [(0x2100, ''a'', VREG)]) 0x200000"
  by (simp add: fresh_node_def ex_vfs_def ex_vnode_def)

theorem directory_walks_return_witness:
  "(\<exists>p. find_child ex_vfs ''b'' 0x2100 = Some p) \<and> (\<exists>p. nth_node ex_vfs 0x2100 (-1) = Some p)"
proof -
  have "dir_ok ex_vfs 0x2000 [0x2100]" "rn_child (w_node ex_vfs 0x2000) = 0x2100"
    using ex_dir by (simp_all add: dir_rel_def ex_vfs_def ex_vnode_def)
  with directory_walks_return [of ex_vfs "0x2000" "[0x2100]" "''b''" 0 "-1"] show ?thesis by simp
qed


end
