(* ===== verification/Ramfs_Files.thy ===== *)
theory Ramfs_Files
  imports Ramfs_Dirs
begin

text \<open>
  Files of \<^verbatim>\<open>lib/ramfs\<close>: what writing, reading and truncating do to the bytes of a file, to its
  buffer and to the window on that buffer.
\<close>

section \<open>Files as sequences of bytes\<close>

abbreviation fnode :: "vfs \<Rightarrow> u64 \<Rightarrow> ramfs_node" where
  "fnode w vp \<equiv> w_node w (v_data (w_vnode w vp))"

abbreviation fsize :: "vfs \<Rightarrow> u64 \<Rightarrow> nat" where
  "fsize w vp \<equiv> nat (v_size (w_vnode w vp))"

definition fbyte :: "vfs \<Rightarrow> u64 \<Rightarrow> nat \<Rightarrow> u8" where
  "fbyte w vp i = w_mem w (rn_buf (fnode w vp) + of_nat i)"

definition fbytes :: "vfs \<Rightarrow> u64 \<Rightarrow> u64 list" where
  "fbytes w vp = span (rn_buf (fnode w vp)) (unat (rn_bufsize (fnode w vp)))"

text \<open>A regular file whose vnode and node agree and whose data lie in its buffer.\<close>

definition file_ok :: "vfs \<Rightarrow> u64 \<Rightarrow> bool" where
  "file_ok w vp \<longleftrightarrow> v_type (w_vnode w vp) = VREG \<and> 0 \<le> v_size (w_vnode w vp) \<and>
     fsize w vp \<le> unat (rn_bufsize (fnode w vp)) \<and> unat (rn_bufsize (fnode w vp)) \<le> 2 ^ 62 \<and>
     rn_size (fnode w vp) = word_of_int (v_size (w_vnode w vp)) \<and> length (ramfs_heap_tab w) = HEAP_MAX"

text \<open>The buffer of a file that owns it is a block of the allocator with an open window.\<close>

definition windowed :: "vfs \<Rightarrow> u64 \<Rightarrow> bool" where
  "windowed w p \<longleftrightarrow> (\<exists>e \<in> set (ramfs_heap_tab w). ipc_begin e = p \<and> ipc_size e \<noteq> 0)"

definition buf_ok :: "vfs \<Rightarrow> u64 \<Rightarrow> bool" where
  "buf_ok w vp \<longleftrightarrow> rn_owns_buf (fnode w vp) \<and> (0 < unat (rn_bufsize (fnode w vp)) \<longrightarrow>
     rn_buf (fnode w vp) \<noteq> 0 \<and> w_live w (rn_buf (fnode w vp)) \<noteq> None \<and> windowed w (rn_buf (fnode w vp)))"

text \<open>The allocator has a block of \<open>n\<close> bytes for the file, and the window table has a free slot.\<close>

definition can_grow :: "vfs \<Rightarrow> u64 \<Rightarrow> u64 \<Rightarrow> nat \<Rightarrow> bool" where
  "can_grow w vp p n \<longleftrightarrow> (\<exists>ps. w_answers w = p # ps) \<and> p \<noteq> 0 \<and>
     set (span p n) \<inter> set (fbytes w vp) = {} \<and> (\<exists>e \<in> set (ramfs_heap_tab w). ipc_size e = 0)"

lemma unat_pgup:
  assumes "0 \<le> e" "e \<le> 2 ^ 61"
  shows "unat (align_up (word_of_int e) 4096 :: u64) = (nat e + 4095) div 4096 * 4096"
proof -
  have u: "unat (word_of_int e :: u64) = nat e"
    using assms by (simp add: unat_eq_nat_uint uint_word_of_int)
  show ?thesis using unat_align_up [of 12 "word_of_int e"] assms unfolding u by simp
qed

lemma moved_set: "moved d s m m' \<Longrightarrow> i < length d \<Longrightarrow> length s = length d \<Longrightarrow> m' (d ! i) = m (s ! i)"
  unfolding moved_def by (metis nth_map)

lemma span_mono: "k \<le> n \<Longrightarrow> set (span a k) \<subseteq> set (span a n)"
  unfolding subset_iff in_span by (metis order.strict_trans2)

lemma memcpy_0 [simp]: "memcpy d s 0 m = m"
  by (rule ext) (simp add: memcpy_def)

lemma of_nat_in:
  assumes "i < n" "n \<le> 2 ^ 63"
  shows "unat (of_nat i :: u64) = i" "unat (of_nat n :: u64) = n"
proof -
  have "i < 2 ^ 64" "n < 2 ^ 64" using assms by simp_all
  then show "unat (of_nat i :: u64) = i" "unat (of_nat n :: u64) = n" by (simp_all add: unat_of_nat)
qed

lemma memset_at:
  assumes "N \<le> 2 ^ 63"
  shows "i < N \<Longrightarrow> memset p v (of_nat N) m (p + of_nat i) = v" and "x \<notin> set (span p N) \<Longrightarrow> memset p v (of_nat N) m x = m x"
proof -
  show "memset p v (of_nat N) m (p + of_nat i) = v" if "i < N"
    using of_nat_in [OF that assms] that by (simp add: memset_def word_less_nat_alt)
  show "memset p v (of_nat N) m x = m x" if "x \<notin> set (span p N)"
  proof -
    have "N \<le> 2 ^ 64" using assms by simp
    then have "\<not> unat (x - p) < N" using that by (simp add: in_span_iff)
    moreover have "unat (of_nat N :: u64) = N" using assms by (simp add: unat_of_nat)
    ultimately show ?thesis by (simp add: memset_def word_less_nat_alt)
  qed
qed

lemma fill_and_copy:
  fixes m :: mem
  assumes k: "k \<le> N" "N \<le> 2 ^ 63" and sep: "set (span p N) \<inter> set (span b k) = {}"
  defines "m' \<equiv> memcpy p b (of_nat k) (memset p 0 (of_nat N) m)"
  shows "i < N \<Longrightarrow> m' (p + of_nat i) = (if i < k then m (b + of_nat i) else 0)"
    and "x \<notin> set (span p N) \<Longrightarrow> m' x = m x"
proof -
  have uk: "unat (of_nat k :: u64) = k" using k by (simp add: unat_of_nat)
  note mv = moved_memcpy [of p "of_nat k" b "memset p 0 (of_nat N) m", unfolded uk, folded m'_def]
  have sub: "set (span p k) \<subseteq> set (span p N)" using k(1) by (rule span_mono)
  show "m' (p + of_nat i) = (if i < k then m (b + of_nat i) else 0)" if i: "i < N"
  proof (cases "i < k")
    case True
    have "b + of_nat i \<in> set (span b k)" using True by (auto simp: in_span)
    then have "b + of_nat i \<notin> set (span p N)" using sep by auto
    with moved_set [OF mv, of i] True memset_at(2) [OF k(2)] show ?thesis by simp
  next
    case False
    have "p + of_nat i \<notin> set (span p k)"
      using False of_nat_in(1) [OF i k(2)] in_span_iff [of k "p + of_nat i" p] k by simp
    with mv False memset_at(1) [OF k(2) i] show ?thesis by (simp add: moved_def)
  qed
  show "m' x = m x" if "x \<notin> set (span p N)"
    using that mv sub memset_at(2) [OF k(2) that] unfolding moved_def by auto
qed

lemma ramfs_windows:
  assumes len: "length (ramfs_heap_tab w) = HEAP_MAX"
  shows "e \<in> set (ramfs_heap_tab w) \<Longrightarrow> ipc_size e = 0 \<Longrightarrow> n \<noteq> 0 \<Longrightarrow>
      \<exists>t. add_ramfs_window p n w = Inr (w\<lparr>ramfs_heap_tab := t\<rparr>) \<and> length t = HEAP_MAX \<and>
        (\<exists>e \<in> set t. ipc_begin e = p \<and> ipc_size e = n) \<and>
        (\<forall>e \<in> set (ramfs_heap_tab w). ipc_size e \<noteq> 0 \<longrightarrow> ipc_begin e \<noteq> p \<longrightarrow> e \<in> set t)"
    and "windowed w p \<Longrightarrow> \<exists>t. remove_ramfs_window p w = Inr (w\<lparr>ramfs_heap_tab := t\<rparr>) \<and> length t = HEAP_MAX \<and>
        (\<forall>e \<in> set (ramfs_heap_tab w). ipc_begin e \<noteq> p \<longrightarrow> e \<in> set t)"
proof -
  assume "e \<in> set (ramfs_heap_tab w)" "ipc_size e = 0" "n \<noteq> 0"
  then obtain t where t: "ramfs_ipc_add_heap (ramfs_heap_tab w) p n (bits [21, 2]) = Inr t"
    using ramfs.add_free [OF len] by blast
  have "\<exists>e \<in> set t. ipc_begin e = p \<and> ipc_size e = n"
    by (rule bexI [OF _ ramfs.add_opens [OF t]]) (simp add: entry_def)
  with t ramfs.add_keeps [OF t] ramfs.keeps_length(1) [OF t] len
  show "\<exists>t. add_ramfs_window p n w = Inr (w\<lparr>ramfs_heap_tab := t\<rparr>) \<and> length t = HEAP_MAX \<and>
        (\<exists>e \<in> set t. ipc_begin e = p \<and> ipc_size e = n) \<and>
        (\<forall>e \<in> set (ramfs_heap_tab w). ipc_size e \<noteq> 0 \<longrightarrow> ipc_begin e \<noteq> p \<longrightarrow> e \<in> set t)"
    by (auto simp: add_ramfs_window_def)
next
  assume "windowed w p"
  then obtain t where t: "ramfs_ipc_remove_heap (ramfs_heap_tab w) p = Inr t"
    using ramfs.remove_found [OF len] by (auto simp: windowed_def)
  with ramfs.remove_keeps [OF t] ramfs.keeps_length(2) [OF t] len
  show "\<exists>t. remove_ramfs_window p w = Inr (w\<lparr>ramfs_heap_tab := t\<rparr>) \<and> length t = HEAP_MAX \<and>
        (\<forall>e \<in> set (ramfs_heap_tab w). ipc_begin e \<noteq> p \<longrightarrow> e \<in> set t)"
    by (auto simp: remove_ramfs_window_def)
qed

lemma fsize_word: "file_ok w vp \<Longrightarrow> (word_of_int (v_size (w_vnode w vp)) :: u64) = of_nat (fsize w vp)"
  by (simp add: file_ok_def)

lemma rn_size_zero: "file_ok w vp \<Longrightarrow> rn_size (fnode w vp) = 0 \<longleftrightarrow> fsize w vp = 0"
proof -
  assume ok: "file_ok w vp"
  then have "fsize w vp < 2 ^ 63" by (simp add: file_ok_def)
  then have "unat (of_nat (fsize w vp) :: u64) = fsize w vp" by (simp add: unat_of_nat)
  moreover have "rn_size (fnode w vp) = of_nat (fsize w vp)" using ok fsize_word [OF ok] by (simp add: file_ok_def)
  ultimately show ?thesis by (metis unat_eq_zero_iff)
qed

text \<open>Growing the buffer of a file keeps its bytes, clears the rest and moves the window.\<close>

lemma write_grow_ok:
  assumes ok: "file_ok w vp" "buf_ok w vp" and e: "fsize w vp \<le> nat e" "0 < e" "e \<le> 2 ^ 61"
    and N: "N = unat (align_up (word_of_int e) 4096 :: u64)" and grow: "can_grow w vp p N"
  obtains w' where "write_grow vp e w = Inr (0, w')" "w_vnode w' = w_vnode w"
    "w_node w' = (w_node w)(v_data (w_vnode w vp) := (fnode w vp)\<lparr>rn_buf := p, rn_bufsize := of_nat N\<rparr>)"
    "\<forall>i < N. w_mem w' (p + of_nat i) = (if i < fsize w vp then fbyte w vp i else 0)"
    "\<forall>x. x \<notin> set (span p N) \<longrightarrow> w_mem w' x = w_mem w x"
    "w_live w' p \<noteq> None" "windowed w' p" "length (ramfs_heap_tab w') = HEAP_MAX"
proof -
  let ?n = "fnode w vp" and ?np = "v_data (w_vnode w vp)" and ?k = "fsize w vp"
  have Nv: "nat e \<le> N" "N \<le> 2 ^ 62" using unat_pgup [of e] e(2,3) by (simp_all add: N)
  have aN: "align_up (word_of_int e) 4096 = (of_nat N :: u64)" by (simp add: N)
  have N0: "(of_nat N :: u64) \<noteq> 0" using Nv e(2) unfolding aN [symmetric] N by auto
  from grow obtain ps e0 where g: "w_answers w = p # ps" "p \<noteq> 0" "set (span p N) \<inter> set (fbytes w vp) = {}"
    "e0 \<in> set (ramfs_heap_tab w)" "ipc_size e0 = 0" by (auto simp: can_grow_def)
  have kb: "?k \<le> unat (rn_bufsize ?n)" "length (ramfs_heap_tab w) = HEAP_MAX" using ok(1) by (auto simp: file_ok_def)
  have sep: "set (span p N) \<inter> set (span (rn_buf ?n) ?k) = {}"
    using g(3) span_mono [OF kb(1)] unfolding fbytes_def by blast
  define w1 where "w1 = w\<lparr>w_mem := memset p 0 (of_nat N) (w_mem w), w_answers := ps, w_live := (w_live w)(p \<mapsto> of_nat N)\<rparr>"
  have c: "calloc_mem 1 (align_up (word_of_int e) 4096) w = (p, w1)"
    using g(1,2) by (simp add: calloc_mem_def alloc_mem_def aN w1_def)
  obtain t where t: "add_ramfs_window p (of_nat N) w1 = Inr (w1\<lparr>ramfs_heap_tab := t\<rparr>)" "length t = HEAP_MAX"
    "\<exists>e \<in> set t. ipc_begin e = p \<and> ipc_size e = of_nat N"
    "\<forall>e \<in> set (ramfs_heap_tab w). ipc_size e \<noteq> 0 \<longrightarrow> ipc_begin e \<noteq> p \<longrightarrow> e \<in> set t"
    using ramfs_windows(1) [of w1 e0 "of_nat N" p] g(4,5) kb(2) N0 by (auto simp: w1_def)
  define m' where "m' = memcpy p (rn_buf ?n) (of_nat ?k) (memset p 0 (of_nat N) (w_mem w))"
  have fill: "i < N \<Longrightarrow> m' (p + of_nat i) = (if i < ?k then fbyte w vp i else 0)" "x \<notin> set (span p N) \<Longrightarrow> m' x = w_mem w x" for i x
    using fill_and_copy [OF _ _ sep, where m = "w_mem w"] e(1) Nv unfolding m'_def fbyte_def by simp_all
  have rs: "rn_size ?n = 0 \<longleftrightarrow> ?k = 0" using rn_size_zero [OF ok(1)] .
  have sz: "word_of_int (v_size (w_vnode w vp)) = (of_nat ?k :: u64)" using fsize_word [OF ok(1)] .
  have w3: "(w1\<lparr>ramfs_heap_tab := t\<rparr>)\<lparr>w_mem := memcpy p (rn_buf ?n) (word_of_int (v_size (w_vnode w vp)))
      (w_mem (w1\<lparr>ramfs_heap_tab := t\<rparr>))\<rparr> = w1\<lparr>w_mem := m', ramfs_heap_tab := t\<rparr>"
    unfolding sz m'_def by (simp add: w1_def)
  have "\<exists>l t'. (if rn_size ?n \<noteq> 0
       then let w3 = (w1\<lparr>ramfs_heap_tab := t\<rparr>)\<lparr>w_mem := memcpy p (rn_buf ?n) (word_of_int (v_size (w_vnode w vp)))
                        (w_mem (w1\<lparr>ramfs_heap_tab := t\<rparr>))\<rparr>
            in if rn_owns_buf ?n then bindr (free_mem (rn_buf ?n) w3) (remove_ramfs_window (rn_buf ?n)) else Inr w3
       else Inr (w1\<lparr>ramfs_heap_tab := t\<rparr>)) = Inr (w1\<lparr>w_mem := m', w_live := l, ramfs_heap_tab := t'\<rparr>) \<and>
     l p \<noteq> None \<and> length t' = HEAP_MAX \<and> (\<exists>e \<in> set t'. ipc_begin e = p \<and> ipc_size e \<noteq> 0)"
  proof (cases "0 < ?k \<and> rn_owns_buf ?n")
    case True
    let ?w = "w1\<lparr>w_mem := m', w_live := (w_live w1)(rn_buf ?n := None), ramfs_heap_tab := t\<rparr>"
    from True kb(1) have "0 < unat (rn_bufsize ?n)" by linarith
    with ok(2) have b: "rn_buf ?n \<noteq> 0" "w_live w (rn_buf ?n) \<noteq> None" "windowed w (rn_buf ?n)"
      by (auto simp: buf_ok_def)
    have "p + of_nat 0 \<in> set (span p N)" "rn_buf ?n + of_nat 0 \<in> set (span (rn_buf ?n) ?k)"
      using True Nv e(2) unfolding in_span by (metis zero_less_nat_eq order.strict_trans2)+
    then have pb: "rn_buf ?n \<noteq> p" using sep by auto
    have "windowed ?w (rn_buf ?n)" using b(3) t(4) pb by (auto simp: windowed_def)
    then obtain t' where t': "remove_ramfs_window (rn_buf ?n) ?w = Inr (?w\<lparr>ramfs_heap_tab := t'\<rparr>)" "length t' = HEAP_MAX"
      "\<forall>e \<in> set t. ipc_begin e \<noteq> rn_buf ?n \<longrightarrow> e \<in> set t'"
      using ramfs_windows(2) [of ?w "rn_buf ?n"] t(2) by auto
    have fr: "free_mem (rn_buf ?n) (w1\<lparr>w_mem := m', ramfs_heap_tab := t\<rparr>) = Inr ?w"
      using b pb by (simp add: free_mem_def w1_def)
    have fin: "?w\<lparr>ramfs_heap_tab := t'\<rparr> = w1\<lparr>w_mem := m', w_live := (w_live w1)(rn_buf ?n := None), ramfs_heap_tab := t'\<rparr>"
      by simp
    have "((w_live w1)(rn_buf ?n := None)) p \<noteq> None" using pb by (simp add: w1_def)
    moreover have "\<exists>e \<in> set t'. ipc_begin e = p \<and> ipc_size e \<noteq> 0" using t(3) t'(3) pb N0 by metis
    moreover have "rn_size ?n \<noteq> 0" "rn_owns_buf ?n" using True rs by simp_all
    ultimately show ?thesis
      using t'(2) unfolding w3 Let_def fr bindr_Inr t'(1) fin by (simp only: if_True not_False_eq_True) blast
  next
    case False
    moreover have "w1\<lparr>ramfs_heap_tab := t\<rparr> = w1\<lparr>w_mem := m', ramfs_heap_tab := t\<rparr>" if "?k = 0"
      using that by (simp add: w1_def m'_def)
    moreover have "w1\<lparr>w_mem := m', ramfs_heap_tab := t\<rparr> = w1\<lparr>w_mem := m', w_live := w_live w1, ramfs_heap_tab := t\<rparr>" by simp
    moreover have "w_live w1 p \<noteq> None" by (simp add: w1_def)
    ultimately show ?thesis using t(2,3) N0 unfolding w3 Let_def rs by (metis neq0_conv)
  qed
  then obtain l t' where l: "(if rn_size ?n \<noteq> 0
       then let w3 = (w1\<lparr>ramfs_heap_tab := t\<rparr>)\<lparr>w_mem := memcpy p (rn_buf ?n) (word_of_int (v_size (w_vnode w vp)))
                        (w_mem (w1\<lparr>ramfs_heap_tab := t\<rparr>))\<rparr>
            in if rn_owns_buf ?n then bindr (free_mem (rn_buf ?n) w3) (remove_ramfs_window (rn_buf ?n)) else Inr w3
       else Inr (w1\<lparr>ramfs_heap_tab := t\<rparr>)) = Inr (w1\<lparr>w_mem := m', w_live := l, ramfs_heap_tab := t'\<rparr>)"
    "l p \<noteq> None" "length t' = HEAP_MAX" "\<exists>e \<in> set t'. ipc_begin e = p \<and> ipc_size e \<noteq> 0" by blast
  have "write_grow vp e w = Inr (0, set_node ?np (\<lambda>n. n\<lparr>rn_buf := p, rn_bufsize := of_nat N\<rparr>)
      (w1\<lparr>w_mem := m', w_live := l, ramfs_heap_tab := t'\<rparr>))"
    unfolding write_grow_def Let_def c
    unfolding aN prod.case t(1) if_not_P [OF g(2)] bindr_Inr l(1) [unfolded Let_def] ..
  then show thesis
    by (rule that) (use l fill in \<open>auto simp: w1_def windowed_def\<close>)
qed


text \<open>Where a write begins, and the bytes it leaves in the file.\<close>

definition write_pos :: "vfs \<Rightarrow> u64 \<Rightarrow> uio \<Rightarrow> int \<Rightarrow> int" where
  "write_pos w vp u ioflag = (if ioflag AND IO_APPEND \<noteq> 0 then v_size (w_vnode w vp) else uio_offset u)"

text \<open>The vectors of a write and the room it needs.\<close>

definition write_ok :: "vfs \<Rightarrow> u64 \<Rightarrow> uio \<Rightarrow> int \<Rightarrow> u64 \<Rightarrow> bool" where
  "write_ok w vp u off p \<longleftrightarrow> uio_dir u = UIO_WRITE \<and> 0 < uio_resid u \<and> uio_resid u < 2147483648 \<and>
     0 \<le> off \<and> off + uio_resid u \<le> 2 ^ 61 \<and> length (addrs (uio_iov u)) = nat (uio_resid u) \<and>
     distinct (addrs (uio_iov u)) \<and> set (addrs (uio_iov u)) \<inter> set (fbytes w vp) = {} \<and>
     (let N = (nat (off + uio_resid u) + 4095) div 4096 * 4096
      in unat (rn_bufsize (fnode w vp)) < nat (off + uio_resid u) \<longrightarrow>
           can_grow w vp p N \<and> set (addrs (uio_iov u)) \<inter> set (span p N) = {})"

lemma write_test:
  fixes a b c :: int
  assumes "0 \<le> a" "0 \<le> b" "0 \<le> c" "a + b \<le> 2 ^ 61" "c \<le> 2 ^ 62"
  shows "word_of_int a + word_of_int b > (word_of_int c :: u64) \<longleftrightarrow> c < a + b"
proof -
  have "(word_of_int a + word_of_int b :: u64) = word_of_int (a + b)" by (rule wi_hom_add)
  then have "uint (word_of_int a + word_of_int b :: u64) = a + b" "uint (word_of_int c :: u64) = c"
    using assms by (simp_all only: uint_word_of_int) simp_all
  then show ?thesis by (simp add: word_less_def)
qed

lemma file_bounds:
  assumes "file_ok w vp"
  shows "0 \<le> v_size (w_vnode w vp)" "v_size (w_vnode w vp) \<le> 2 ^ 62" "fsize w vp \<le> unat (rn_bufsize (fnode w vp))"
    "a > sint (rn_bufsize (fnode w vp)) \<longleftrightarrow> unat (rn_bufsize (fnode w vp)) < nat a"
proof -
  have b: "0 \<le> v_size (w_vnode w vp)" "fsize w vp \<le> unat (rn_bufsize (fnode w vp))"
    "unat (rn_bufsize (fnode w vp)) \<le> 4611686018427387904"
    using assms unfolding file_ok_def by auto
  show "0 \<le> v_size (w_vnode w vp)" "fsize w vp \<le> unat (rn_bufsize (fnode w vp))" by (rule b)+
  from b show "v_size (w_vnode w vp) \<le> 2 ^ 62" by simp
  have "unat (rn_bufsize (fnode w vp)) < 2 ^ 63" using b(3) by simp
  note sint_small [OF this]
  then show "a > sint (rn_bufsize (fnode w vp)) \<longleftrightarrow> unat (rn_bufsize (fnode w vp)) < nat a" by linarith
qed

lemma write_expand_ok:
  assumes ok: "file_ok w vp" "buf_ok w vp" and u: "write_ok w vp u (uio_offset u) p"
  obtains w' where "write_expand vp u w = Inr (0, w')" "file_ok w' vp" "buf_ok w' vp"
    "v_data (w_vnode w' vp) = v_data (w_vnode w vp)"
    "fsize w' vp = max (fsize w vp) (nat (uio_offset u + uio_resid u))"
    "\<forall>i < unat (rn_bufsize (fnode w' vp)). fbyte w' vp i =
       (if fsize w vp \<le> i \<and> unat (rn_bufsize (fnode w vp)) < nat (uio_offset u + uio_resid u) then 0 else fbyte w vp i)"
    "\<forall>x \<in> set (addrs (uio_iov u)). w_mem w' x = w_mem w x"
    "set (addrs (uio_iov u)) \<inter> set (fbytes w' vp) = {}"
    "set (fbytes w' vp) \<subseteq> set (fbytes w vp) \<union> set (span p ((nat (uio_offset u + uio_resid u) + 4095) div 4096 * 4096))"
proof -
  let ?e = "uio_offset u + uio_resid u" and ?n = "fnode w vp" and ?np = "v_data (w_vnode w vp)"
  have ub: "0 \<le> uio_offset u" "0 < uio_resid u" "?e \<le> 2 ^ 61" "set (addrs (uio_iov u)) \<inter> set (fbytes w vp) = {}"
    using u by (auto simp: write_ok_def)
  note fb = file_bounds [OF ok(1)]
  have test: "word_of_int (uio_offset u) + word_of_int (uio_resid u) > (word_of_int (v_size (w_vnode w vp)) :: u64) \<longleftrightarrow>
      v_size (w_vnode w vp) < ?e"
    using write_test ub(1-3) fb(1,2) by simp
  have small: "\<not> ?e > LONG_MAX" using ub(3) by (simp add: LONG_MAX_def)
  show thesis
  proof (cases "v_size (w_vnode w vp) < ?e")
    case False
    have "write_expand vp u w = Inr (0, w)" using False unfolding write_expand_def Let_def test by simp
    then show ?thesis
      by (rule that) (use False ok ub(4) fb(3) in \<open>auto simp: max_def\<close>)
  next
    case True
    show ?thesis
    proof (cases "unat (rn_bufsize ?n) < nat ?e")
      case False
      let ?w = "set_node ?np (\<lambda>n. n\<lparr>rn_size := word_of_int ?e, rn_owns_buf := True\<rparr>) (set_vnode vp (\<lambda>v. v\<lparr>v_size := ?e\<rparr>) w)"
      have "write_expand vp u w = Inr (0, ?w)" using True False small unfolding write_expand_def Let_def test fb(4) by simp
      then show ?thesis
        by (rule that)
          (use True False ok ub fb(3) in \<open>auto simp: file_ok_def buf_ok_def windowed_def fbytes_def fbyte_def\<close>)
    next
      case grow: True
      define N where "N = (nat ?e + 4095) div 4096 * 4096"
      have N: "N = unat (align_up (word_of_int ?e) 4096 :: u64)"
        using unat_pgup [of ?e] ub(1-3) unfolding N_def by linarith
      have cg: "can_grow w vp p N" "set (addrs (uio_iov u)) \<inter> set (span p N) = {}"
        using u grow unfolding write_ok_def N_def Let_def by blast+
      have e: "fsize w vp \<le> nat ?e" "0 < ?e" using True ub(1,2) by linarith+
      have Ne: "nat ?e \<le> N" "N \<le> 2 ^ 62" using ub(3) unfolding N_def by simp_all
      then have uN: "unat (of_nat N :: u64) = N" by (simp add: unat_of_nat)
      obtain w1 where w1: "write_grow vp ?e w = Inr (0, w1)" "w_vnode w1 = w_vnode w"
        "w_node w1 = (w_node w)(?np := ?n\<lparr>rn_buf := p, rn_bufsize := of_nat N\<rparr>)"
        "\<forall>i < N. w_mem w1 (p + of_nat i) = (if i < fsize w vp then fbyte w vp i else 0)"
        "\<forall>x. x \<notin> set (span p N) \<longrightarrow> w_mem w1 x = w_mem w x"
        "w_live w1 p \<noteq> None" "windowed w1 p" "length (ramfs_heap_tab w1) = HEAP_MAX"
        by (rule write_grow_ok [OF ok e ub(3) N cg(1)])
      let ?w = "set_node ?np (\<lambda>n. n\<lparr>rn_size := word_of_int ?e, rn_owns_buf := True\<rparr>) (set_vnode vp (\<lambda>v. v\<lparr>v_size := ?e\<rparr>) w1)"
      have p0: "p \<noteq> 0" using cg(1) by (simp add: can_grow_def)
      have "write_expand vp u w = Inr (0, ?w)"
        using True grow small unfolding write_expand_def Let_def test fb(4) by (simp add: w1(1))
      then show ?thesis
      proof (rule that)
        show "file_ok ?w vp" using w1(2,3,8) ok(1) e Ne uN by (auto simp: file_ok_def)
        show "buf_ok ?w vp" using w1(2,3,6,7) p0 by (auto simp: buf_ok_def windowed_def)
        show "\<forall>i < unat (rn_bufsize (fnode ?w vp)). fbyte ?w vp i =
            (if fsize w vp \<le> i \<and> unat (rn_bufsize (fnode w vp)) < nat ?e then 0 else fbyte w vp i)"
          using w1(2-4) uN grow by (auto simp: fbyte_def)
        show "\<forall>x \<in> set (addrs (uio_iov u)). w_mem ?w x = w_mem w x" using w1(5) cg(2) by auto
        show "set (addrs (uio_iov u)) \<inter> set (fbytes ?w vp) = {}" using w1(2,3) uN cg(2) by (simp add: fbytes_def)
        show "set (fbytes ?w vp) \<subseteq> set (fbytes w vp) \<union> set (span p ((nat ?e + 4095) div 4096 * 4096))"
          using w1(2,3) uN by (simp add: fbytes_def N_def [symmetric])
      qed (use w1(2) e in \<open>auto simp: max_def\<close>)
    qed
  qed
qed

lemma sint_size: "file_ok w vp \<Longrightarrow> sint (rn_size (fnode w vp)) = v_size (w_vnode w vp)"
proof -
  assume ok: "file_ok w vp"
  have "0 \<le> v_size (w_vnode w vp)" "v_size (w_vnode w vp) \<le> 2 ^ 62" by (rule file_bounds [OF ok])+
  then have "signed_take_bit 63 (v_size (w_vnode w vp)) = v_size (w_vnode w vp)" by (intro signed_take_bit_int_eq_self) auto
  moreover have "rn_size (fnode w vp) = word_of_int (v_size (w_vnode w vp))" using ok by (simp add: file_ok_def)
  ultimately show ?thesis by (simp add: sint_sbintrunc')
qed

lemma span_inside: "a + n \<le> N \<Longrightarrow> set (span (b + of_nat a) n) \<subseteq> set (span b N)"
proof -
  assume "a + n \<le> N"
  then have "set (span b (a + n)) \<subseteq> set (span b N)" by (rule span_mono)
  then show ?thesis by (simp add: span_add)
qed

lemma span_index:
  assumes "a + n \<le> 2 ^ 63" "i \<le> 2 ^ 63"
  shows "b + of_nat i \<in> set (span (b + of_nat a) n) \<longleftrightarrow> a \<le> i \<and> i < a + n"
proof -
  have inj: "(of_nat i :: u64) = of_nat j \<longleftrightarrow> i = j" if "j \<le> 2 ^ 63" for j
  proof -
    have "i < 2 ^ 64" "j < 2 ^ 64" using that assms(2) by simp_all
    then have "unat (of_nat i :: u64) = i" "unat (of_nat j :: u64) = j" by (simp_all add: unat_of_nat)
    then show ?thesis by metis
  qed
  have "b + of_nat i \<in> set (span (b + of_nat a) n) \<longleftrightarrow> (\<exists>k < n. (of_nat i :: u64) = of_nat (a + k))"
    by (auto simp: in_span)
  also have "\<dots> \<longleftrightarrow> (\<exists>k < n. i = a + k)" using inj assms(1) by (metis add_mono_thms_linordered_semiring(2) less_imp_le order_trans)
  finally show ?thesis by (auto simp: le_iff_add)
qed

lemma moved_frame: "moved d s m m' \<Longrightarrow> x \<notin> set d \<Longrightarrow> m' x = m x"
  by (simp add: moved_def)

lemma moved_into:
  assumes mv: "moved (span (b + of_nat a) n) src m m'" and len: "length src = n" and small: "a + n \<le> 2 ^ 63" "i \<le> 2 ^ 63"
  shows "m' (b + of_nat i) = (if a \<le> i \<and> i < a + n then m (src ! (i - a)) else m (b + of_nat i))"
proof (cases "a \<le> i \<and> i < a + n")
  case True
  then obtain k where k: "i = a + k" "k < n" by (metis le_Suc_ex nat_add_left_cancel_less)
  with moved_set [OF mv, of k] len show ?thesis by (simp add: add.assoc)
next
  case False
  then have "b + of_nat i \<notin> set (span (b + of_nat a) n)" using span_index [OF small] by blast
  from moved_frame [OF mv this] False show ?thesis by auto
qed

text \<open>A write puts the bytes of the vectors into the file and keeps all others.\<close>

lemma ramfs_write_ok:
  assumes ok: "file_ok w vp" "buf_ok w vp" and off: "0 \<le> uio_offset u" "uio_offset u < LONG_MAX"
    and wr: "write_ok w vp u (write_pos w vp u ioflag) p"
  defines "pos \<equiv> nat (write_pos w vp u ioflag)" and "len \<equiv> nat (uio_resid u)"
  obtains u' w' where "ramfs_write vp u ioflag w = Inr (0, u', w')" "uio_resid u' = 0" "uio_offset u' = int (pos + len)"
    "file_ok w' vp" "buf_ok w' vp" "fsize w' vp = max (fsize w vp) (pos + len)"
    "\<forall>i < fsize w' vp. fbyte w' vp i = (if pos \<le> i \<and> i < pos + len then w_mem w (addrs (uio_iov u) ! (i - pos))
       else if fsize w vp \<le> i \<and> unat (rn_bufsize (fnode w vp)) < pos + len then 0 else fbyte w vp i)"
    "set (fbytes w' vp) \<subseteq> set (fbytes w vp) \<union> set (span p ((pos + len + 4095) div 4096 * 4096))"
proof -
  let ?np = "v_data (w_vnode w vp)" and ?pos = "write_pos w vp u ioflag"
  define u1 where "u1 = u\<lparr>uio_offset := ?pos\<rparr>"
  have u1: "(if ioflag AND IO_APPEND \<noteq> 0 then u\<lparr>uio_offset := sint (rn_size (fnode w vp))\<rparr> else u) = u1"
    using sint_size [OF ok(1)] by (simp add: u1_def write_pos_def)
  have same: "uio_iov u1 = uio_iov u" "uio_resid u1 = uio_resid u" "uio_dir u1 = uio_dir u" "uio_offset u1 = ?pos"
    by (simp_all add: u1_def)
  have wr1: "write_ok w vp u1 (uio_offset u1) p" using wr by (simp add: write_ok_def same)
  have wb: "0 \<le> ?pos" "0 < uio_resid u" "uio_resid u < 2147483648" "?pos + uio_resid u \<le> 2305843009213693952"
    "length (addrs (uio_iov u)) = len" "distinct (addrs (uio_iov u))" "uio_dir u = UIO_WRITE"
    using wr by (auto simp: write_ok_def len_def)
  have pl: "nat (?pos + uio_resid u) = pos + len" using wb(1,2) by (simp add: pos_def len_def nat_add_distrib)
  have small: "pos + len \<le> 2305843009213693952" using wb(4) pl by linarith
  obtain w1 where w1: "write_expand vp u1 w = Inr (0, w1)" "file_ok w1 vp" "buf_ok w1 vp" "v_data (w_vnode w1 vp) = ?np"
    "fsize w1 vp = max (fsize w vp) (pos + len)"
    "\<forall>i < unat (rn_bufsize (fnode w1 vp)). fbyte w1 vp i =
       (if fsize w vp \<le> i \<and> unat (rn_bufsize (fnode w vp)) < pos + len then 0 else fbyte w vp i)"
    "\<forall>x \<in> set (addrs (uio_iov u)). w_mem w1 x = w_mem w x" "set (addrs (uio_iov u)) \<inter> set (fbytes w1 vp) = {}"
    "set (fbytes w1 vp) \<subseteq> set (fbytes w vp) \<union> set (span p ((pos + len + 4095) div 4096 * 4096))"
    by (rule write_expand_ok [OF ok wr1]) (simp add: same pl)
  let ?b = "rn_buf (fnode w1 vp)"
  define w2 where "w2 = set_node ?np touch_mc w1"
  have size: "pos + len \<le> unat (rn_bufsize (fnode w1 vp))" using file_bounds(3) [OF w1(2)] w1(5) by linarith
  have fn2: "rn_buf (w_node w2 ?np) + word_of_int ?pos = ?b + of_nat pos"
    using wb(1) by (simp add: pos_def w2_def touch_mc_def w1(4))
  have "uio_ok (?b + of_nat pos) len u1"
    using w1(8) span_inside [OF size, of ?b] wb(2,5,6) unfolding uio_ok_def same fbytes_def len_def by auto
  then obtain u' m' where mv: "vfscore_uiomove (?b + of_nat pos) (uio_resid u) u1 (w_mem w2) = Inr (0, u', m')"
    "uio_offset u' = ?pos + uio_resid u" "uio_resid u' = uio_resid u - uio_resid u"
    "moved (span (?b + of_nat pos) len) (addrs (uio_iov u)) (w_mem w1) m'"
    using uiomove_moves [of "uio_resid u" "?b + of_nat pos" u1 "w_mem w2"] wb(2,3,5,7)
    unfolding same uio_dst_def uio_src_def len_def w2_def by (auto)
  let ?w = "w2\<lparr>w_mem := m'\<rparr>"
  have ty: "v_type (w_vnode w vp) = VREG" using ok(1) by (simp add: file_ok_def)
  have "ramfs_write vp u ioflag w = Inr (0, u', ?w)"
    using ty off wb(2) unfolding ramfs_write_def Let_def u1 w1(1) bindr_Inr prod.case
    by (simp add: w2_def [symmetric] uiomove_vfs_def same fn2 mv(1))
  then show thesis
  proof (rule that)
    have keep: "w_vnode ?w = w_vnode w1" "w_node w2 (v_data (w_vnode w1 vp)) = touch_mc (fnode w1 vp)" "w_live ?w = w_live w1"
      "ramfs_heap_tab ?w = ramfs_heap_tab w1" by (simp_all add: w2_def w1(4))
    show "file_ok ?w vp" using w1(2) by (simp add: file_ok_def keep touch_mc_def)
    show "buf_ok ?w vp" using w1(3) by (simp add: buf_ok_def windowed_def keep touch_mc_def)
    show "fsize ?w vp = max (fsize w vp) (pos + len)" using w1(5) keep(1) by simp
    show "set (fbytes ?w vp) \<subseteq> set (fbytes w vp) \<union> set (span p ((pos + len + 4095) div 4096 * 4096))"
      using w1(9) by (simp add: fbytes_def keep touch_mc_def)
    show "\<forall>i < fsize ?w vp. fbyte ?w vp i = (if pos \<le> i \<and> i < pos + len then w_mem w (addrs (uio_iov u) ! (i - pos))
       else if fsize w vp \<le> i \<and> unat (rn_bufsize (fnode w vp)) < pos + len then 0 else fbyte w vp i)"
    proof (intro allI impI)
      fix i assume i: "i < fsize ?w vp"
      have ib: "i < unat (rn_bufsize (fnode w1 vp))" using i keep(1) file_bounds(3) [OF w1(2)] by simp
      moreover have "unat (rn_bufsize (fnode w1 vp)) \<le> 2 ^ 62" using w1(2) by (simp add: file_ok_def)
      ultimately have i63: "i \<le> 2 ^ 63" by simp
      have "fbyte ?w vp i = m' (?b + of_nat i)" by (simp add: fbyte_def keep touch_mc_def)
      also have "\<dots> = (if pos \<le> i \<and> i < pos + len then w_mem w1 (addrs (uio_iov u) ! (i - pos)) else fbyte w1 vp i)"
        using moved_into [OF mv(4) wb(5) _ i63] small by (simp add: fbyte_def)
      also have "\<dots> = (if pos \<le> i \<and> i < pos + len then w_mem w (addrs (uio_iov u) ! (i - pos)) else fbyte w1 vp i)"
        using w1(7) wb(5) by auto
      finally show "fbyte ?w vp i = (if pos \<le> i \<and> i < pos + len then w_mem w (addrs (uio_iov u) ! (i - pos))
         else if fsize w vp \<le> i \<and> unat (rn_bufsize (fnode w vp)) < pos + len then 0 else fbyte w vp i)"
        using w1(6) ib by simp
    qed
  qed (use mv(2,3) wb(1,2) in \<open>auto simp: pos_def len_def\<close>)
qed


text \<open>A read delivers the bytes from the offset on, up to the end of the file, and changes nothing else.\<close>

definition read_ok :: "vfs \<Rightarrow> u64 \<Rightarrow> uio \<Rightarrow> bool" where
  "read_ok w vp u \<longleftrightarrow> uio_dir u = UIO_READ \<and> 0 < uio_resid u \<and> uio_resid u < 2147483648 \<and> 0 \<le> uio_offset u \<and>
     length (addrs (uio_iov u)) = nat (uio_resid u) \<and> distinct (addrs (uio_iov u)) \<and>
     set (addrs (uio_iov u)) \<inter> set (fbytes w vp) = {}"

lemma ramfs_read_ok:
  assumes ok: "file_ok w vp" and rd: "read_ok w vp u"
  defines "n \<equiv> min (nat (uio_resid u)) (fsize w vp - nat (uio_offset u))"
  obtains u' w' where "ramfs_read vp u w = Inr (0, u', w')" "uio_resid u' = uio_resid u - int n"
    "uio_offset u' = uio_offset u + int n" "w_vnode w' = w_vnode w"
    "\<forall>j < n. w_mem w' (addrs (uio_iov u) ! j) = fbyte w vp (nat (uio_offset u) + j)"
    "\<forall>x. x \<notin> set (addrs (uio_iov u)) \<longrightarrow> w_mem w' x = w_mem w x" "\<forall>i < fsize w vp. fbyte w' vp i = fbyte w vp i"
proof (cases "uio_offset u \<ge> v_size (w_vnode w vp)")
  case True
  have "n = 0" using True by (simp add: n_def)
  moreover have "ramfs_read vp u w = Inr (0, u, w)"
    using ok rd True by (auto simp: ramfs_read_def Let_def file_ok_def read_ok_def)
  ultimately show ?thesis using that by simp
next
  case False
  let ?n = "fnode w vp" and ?np = "v_data (w_vnode w vp)" and ?o = "nat (uio_offset u)"
  have rb: "0 \<le> uio_offset u" "0 < uio_resid u" "uio_resid u < 2147483648" "uio_dir u = UIO_READ"
    "length (addrs (uio_iov u)) = nat (uio_resid u)" "distinct (addrs (uio_iov u))"
    "set (addrs (uio_iov u)) \<inter> set (fbytes w vp) = {}" using rd by (auto simp: read_ok_def)
  have tl: "transfer_len (v_size (w_vnode w vp)) u = int n"
    using rb(1,2) False by (auto simp: transfer_len_def n_def min_def)
  have nb: "?o + n \<le> fsize w vp" "n \<le> nat (uio_resid u)" using False rb(1) by (auto simp: n_def min_def)
  then have nb': "?o + n \<le> unat (rn_bufsize ?n)" using file_bounds(3) [OF ok] by linarith
  have n31: "int n < 2147483648" using nb(2) rb(2,3) by linarith
  have "uio_ok (rn_buf ?n + of_nat ?o) n u"
    using rb nb(2) span_inside [OF nb', of "rn_buf ?n"] unfolding uio_ok_def fbytes_def by auto
  then obtain u' m' where mv: "vfscore_uiomove (rn_buf ?n + of_nat ?o) (int n) u (w_mem w) = Inr (0, u', m')"
    "uio_offset u' = uio_offset u + int n" "uio_resid u' = uio_resid u - int n"
    "moved (take n (addrs (uio_iov u))) (span (rn_buf ?n + of_nat ?o) n) (w_mem w) m'"
    using uiomove_moves [of "int n" "rn_buf ?n + of_nat ?o" u "w_mem w"] n31 rb(4)
    unfolding uio_dst_def uio_src_def by auto
  let ?w = "(set_node ?np touch_a w)\<lparr>w_mem := m'\<rparr>"
  have cp: "rn_buf ?n + word_of_int (uio_offset u) = rn_buf ?n + of_nat ?o" using rb(1) by simp
  have ty: "v_type (w_vnode w vp) = VREG" using ok by (simp add: file_ok_def)
  have "ramfs_read vp u w = Inr (0, u', ?w)"
    using rb(1,2) False ty unfolding ramfs_read_def Let_def tl cp uiomove_vfs_def by (simp add: mv(1) del: of_nat_nat)
  moreover have mem: "m' x = w_mem w x" if "x \<notin> set (addrs (uio_iov u))" for x
  proof -
    have "x \<notin> set (take n (addrs (uio_iov u)))" using that in_set_takeD by metis
    then show ?thesis by (rule moved_frame [OF mv(4)])
  qed
  moreover have "fbyte ?w vp i = fbyte w vp i" if "i < fsize w vp" for i
  proof -
    have "rn_buf ?n + of_nat i \<in> set (fbytes w vp)"
      using that file_bounds(3) [OF ok] unfolding fbytes_def in_span by (intro exI [of _ i]) simp
    then have "rn_buf ?n + of_nat i \<notin> set (addrs (uio_iov u))" using rb(7) by blast
    then show ?thesis using mem by (simp add: fbyte_def touch_a_def)
  qed
  moreover have "m' (addrs (uio_iov u) ! j) = fbyte w vp (?o + j)" if "j < n" for j
    using moved_set [OF mv(4), of j] that nb(2) rb(5) by (simp add: fbyte_def add.assoc)
  ultimately show ?thesis by (intro that [of u' ?w]) (simp_all add: mv(2,3))
qed

section \<open>Properties\<close>


text \<open>
  C26: After a write, a read at the same position with vectors of the same total length that
  do not overlap the file's buffer delivers exactly the bytes that were written.
\<close>

theorem ramfs_read_after_write:
  assumes "file_ok w vp" "buf_ok w vp" "0 \<le> uio_offset u" "uio_offset u < LONG_MAX" "write_ok w vp u (uio_offset u) p"
    and "read_ok w vp r" "set (addrs (uio_iov r)) \<inter> set (span p ((nat (uio_offset u) + nat (uio_resid u) + 4095) div 4096 * 4096)) = {}"
    and "uio_offset r = uio_offset u" "uio_resid r = uio_resid u"
  shows "\<exists>u' w' r' w''. ramfs_write vp u 0 w = Inr (0, u', w') \<and> ramfs_read vp r w' = Inr (0, r', w'') \<and>
    uio_resid r' = 0 \<and> map (w_mem w'') (addrs (uio_iov r)) = map (w_mem w) (addrs (uio_iov u))"
proof -
  let ?pos = "nat (uio_offset u)" and ?len = "nat (uio_resid u)"
  have pos: "write_pos w vp u 0 = uio_offset u" by (simp add: write_pos_def)
  have len: "length (addrs (uio_iov u)) = ?len" "0 < uio_resid u" using assms(5) by (auto simp: write_ok_def)
  obtain u' w' where w': "ramfs_write vp u 0 w = Inr (0, u', w')" "file_ok w' vp"
    "fsize w' vp = max (fsize w vp) (?pos + ?len)"
    "\<forall>i < fsize w' vp. fbyte w' vp i = (if ?pos \<le> i \<and> i < ?pos + ?len then w_mem w (addrs (uio_iov u) ! (i - ?pos))
       else if fsize w vp \<le> i \<and> unat (rn_bufsize (fnode w vp)) < ?pos + ?len then 0 else fbyte w vp i)"
    "set (fbytes w' vp) \<subseteq> set (fbytes w vp) \<union> set (span p ((?pos + ?len + 4095) div 4096 * 4096))"
    using assms(5) by (elim ramfs_write_ok [OF assms(1-4), of 0, unfolded pos]) (rule that)
  have rd: "read_ok w' vp r" using assms(6,7) w'(5) unfolding read_ok_def by blast
  have n: "min (nat (uio_resid r)) (fsize w' vp - nat (uio_offset r)) = ?len"
    using w'(3) assms(8,9) by (auto simp: min_def max_def)
  have lr: "length (addrs (uio_iov r)) = ?len" using rd assms(9) by (simp add: read_ok_def)
  obtain r' w'' where r: "ramfs_read vp r w' = Inr (0, r', w'')"
    "uio_resid r' = uio_resid r - int ?len" "\<forall>j < ?len. w_mem w'' (addrs (uio_iov r) ! j) = fbyte w' vp (nat (uio_offset r) + j)"
    by (rule ramfs_read_ok [OF w'(2) rd, unfolded n]) (rule that)
  have "map (w_mem w'') (addrs (uio_iov r)) = map (w_mem w) (addrs (uio_iov u))"
  proof (rule nth_equalityI)
    fix j assume "j < length (map (w_mem w'') (addrs (uio_iov r)))"
    then have j: "j < ?len" using lr by simp
    then have "?pos + j < fsize w' vp" using w'(3) by linarith
    with w'(4) j have fb: "fbyte w' vp (?pos + j) = w_mem w (addrs (uio_iov u) ! j)" by simp
    show "map (w_mem w'') (addrs (uio_iov r)) ! j = map (w_mem w) (addrs (uio_iov u)) ! j"
      using r(3) j fb by (simp add: lr len(1) assms(8))
  qed (simp only: length_map lr len(1))
  moreover have "uio_resid r' = 0" using r(2) assms(9) len(2) by simp
  ultimately show ?thesis using w'(1) r(1) by blast
qed

lemma truncate_zero:
  assumes "file_ok w vp" "buf_ok w vp" "0 < unat (rn_bufsize (fnode w vp))"
  shows "\<exists>w'. ramfs_truncate vp 0 w = Inr (0, w') \<and> fsize w' vp = 0 \<and> ramfs_heap_tab w' = ramfs_heap_tab w \<and>
    w_live w' (rn_buf (fnode w vp)) = None \<and> windowed w' (rn_buf (fnode w vp))"
proof -
  let ?b = "rn_buf (fnode w vp)" and ?np = "v_data (w_vnode w vp)"
  have b: "?b \<noteq> 0" "w_live w ?b \<noteq> None" "windowed w ?b" "rn_owns_buf (fnode w vp)" using assms(2,3) unfolding buf_ok_def by blast+
  have fr: "free_mem ?b w = Inr (w\<lparr>w_live := (w_live w)(?b := None)\<rparr>)" using b(1,2) by (simp add: free_mem_def)
  define w' where "w' = set_node ?np (\<lambda>n. touch_mc (n\<lparr>rn_size := 0\<rparr>)) (set_vnode vp (\<lambda>v. v\<lparr>v_size := 0\<rparr>)
      (set_node ?np (\<lambda>n. n\<lparr>rn_buf := 0, rn_bufsize := 0\<rparr>) (w\<lparr>w_live := (w_live w)(?b := None)\<rparr>)))"
  have "ramfs_truncate vp 0 w = Inr (0, w')"
    using b(1,4) unfolding ramfs_truncate_def Let_def fr w'_def by simp
  moreover have "fsize w' vp = 0" "ramfs_heap_tab w' = ramfs_heap_tab w" "w_live w' ?b = None" "windowed w' ?b"
    using b(3) by (simp_all add: w'_def windowed_def)
  ultimately show ?thesis by blast
qed

lemma remove_ramfs_window_missing:
  "\<forall>e \<in> set (ramfs_heap_tab w). ipc_begin e \<noteq> p \<Longrightarrow> remove_ramfs_window p w = Inl Hang"
  by (auto simp: remove_ramfs_window_def ramfs_ipc_remove_heap_def find_slot_None split: option.splits
      dest!: find_slot_takeD(1,3) in_set_takeD)

text \<open>Growing an empty file by \<^verbatim>\<open>ramfs_truncate\<close> gives it a buffer without a window.\<close>

lemma truncate_grow_empty:
  assumes "w_answers w = p # ps" "p \<noteq> 0" "0 < len" "len \<le> 2 ^ 61" "rn_size (fnode w vp) = 0" "rn_bufsize (fnode w vp) = 0"
  obtains w' where "ramfs_truncate vp len w = Inr (0, w')" "w_answers w' = ps" "ramfs_heap_tab w' = ramfs_heap_tab w"
    "w_vnode w' = (w_vnode w)(vp := (w_vnode w vp)\<lparr>v_size := len\<rparr>)" "w_live w' p \<noteq> None"
    "rn_buf (fnode w' vp) = p" "rn_size (fnode w' vp) = word_of_int len" "rn_owns_buf (fnode w' vp)"
    "rn_bufsize (fnode w' vp) = align_up (word_of_int len) 4096"
proof -
  let ?np = "v_data (w_vnode w vp)" and ?N = "align_up (word_of_int len) 4096 :: u64"
  define w1 where "w1 = w\<lparr>w_answers := ps, w_live := (w_live w)(p \<mapsto> ?N)\<rparr>"
  have a: "alloc_mem ?N w = (p, w1)" using assms(1,2) by (simp add: alloc_mem_def w1_def)
  have "unat (word_of_int len :: u64) = nat len" using assms(3,4) by (simp add: unat_eq_nat_uint uint_word_of_int)
  then have "(word_of_int len :: u64) > rn_bufsize (fnode w vp)" using assms(3) by (simp add: assms(6) word_less_nat_alt)
  then have "ramfs_truncate vp len w = Inr (0, set_node ?np (\<lambda>n. touch_mc (n\<lparr>rn_size := word_of_int len\<rparr>))
      (set_vnode vp (\<lambda>v. v\<lparr>v_size := len\<rparr>) (set_node ?np (\<lambda>n. n\<lparr>rn_buf := p, rn_bufsize := ?N, rn_owns_buf := True\<rparr>) w1)))"
    using assms(2,3,5) unfolding ramfs_truncate_def truncate_grow_def Let_def a prod.case by simp
  then show thesis by (rule that) (simp_all add: w1_def touch_mc_def)
qed

lemma write_unwindowed_hangs:
  assumes "w_answers w = q # qs" "q \<noteq> 0" "q \<noteq> rn_buf (fnode w vp)" "rn_buf (fnode w vp) \<noteq> 0" "w_live w (rn_buf (fnode w vp)) \<noteq> None"
    and "rn_owns_buf (fnode w vp)" "rn_size (fnode w vp) \<noteq> 0" "\<forall>e \<in> set (ramfs_heap_tab w). ipc_begin e \<noteq> rn_buf (fnode w vp)"
  shows "write_grow vp e w = Inl Hang"
proof -
  let ?n = "fnode w vp" and ?N = "align_up (word_of_int e) 4096 :: u64"
  define w1 where "w1 = w\<lparr>w_mem := memset q 0 ?N (w_mem w), w_answers := qs, w_live := (w_live w)(q \<mapsto> ?N)\<rparr>"
  have a: "calloc_mem 1 ?N w = (q, w1)" using assms(1,2) by (simp add: calloc_mem_def alloc_mem_def w1_def)
  show ?thesis
  proof (cases "add_ramfs_window q ?N w1")
    case (Inl s)
    then have "s = Hang" by (auto simp: add_ramfs_window_def ramfs_ipc_add_heap_def split: option.splits)
    with Inl show ?thesis unfolding write_grow_def Let_def a prod.case using assms(2) by simp
  next
    case (Inr w2)
    then obtain i where t: "w2 = w1\<lparr>ramfs_heap_tab := (ramfs_heap_tab w)[i := entry q ?N (bits [21, 2])]\<rparr>"
      by (auto simp: add_ramfs_window_def ramfs_ipc_add_heap_def w1_def split: option.splits)
    have "\<forall>e \<in> set ((ramfs_heap_tab w)[i := entry q ?N (bits [21, 2])]). ipc_begin e \<noteq> rn_buf ?n"
      using assms(3,8) by (auto dest!: set_update_subset_insert [THEN subsetD])
    then have "remove_ramfs_window (rn_buf ?n) w3 = Inl Hang"
      if "ramfs_heap_tab w3 = (ramfs_heap_tab w)[i := entry q ?N (bits [21, 2])]" for w3
      using remove_ramfs_window_missing that by simp
    then show ?thesis unfolding write_grow_def Let_def a prod.case using assms(2-7) Inr
      by (simp add: free_mem_def t w1_def)
  qed
qed

text \<open>
  C27: A file that was empty and was given a length by \<^verbatim>\<open>ramfs_truncate\<close> has a buffer without a
  window. The first write that has to move it looks for that window and never returns.
\<close>

theorem write_after_truncate_hangs:
  assumes "v_type (w_vnode w vp) = VREG" "rn_size (fnode w vp) = 0" "rn_bufsize (fnode w vp) = 0"
    and "w_answers w = p # q # ps" "p \<noteq> 0" "q \<noteq> 0" "q \<noteq> p" "\<forall>e \<in> set (ramfs_heap_tab w). ipc_begin e \<noteq> p"
    and "0 < len" "0 \<le> uio_offset u" "0 < uio_resid u" "uio_offset u + uio_resid u \<le> 2 ^ 61"
    and "nat (uio_offset u + uio_resid u) > (nat len + 4095) div 4096 * 4096"
  shows "\<exists>w'. ramfs_truncate vp len w = Inr (0, w') \<and> ramfs_write vp u 0 w' = Inl Hang"
proof -
  let ?e = "uio_offset u + uio_resid u"
  have len: "len \<le> 2 ^ 61" "len < ?e" using assms(12,13) by linarith+
  obtain w' where w': "ramfs_truncate vp len w = Inr (0, w')" "w_answers w' = q # ps" "ramfs_heap_tab w' = ramfs_heap_tab w"
    "w_vnode w' = (w_vnode w)(vp := (w_vnode w vp)\<lparr>v_size := len\<rparr>)" "w_live w' p \<noteq> None"
    "rn_buf (fnode w' vp) = p" "rn_size (fnode w' vp) = word_of_int len" "rn_owns_buf (fnode w' vp)"
    "rn_bufsize (fnode w' vp) = align_up (word_of_int len) 4096"
    by (rule truncate_grow_empty [OF assms(4,5,9) len(1) assms(2,3)])
  have ul: "unat (word_of_int len :: u64) = nat len" using assms(9) len(1) by (simp add: unat_eq_nat_uint uint_word_of_int)
  then have "rn_size (fnode w' vp) \<noteq> 0" using assms(9) unfolding w'(7) by (metis unat_0 nat_eq_iff less_irrefl zero_less_nat_eq)
  then have hang: "write_grow vp ?e w' = Inl Hang"
    using write_unwindowed_hangs [of w' q ps vp ?e] w'(2,3,5,6,8) assms(5-8) by simp
  have "unat (rn_bufsize (fnode w' vp)) = (nat len + 4095) div 4096 * 4096"
    using unat_pgup [of len] assms(9) len(1) unfolding w'(9) by simp
  moreover from this have "sint (rn_bufsize (fnode w' vp)) = int ((nat len + 4095) div 4096 * 4096)"
    using len(1) by (simp add: sint_uint uint_nat signed_take_bit_int_eq_self)
  ultimately have big: "?e > sint (rn_bufsize (fnode w' vp))" using assms(13) by linarith
  have test: "word_of_int (uio_offset u) + word_of_int (uio_resid u) > (word_of_int (v_size (w_vnode w' vp)) :: u64)"
    using write_test [of "uio_offset u" "uio_resid u" len] assms(9-12) len by (simp add: w'(4))
  have "write_expand vp u w' = Inl Hang"
    using test big assms(12) unfolding write_expand_def Let_def by (simp add: hang LONG_MAX_def)
  then have "ramfs_write vp u 0 w' = Inl Hang"
    using assms(1,10-12) unfolding ramfs_write_def Let_def by (simp add: w'(4) LONG_MAX_def)
  with w'(1) show ?thesis by blast
qed

section \<open>Concrete files\<close>

definition ex_uio :: "uio_rw \<Rightarrow> u64 \<Rightarrow> u64 \<Rightarrow> int \<Rightarrow> uio" where
  "ex_uio dir base n off = \<lparr>uio_iov = [\<lparr>iov_base = base, iov_len = n\<rparr>], uio_iovcnt = 1, uio_offset = off, uio_resid = uint n, uio_dir = dir\<rparr>"

lemma ex_table: "length RAMFS_ipc_tab_heap = HEAP_MAX" "\<exists>e \<in> set RAMFS_ipc_tab_heap. ipc_size e = 0"
  "\<forall>e \<in> set RAMFS_ipc_tab_heap. ipc_begin e = 0"
  by (simp_all add: RAMFS_ipc_tab_heap_def HEAP_MAX_def)

lemma ex_file: "file_ok ex_vfs 0x1100" "buf_ok ex_vfs 0x1100" "fbytes ex_vfs 0x1100 = []"
  using ex_table(1) by (simp_all add: file_ok_def buf_ok_def fbytes_def ex_vfs_def ex_vnode_def new_node_def)

lemma ex_apart: "set (span 0x5000 5) \<inter> set (span 0x200000 4096) = {}" "set (span 0x6000 5) \<inter> set (span 0x200000 4096) = {}"
  by (auto simp: in_span_iff word_less_nat_alt unat_arith_simps split: if_splits)

lemma ex_write_ok: "write_ok ex_vfs 0x1100 (ex_uio UIO_WRITE 0x5000 5 0) 0 0x200000"
  using ex_apart(1) ex_file(3) ex_table(2) distinct_span [of 5 "0x5000"]
  by (simp add: write_ok_def can_grow_def ex_uio_def ex_vfs_def)

lemma ex_read_ok: "read_ok ex_vfs 0x1100 (ex_uio UIO_READ 0x6000 5 0)"
  using ex_file(3) distinct_span [of 5 "0x6000"] by (simp add: read_ok_def ex_uio_def)


theorem ramfs_read_after_write_witness:
  "\<exists>u' w' r' w''. ramfs_write 0x1100 (ex_uio UIO_WRITE 0x5000 5 0) 0 ex_vfs = Inr (0, u', w') \<and>
     ramfs_read 0x1100 (ex_uio UIO_READ 0x6000 5 0) w' = Inr (0, r', w'') \<and> uio_resid r' = 0 \<and>
     map (w_mem w'') (addrs (uio_iov (ex_uio UIO_READ 0x6000 5 0))) = map (w_mem ex_vfs) (addrs (uio_iov (ex_uio UIO_WRITE 0x5000 5 0)))"
proof (rule ramfs_read_after_write [OF ex_file(1,2) _ _ _ ex_read_ok])
  show "write_ok ex_vfs 0x1100 (ex_uio UIO_WRITE 0x5000 5 0) (uio_offset (ex_uio UIO_WRITE 0x5000 5 0)) 0x200000"
    using ex_write_ok by (simp add: ex_uio_def)
qed (use ex_apart(2) in \<open>simp_all add: ex_uio_def LONG_MAX_def\<close>)

theorem write_after_truncate_hangs_witness:
  "\<exists>w'. ramfs_truncate 0x1100 100 ex_vfs = Inr (0, w') \<and> ramfs_write 0x1100 (ex_uio UIO_WRITE 0x5000 5 8192) 0 w' = Inl Hang"
  by (rule write_after_truncate_hangs [where p = "0x200000" and q = "0x300000" and ps = "[]"])
    (use ex_table(3) in \<open>simp_all add: ex_vfs_def ex_vnode_def new_node_def ex_uio_def\<close>)

end
