(* ===== verification/Paths.thy ===== *)
theory Paths
  imports Vfs_State
begin

text \<open>
  Path names (\<^verbatim>\<open>vfscore/task.c\<close>, and the matching of mount points in \<^verbatim>\<open>vfscore/mount.c\<close>). Strings are
  without their terminating zero; writes into the result buffer of \<^verbatim>\<open>PATH_MAX\<close> bytes are checked.
\<close>

section \<open>Conversion to a full path\<close>

text \<open>The characters written so far are \<open>out\<close>; \<^verbatim>\<open>tgt - full\<close> and \<^verbatim>\<open>len\<close> are its length.\<close>

definition put_char :: "char \<Rightarrow> string \<Rightarrow> string res" where
  "put_char c out = (if length out < PATH_MAX then Inr (out @ [c]) else Inl Oob)"

definition put_string :: "string \<Rightarrow> string \<Rightarrow> string res" where
  "put_string s out = iterr put_char s out"

text \<open>\<^verbatim>\<open>while (*tgt != '/') tgt--;\<close>\<close>

fun back_to_slash :: "string \<Rightarrow> nat \<Rightarrow> nat res" where
  "back_to_slash out 0 = (if out ! 0 = CHR ''/'' then Inr 0 else Inl Oob)"
| "back_to_slash out (Suc i) = (if out ! Suc i = CHR ''/'' then Inr (Suc i) else back_to_slash out i)"

definition parent_dir :: "string \<Rightarrow> string res" where
  "parent_dir out =
     (if length out \<ge> 2
      then bindr (back_to_slash out (length out - 2)) (\<lambda>i. Inr (take (if i = 0 then 1 else i) out))
      else Inr out)"

lemma rest_shorter: "src \<noteq> [] \<Longrightarrow> length (dropWhile P src) - Suc 0 < length src"
proof -
  assume "src \<noteq> []"
  then have "0 < length src" by simp
  then show ?thesis using length_dropWhile_le [of P src] by linarith
qed

function conv_loop :: "string \<Rightarrow> string \<Rightarrow> string res" where
  "conv_loop src out =
     (if src = [] then Inr out
      else let comp = takeWhile (\<lambda>c. c \<noteq> CHR ''/'') src; p = dropWhile (\<lambda>c. c \<noteq> CHR ''/'') src
           in bindr (if comp = ''..'' then parent_dir out else if comp = ''.'' then Inr out else put_string comp out) (\<lambda>out1.
                if p = [] then Inr out1
                else bindr (if out1 \<noteq> [] \<and> last out1 \<noteq> CHR ''/'' then put_char (CHR ''/'') out1 else Inr out1) (\<lambda>out2.
                  conv_loop (tl p) out2)))"
  by pat_completeness auto
termination by (relation "measure (length \<circ> fst)") (auto simp: rest_shorter)

declare conv_loop.simps [simp del]

definition path_conv :: "string \<Rightarrow> string \<Rightarrow> (int \<times> string) res" where
  "path_conv wd cpath =
     (let path = strlcpy cpath PATH_MAX; len = length path
      in if len \<ge> PATH_MAX then Inr (ENAMETOOLONG, [])
         else if length wd + len \<ge> PATH_MAX then Inr (ENAMETOOLONG, [])
         else bindr (if path \<noteq> [] \<and> hd path = CHR ''/''
                     then bindr (put_char (CHR ''/'') []) (conv_loop (tl path))
                     else let full = strlcpy wd PATH_MAX
                          in bindr (if length wd > 1 \<and> (path = [] \<or> hd path \<noteq> CHR ''.'') then put_char (CHR ''/'') full else Inr full)
                               (conv_loop path)) (\<lambda>full.
              if length full < PATH_MAX then Inr (0, full) else Inl Oob))"

definition task_conv :: "string \<Rightarrow> string \<Rightarrow> int \<Rightarrow> (int \<times> string) res" where
  "task_conv t_cwd cpath acc = bindr (path_conv t_cwd cpath) (\<lambda>(rc, full). if rc \<noteq> 0 then Inr (rc, full) else Inr (0, full))"

definition vfs_dname_copy :: "string \<Rightarrow> nat \<Rightarrow> int \<times> string" where
  "vfs_dname_copy src n = (if length src \<ge> n then -1 else 0, strlcpy src n)"

section \<open>Mount points\<close>

fun match_len :: "string \<Rightarrow> string \<Rightarrow> nat" where
  "match_len (c # cs) (d # ds) = (if c = d then Suc (match_len cs ds) else 0)"
| "match_len _ _ = 0"

definition count_match :: "string \<Rightarrow> string \<Rightarrow> nat" where
  "count_match path mount_root =
     (let len = match_len path mount_root
      in if len < length mount_root then 0
         else if len = 1 \<and> path ! 0 = CHR ''/'' then 1
         else if drop len path = [] \<or> hd (drop len path) = CHR ''/'' then len
         else 0)"

text \<open>The result is the mount point and the rest of the path, or \<open>None\<close> for the return value -1.\<close>

definition vfs_findroot :: "string \<Rightarrow> vfs \<Rightarrow> (u64 \<times> string) option" where
  "vfs_findroot path w =
     (let (m, max_len) = fold (\<lambda>tmp (m, max_len). let len = count_match path (m_path (w_mount w tmp))
                                 in if len > max_len then (tmp, len) else (m, max_len)) (mount_list w) (0, 0)
      in if m = 0 then None
         else let root = drop max_len path in Some (m, if root \<noteq> [] \<and> hd root = CHR ''/'' then tl root else root))"

section \<open>Paths as lists of components\<close>

text \<open>The non-empty components of a path, and a path made of components.\<close>

function comps :: "string \<Rightarrow> string list" where
  "comps src =
     (if src = [] then []
      else let comp = takeWhile (\<lambda>c. c \<noteq> CHR ''/'') src; p = dropWhile (\<lambda>c. c \<noteq> CHR ''/'') src
           in (if comp = [] then [] else [comp]) @ comps (tl p))"
  by pat_completeness auto
termination by (relation "measure length") (auto simp: rest_shorter)

declare comps.simps [simp del]

definition render :: "string list \<Rightarrow> string" where
  "render st = (if st = [] then ''/'' else concat (map (\<lambda>c. CHR ''/'' # c) st))"

text \<open>The reference: \<^verbatim>\<open>.\<close> keeps the directory, \<^verbatim>\<open>..\<close> leaves it, and any other component enters it.\<close>

definition resolve :: "string \<Rightarrow> string list \<Rightarrow> string list" where
  "resolve c st = (if c = ''..'' then butlast st else if c = ''.'' then st else st @ [c])"

definition good_comps :: "string list \<Rightarrow> bool" where
  "good_comps st \<longleftrightarrow> (\<forall>c \<in> set st. c \<noteq> [] \<and> CHR ''/'' \<notin> set c)"

text \<open>A buffer that stands for the directory \<open>st\<close>, with or without a final slash.\<close>

definition at_dir :: "string \<Rightarrow> string list \<Rightarrow> bool" where
  "at_dir out st \<longleftrightarrow> good_comps st \<and> (out = render st \<or> st \<noteq> [] \<and> out = render st @ ''/'')"

lemma put_string_ok: "length out + length s \<le> PATH_MAX \<Longrightarrow> put_string s out = Inr (out @ s)"
  unfolding put_string_def by (induction s arbitrary: out) (auto simp: put_char_def)

lemma render_snoc: "render (st @ [c]) = (if st = [] then [] else render st) @ CHR ''/'' # c"
  by (auto simp: render_def)

lemma render_last: "good_comps st \<Longrightarrow> st \<noteq> [] \<Longrightarrow> last (render st) \<noteq> CHR ''/''"
proof (cases st rule: rev_cases)
  case (snoc st' c)
  assume "good_comps st"
  then have "c \<noteq> []" "CHR ''/'' \<notin> set c" by (auto simp: snoc good_comps_def)
  then have "c \<noteq> []" "last c \<noteq> CHR ''/''" using last_in_set [of c] by metis+
  then show ?thesis by (simp add: snoc render_snoc)
qed simp

lemma render_ne [simp]: "render st \<noteq> []"
  by (cases st rule: rev_cases) (auto simp: render_snoc render_def)

text \<open>Walking back over a component.\<close>

lemma back_over:
  "CHR ''/'' \<notin> set c \<Longrightarrow> k \<le> length c \<Longrightarrow> back_to_slash (pre @ CHR ''/'' # c @ post) (length pre + k) = Inr (length pre)"
proof (induction k)
  case 0
  then show ?case by (cases "length pre") (auto simp: nth_append)
next
  case (Suc k)
  then have "(pre @ CHR ''/'' # c @ post) ! (length pre + Suc k) = c ! k" by (simp add: nth_append)
  moreover have "c ! k \<noteq> CHR ''/''" using Suc.prems by (metis Suc_le_lessD nth_mem)
  ultimately show ?case using Suc by simp
qed

lemma parent_dir_ok:
  assumes "at_dir out st"
  shows "\<exists>out'. parent_dir out = Inr out' \<and> at_dir out' (butlast st) \<and> length out' \<le> length out"
proof (cases st rule: rev_cases)
  case Nil
  then show ?thesis using assms by (auto simp: at_dir_def parent_dir_def render_def)
next
  case (snoc st' c)
  have c: "c \<noteq> []" "CHR ''/'' \<notin> set c" "good_comps st'" using assms by (auto simp: at_dir_def good_comps_def snoc)
  define pre where "pre = (if st' = [] then [] else render st')"
  obtain post where post: "out = pre @ CHR ''/'' # c @ post" "post = [] \<or> post = ''/''"
    using assms by (auto simp: at_dir_def snoc render_snoc pre_def)
  obtain n where n: "length c = Suc n" using c(1) by (cases c) auto
  define k where "k = n + length post"
  have "length out = length pre + Suc (Suc n) + length post" by (simp add: post(1) n)
  moreover have "length post \<le> 1" using post(2) by auto
  ultimately have k: "length out - 2 = length pre + k" "k \<le> length c" "2 \<le> length out" unfolding k_def n by linarith+
  have "back_to_slash out (length out - 2) = Inr (length pre)" using back_over [OF c(2) k(2), of pre post] k(1) by (simp only: post(1) [symmetric])
  then have "parent_dir out = Inr (take (if pre = [] then 1 else length pre) out)" using k(3) by (simp add: parent_dir_def)
  moreover have "take (if pre = [] then 1 else length pre) out = render st'"
    by (simp add: post(1) pre_def render_def)
  moreover have "at_dir (render st') (butlast st)" using c(3) by (simp add: at_dir_def snoc)
  moreover have "length (take (if pre = [] then 1 else length pre) out) \<le> length out" by simp
  ultimately show ?thesis by (intro exI [of _ "render st'"]) simp
qed

text \<open>Entering a component needs a slash before it.\<close>

lemma enter_dir:
  assumes "at_dir out st" "last out = CHR ''/''" "c \<noteq> []" "CHR ''/'' \<notin> set c"
  shows "at_dir (out @ c) (st @ [c])"
proof -
  have "out = (if st = [] then [] else render st) @ ''/''"
    using assms(1,2) render_last [of st] by (auto simp: at_dir_def render_def)
  then show ?thesis using assms(1,3,4) by (auto simp: at_dir_def render_snoc good_comps_def)
qed

lemma add_slash:
  assumes "at_dir out st"
  shows "at_dir (if last out \<noteq> CHR ''/'' then out @ ''/'' else out) st" "last (if last out \<noteq> CHR ''/'' then out @ ''/'' else out) = CHR ''/''"
  using assms by (auto simp: at_dir_def render_def)

lemma comp_of_src: "CHR ''/'' \<notin> set (takeWhile (\<lambda>c. c \<noteq> CHR ''/'') src)"
  by (auto dest: set_takeWhileD)

lemma src_length:
  fixes src :: string
  defines "p \<equiv> dropWhile (\<lambda>c. c \<noteq> CHR ''/'') src"
  shows "length src = length (takeWhile (\<lambda>c. c \<noteq> CHR ''/'') src) + (if p = [] then 0 else 1 + length (tl p))"
proof -
  have "length src = length (takeWhile (\<lambda>c. c \<noteq> CHR ''/'') src) + length p"
    unfolding p_def by (metis length_append takeWhile_dropWhile_id)
  moreover have "length p = (if p = [] then 0 else 1 + length (tl p))" by (cases p) simp_all
  ultimately show ?thesis by (simp only:)
qed

lemma comp_step:
  assumes "at_dir out st" "last out = CHR ''/'' \<or> c \<in> {[], ''.'', ''..''}" "CHR ''/'' \<notin> set c" "length out + length c \<le> PATH_MAX"
  shows "\<exists>out1. (if c = ''..'' then parent_dir out else if c = ''.'' then Inr out else put_string c out) = Inr out1 \<and>
    at_dir out1 (if c = [] then st else resolve c st) \<and> length out1 \<le> length out + length c"
proof -
  consider "c = ''..''" | "c = ''.''" | "c = []" | "c \<noteq> ''..''" "c \<noteq> ''.''" "c \<noteq> []" by blast
  then show ?thesis
  proof cases
    case 1
    then show ?thesis using parent_dir_ok [OF assms(1)] by (auto simp: resolve_def)
  next
    case 4
    then have "at_dir (out @ c) (st @ [c])" using assms by (intro enter_dir) auto
    with 4 show ?thesis using put_string_ok [OF assms(4)] by (simp add: resolve_def)
  next
    case 2
    then show ?thesis using assms(1) by (simp add: resolve_def)
  next
    case 3
    then show ?thesis using assms(1) put_string_ok [OF assms(4)] by simp
  qed
qed

text \<open>
  The loop, from a buffer with a final slash, or with a first component that does not enter a
  directory.
\<close>

lemma conv_loop_ok:
  assumes "at_dir out st" "length out + length src < PATH_MAX"
    and "last out = CHR ''/'' \<or> takeWhile (\<lambda>c. c \<noteq> CHR ''/'') src \<in> {[], ''.'', ''..''}"
  shows "\<exists>out'. conv_loop src out = Inr out' \<and> at_dir out' (fold resolve (comps src) st) \<and> length out' < PATH_MAX"
  using assms
proof (induction "length src" arbitrary: src out st rule: less_induct)
  case less
  show ?case
  proof (cases "src = []")
    case False
    define comp where "comp = takeWhile (\<lambda>c. c \<noteq> CHR ''/'') src"
    define p where "p = dropWhile (\<lambda>c. c \<noteq> CHR ''/'') src"
    have len: "length src = length comp + (if p = [] then 0 else 1 + length (tl p))"
      unfolding comp_def p_def by (rule src_length)
    have loop: "conv_loop src out = bindr (if comp = ''..'' then parent_dir out else if comp = ''.'' then Inr out else put_string comp out) (\<lambda>out1.
        if p = [] then Inr out1 else bindr (if out1 \<noteq> [] \<and> last out1 \<noteq> CHR ''/'' then put_char (CHR ''/'') out1 else Inr out1) (conv_loop (tl p)))"
      using False by (subst conv_loop.simps) (simp only: Let_def comp_def p_def if_False)
    have cs: "comps src = (if comp = [] then [] else [comp]) @ comps (tl p)"
      using False by (subst comps.simps) (simp only: Let_def comp_def p_def if_False)
    have "length out + length comp \<le> PATH_MAX" using less.prems(2) len by linarith
    then obtain out1 where o1: "(if comp = ''..'' then parent_dir out else if comp = ''.'' then Inr out else put_string comp out) = Inr out1"
      "at_dir out1 (if comp = [] then st else resolve comp st)" "length out1 \<le> length out + length comp"
      using comp_step [OF less.prems(1,3) comp_of_src] unfolding comp_def by blast
    let ?st = "if comp = [] then st else resolve comp st"
    have fold: "fold resolve (comps src) st = fold resolve (comps (tl p)) ?st" unfolding cs by simp
    show ?thesis
    proof (cases "p = []")
      case True
      then have "comps (tl p) = []" by (subst comps.simps) simp
      then show ?thesis unfolding fold loop o1(1) using True o1(2,3) less.prems(2) len by simp
    next
      case p: False
      let ?o = "if last out1 \<noteq> CHR ''/'' then out1 @ ''/'' else out1"
      have len1: "length src = length comp + (1 + length (tl p))" using len p by (simp only: if_False)
      have ne: "out1 \<noteq> []" using o1(2) render_ne unfolding at_dir_def by (metis append_is_Nil_conv)
      have l: "length out1 + 1 + length (tl p) < PATH_MAX" 
        using len1 o1(3) less.prems(2) by linarith
      then have o2: "(if out1 \<noteq> [] \<and> last out1 \<noteq> CHR ''/'' then put_char (CHR ''/'') out1 else Inr out1) = Inr ?o"
        using ne by (simp add: put_char_def)
      have "\<exists>out'. conv_loop (tl p) ?o = Inr out' \<and> at_dir out' (fold resolve (comps (tl p)) ?st) \<and> length out' < PATH_MAX"
      proof (rule less.hyps)
        show "length (tl p) < length src" using len1 by linarith
        show "at_dir ?o ?st" by (rule add_slash(1) [OF o1(2)])
        show "length ?o + length (tl p) < PATH_MAX" using l by simp
      qed (use add_slash(2) [OF o1(2)] in blast)
      moreover have "conv_loop src out = conv_loop (tl p) ?o" unfolding loop o1(1) bindr_Inr by (simp only: p if_False o2 bindr_Inr)
      ultimately show ?thesis unfolding fold by (simp only:)
    qed
  next
    case True
    have "conv_loop src out = Inr out" unfolding True by (subst conv_loop.simps) simp
    moreover have "comps src = []" unfolding True by (subst comps.simps) simp
    ultimately show ?thesis using less.prems(1,2) by simp
  qed
qed

lemma render_hd: "hd (render st) = CHR ''/''"
  by (cases st) (auto simp: render_def)

lemma strlcpy_short: "length s < n \<Longrightarrow> strlcpy s n = s"
  by (simp add: strlcpy_def)

lemma comps_absolute: "src \<noteq> [] \<Longrightarrow> hd src = CHR ''/'' \<Longrightarrow> comps src = comps (tl src)"
  by (cases src) (simp_all add: comps.simps [of "_ # _"])

section \<open>Properties\<close>

text \<open>
  C34 (paths are resolved): for a working directory made of components, \<^verbatim>\<open>path_conv\<close> returns a
  path, with or without a final slash, whose components are the reference resolution of the
  components of the argument, from the root or from the working directory. The names must leave two
  bytes of the buffer free, and a first component that starts with a dot must be
  \<^verbatim>\<open>.\<close> or \<^verbatim>\<open>..\<close> unless the working directory is the root.
\<close>

theorem path_conv_resolves:
  assumes "good_comps st" "length (render st) + length path + 1 < PATH_MAX"
    and "path \<noteq> [] \<and> hd path = CHR ''.'' \<and> st \<noteq> [] \<longrightarrow> takeWhile (\<lambda>c. c \<noteq> CHR ''/'') path \<in> {''.'', ''..''}"
  shows "\<exists>full. path_conv (render st) path = Inr (0, full) \<and>
    at_dir full (fold resolve (comps path) (if path \<noteq> [] \<and> hd path = CHR ''/'' then [] else st))"
proof -
  have short: "strlcpy path PATH_MAX = path" "strlcpy (render st) PATH_MAX = render st"
    "\<not> length path \<ge> PATH_MAX" "\<not> length (render st) + length path \<ge> PATH_MAX"
    using assms(2) strlcpy_short [of path PATH_MAX] strlcpy_short [of "render st" PATH_MAX] by linarith+
  have r1: "length (render st) > 1 \<longleftrightarrow> st \<noteq> []"
  proof (cases st rule: rev_cases)
    case (snoc st' c)
    then have "c \<noteq> []" using assms(1) by (auto simp: good_comps_def)
    then show ?thesis by (simp add: snoc render_snoc)
  qed (simp add: render_def)
  show ?thesis
  proof (cases "path \<noteq> [] \<and> hd path = CHR ''/''")
    case True
    have "at_dir ''/'' []" by (simp add: at_dir_def good_comps_def render_def)
    moreover have "length ''/'' + length (tl path) < PATH_MAX" using assms(2) True by (cases path) auto
    ultimately obtain out where out: "conv_loop (tl path) ''/'' = Inr out" "at_dir out (fold resolve (comps (tl path)) [])" "length out < PATH_MAX"
      using conv_loop_ok by (metis last.simps)
    have "put_char (CHR ''/'') [] = Inr ''/''" by (simp add: put_char_def PATH_MAX_def)
    then have "path_conv (render st) path = Inr (0, out)"
      unfolding path_conv_def Let_def short(1,2) using short(3,4) True by (simp add: out(1,3))
    then show ?thesis using True out(2) comps_absolute [of path] by simp
  next
    case False
    let ?slash = "st \<noteq> [] \<and> (path = [] \<or> hd path \<noteq> CHR ''.'')"
    let ?o = "if ?slash then render st @ ''/'' else render st"
    have d: "at_dir ?o st" using assms(1) by (simp add: at_dir_def)
    have l: "last ?o = CHR ''/'' \<or> takeWhile (\<lambda>c. c \<noteq> CHR ''/'') path \<in> {[], ''.'', ''..''}"
      using assms(3) by (cases "st = []") (auto simp: render_def)
    have "length ?o + length path < PATH_MAX" using assms(2) by simp
    from conv_loop_ok [OF d this l] obtain out where out: "conv_loop path ?o = Inr out" "at_dir out (fold resolve (comps path) st)" "length out < PATH_MAX"
      by blast
    have "(if length (render st) > 1 \<and> (path = [] \<or> hd path \<noteq> CHR ''.'') then put_char (CHR ''/'') (render st) else Inr (render st)) = Inr ?o"
      using assms(2) unfolding r1 by (simp add: put_char_def)
    then have "path_conv (render st) path = Inr (0, out)"
      unfolding path_conv_def Let_def short(1,2) using short(3,4) False by (simp only: if_False if_True bindr_Inr out(1,3))
    then show ?thesis using False out(2) by (simp only: if_False) blast
  qed
qed

theorem path_conv_resolves_witness:
  "\<exists>full. path_conv (render [''tmp'']) ''../etc/./rc'' = Inr (0, full) \<and> at_dir full [''etc'', ''rc'']"
proof -
  have "comps ''../etc/./rc'' = [''..'', ''etc'', ''.'', ''rc'']" by (simp add: comps.simps)
  moreover have "\<exists>full. path_conv (render [''tmp'']) ''../etc/./rc'' = Inr (0, full) \<and>
      at_dir full (fold resolve (comps ''../etc/./rc'') (if ''../etc/./rc'' \<noteq> [] \<and> hd ''../etc/./rc'' = CHR ''/'' then [] else [''tmp'']))"
    by (rule path_conv_resolves) (simp_all add: good_comps_def render_def PATH_MAX_def)
  ultimately show ?thesis by (simp add: resolve_def)
qed

lemma conv_loop_name:
  assumes "name \<noteq> []" "CHR ''/'' \<notin> set name" "name \<noteq> ''.''" "name \<noteq> ''..''" "length out + length name \<le> PATH_MAX"
  shows "conv_loop name out = Inr (out @ name)"
proof -
  have "takeWhile (\<lambda>c. c \<noteq> CHR ''/'') name = name" "dropWhile (\<lambda>c. c \<noteq> CHR ''/'') name = []"
    using assms(2) by (auto simp: takeWhile_eq_all_conv)
  then show ?thesis using assms(1,3,4) put_string_ok [OF assms(5)]
    by (subst conv_loop.simps) (simp only: Let_def if_False if_True bindr_Inr simp_thms)
qed

text \<open>
  C35 (one byte too many): the length check of \<^verbatim>\<open>path_conv\<close> forgets the slash it inserts. With a plain
  file name that fills the limit, the terminating zero is written behind the buffer.
\<close>

theorem path_conv_overflows:
  assumes "length wd > 1" "name \<noteq> []" "CHR ''/'' \<notin> set name" "hd name \<noteq> CHR ''.''" "length wd + length name = PATH_MAX - 1"
  shows "path_conv wd name = Inl Oob"
proof -
  have n: "name \<noteq> ''.''" "name \<noteq> ''..''" "hd name \<noteq> CHR ''/''" using assms(2-4) hd_in_set [of name] by (auto, metis)
  have P: "PATH_MAX = 4096" by (simp add: PATH_MAX_def)
  have l: "length wd + 1 + length name = PATH_MAX" using assms(5) unfolding P by simp
  have "strlcpy name PATH_MAX = name" "strlcpy wd PATH_MAX = wd" using l by (auto intro!: strlcpy_short)
  moreover have "put_char (CHR ''/'') wd = Inr (wd @ ''/'')" using l by (simp add: put_char_def)
  moreover have "conv_loop name (wd @ ''/'') = Inr (wd @ ''/'' @ name)"
    using conv_loop_name [OF assms(2,3) n(1,2), of "wd @ ''/''"] l by simp
  moreover have "\<not> length name \<ge> PATH_MAX" "\<not> length wd + length name \<ge> PATH_MAX" "\<not> length (wd @ ''/'' @ name) < PATH_MAX" using l by simp_all
  ultimately show ?thesis using assms(1,4) n(3) unfolding path_conv_def Let_def by (simp only: if_False if_True bindr_Inr simp_thms)
qed

theorem path_conv_overflows_witness: "path_conv (CHR ''/'' # replicate 2000 (CHR ''a'')) (replicate 2094 (CHR ''b'')) = Inl Oob"
  by (rule path_conv_overflows) (simp_all add: PATH_MAX_def)

text \<open>
  C36 (hidden files): a relative name that starts with a dot and is neither \<^verbatim>\<open>.\<close> nor \<^verbatim>\<open>..\<close> is
  appended to the working directory without a slash.
\<close>

theorem path_conv_glues_dotfiles:
  assumes "CHR ''/'' \<notin> set name" "name \<noteq> []" "name \<noteq> ''.''" "length wd + length name + 1 < PATH_MAX"
  shows "path_conv wd (CHR ''.'' # name) = Inr (0, wd @ CHR ''.'' # name)"
proof -
  let ?n = "CHR ''.'' # name"
  have "strlcpy ?n PATH_MAX = ?n" "strlcpy wd PATH_MAX = wd" using assms(4) by (auto intro!: strlcpy_short)
  moreover have "conv_loop ?n wd = Inr (wd @ ?n)" using assms by (intro conv_loop_name) auto
  moreover have "\<not> length ?n \<ge> PATH_MAX" "\<not> length wd + length ?n \<ge> PATH_MAX" "length (wd @ ?n) < PATH_MAX" using assms(4) by simp_all
  ultimately show ?thesis unfolding path_conv_def Let_def by simp
qed

theorem path_conv_glues_dotfiles_witness: "path_conv ''/tmp'' ''.rc'' = Inr (0, ''/tmp.rc'')"
  using path_conv_glues_dotfiles [of "''rc''" "''/tmp''"] by (simp add: PATH_MAX_def)

end
