(* ===== verification/Dentry.thy ===== *)
theory Dentry
  imports Ramfs Paths
begin

text \<open>
  The cache of directory entries (\<^verbatim>\<open>vfscore/dentry.c\<close>): a hash table of dentries by mount point
  and path, with reference counts that keep the vnode and the parent of an entry alive. The
  operations of the file systems are the fields of \<open>vnops\<close> and \<open>vfsops\<close>.
\<close>

section \<open>Operations of a file system\<close>

text \<open>The field \<^verbatim>\<open>vop_cache\<close>, which no table sets, is left out.\<close>

record vnops =
  vop_open :: "u64 \<Rightarrow> vfs \<Rightarrow> (int \<times> vfs) res"
  vop_close :: "u64 \<Rightarrow> u64 \<Rightarrow> vfs \<Rightarrow> (int \<times> vfs) res"
  vop_read :: "u64 \<Rightarrow> u64 \<Rightarrow> uio \<Rightarrow> int \<Rightarrow> vfs \<Rightarrow> (int \<times> uio \<times> vfs) res"
  vop_write :: "u64 \<Rightarrow> uio \<Rightarrow> int \<Rightarrow> vfs \<Rightarrow> (int \<times> uio \<times> vfs) res"
  vop_seek :: "u64 \<Rightarrow> u64 \<Rightarrow> int \<Rightarrow> int \<Rightarrow> vfs \<Rightarrow> (int \<times> vfs) res"
  vop_ioctl :: "u64 \<Rightarrow> u64 \<Rightarrow> u64 \<Rightarrow> u64 \<Rightarrow> vfs \<Rightarrow> (int \<times> vfs) res"
  vop_fsync :: "u64 \<Rightarrow> u64 \<Rightarrow> vfs \<Rightarrow> (int \<times> vfs) res"
  vop_readdir :: "u64 \<Rightarrow> u64 \<Rightarrow> vfs \<Rightarrow> (int \<times> dirent option \<times> vfs) res"
  vop_lookup :: "u64 \<Rightarrow> string \<Rightarrow> vfs \<Rightarrow> (int \<times> u64 \<times> vfs) res"
  vop_create :: "u64 \<Rightarrow> string \<Rightarrow> u32 \<Rightarrow> vfs \<Rightarrow> (int \<times> vfs) res"
  vop_remove :: "u64 \<Rightarrow> u64 \<Rightarrow> string \<Rightarrow> vfs \<Rightarrow> (int \<times> vfs) res"
  vop_rename :: "u64 \<Rightarrow> u64 \<Rightarrow> string \<Rightarrow> u64 \<Rightarrow> u64 \<Rightarrow> string \<Rightarrow> vfs \<Rightarrow> (int \<times> vfs) res"
  vop_mkdir :: "u64 \<Rightarrow> string \<Rightarrow> u32 \<Rightarrow> vfs \<Rightarrow> (int \<times> vfs) res"
  vop_rmdir :: "u64 \<Rightarrow> u64 \<Rightarrow> string \<Rightarrow> vfs \<Rightarrow> (int \<times> vfs) res"
  vop_getattr :: "u64 \<Rightarrow> vattr \<Rightarrow> vfs \<Rightarrow> (int \<times> vattr \<times> vfs) res"
  vop_setattr :: "u64 \<Rightarrow> vattr \<Rightarrow> vfs \<Rightarrow> (int \<times> vfs) res"
  vop_inactive :: "u64 \<Rightarrow> vfs \<Rightarrow> vfs res"
  vop_truncate :: "u64 \<Rightarrow> int \<Rightarrow> vfs \<Rightarrow> (int \<times> vfs) res"
  vop_link :: "u64 \<Rightarrow> u64 \<Rightarrow> string \<Rightarrow> vfs \<Rightarrow> (int \<times> vfs) res"
  vop_fallocate :: "u64 \<Rightarrow> int \<Rightarrow> int \<Rightarrow> int \<Rightarrow> vfs \<Rightarrow> (int \<times> vfs) res"
  vop_readlink :: "u64 \<Rightarrow> uio \<Rightarrow> vfs \<Rightarrow> (int \<times> uio \<times> vfs) res"
  vop_symlink :: "u64 \<Rightarrow> string \<Rightarrow> string \<Rightarrow> vfs \<Rightarrow> (int \<times> vfs) res"

text \<open>
  The first argument of \<^verbatim>\<open>vfs_unmount\<close> is the operation \<^verbatim>\<open>vop_inactive\<close> of a vnode, which the
  release of the dentries of a mount point reaches.
\<close>

record vfsops =
  vfs_mount :: "u64 \<Rightarrow> string option \<Rightarrow> int \<Rightarrow> vfs \<Rightarrow> (int \<times> vfs) res"
  vfs_unmount :: "(u64 \<Rightarrow> vfs \<Rightarrow> vfs res) \<Rightarrow> u64 \<Rightarrow> int \<Rightarrow> vfs \<Rightarrow> (int \<times> vfs) res"
  vfs_sync :: "u64 \<Rightarrow> vfs \<Rightarrow> vfs res"
  vfs_vget :: "u64 \<Rightarrow> u64 \<Rightarrow> vfs \<Rightarrow> (int \<times> vfs) res"
  vfs_statfs :: "u64 \<Rightarrow> vfs \<Rightarrow> (int \<times> vfs) res"
  vfs_vnops :: vnops

section \<open>The hash table\<close>

definition DENTRY_BUCKETS :: nat where "DENTRY_BUCKETS = 32"

text \<open>Characters are signed.\<close>

definition dentry_hash :: "u64 \<Rightarrow> string \<Rightarrow> nat" where
  "dentry_hash mp path =
     (let val = fold (\<lambda>c val. push_bit 5 val + val + scast (of_char c :: u8)) path (0 :: u32)
      in unat ((ucast val XOR mp) AND (of_nat DENTRY_BUCKETS - 1)))"

text \<open>
  \<^verbatim>\<open>uk_hlist_del\<close>: the entry leaves the list that it is linked in. An entry that is in no list
  has stale links, and what the stores through them do is not defined here.
\<close>

definition hlist_del :: "u64 \<Rightarrow> vfs \<Rightarrow> vfs res" where
  "hlist_del dp w =
     (case find (\<lambda>h. dp \<in> set (dentry_hash_table w h)) [0..<DENTRY_BUCKETS] of
        Some h \<Rightarrow> Inr (w\<lparr>dentry_hash_table := (dentry_hash_table w)(h := remove1 dp (dentry_hash_table w h))\<rparr>)
      | None \<Rightarrow> if dp \<in> set (dentry_fake w) then Inr (w\<lparr>dentry_fake := remove1 dp (dentry_fake w)\<rparr>) else Inl Undef)"

definition hash_insert :: "u64 \<Rightarrow> u64 \<Rightarrow> string \<Rightarrow> vfs \<Rightarrow> vfs" where
  "hash_insert dp mp path w =
     w\<lparr>dentry_hash_table := (dentry_hash_table w)(dentry_hash mp path := dp # dentry_hash_table w (dentry_hash mp path))\<rparr>"

definition dref :: "u64 \<Rightarrow> vfs \<Rightarrow> vfs res" where
  "dref dp w =
     (if dp = 0 \<or> \<not> d_refcnt (w_dentry w dp) > 0 then Inl Assert
      else Inr (set_dentry dp (\<lambda>d. d\<lparr>d_refcnt := d_refcnt d + 1\<rparr>) w))"

definition strdup :: "string \<Rightarrow> vfs \<Rightarrow> u64 \<times> vfs" where
  "strdup s w = strndup s w"

text \<open>A new child of \<open>parent_dp\<close>, which may be 0.\<close>

definition add_child :: "u64 \<Rightarrow> u64 \<Rightarrow> vfs \<Rightarrow> vfs res" where
  "add_child parent_dp dp w =
     (if parent_dp = 0 then Inr w
      else bindr (dref parent_dp w) (\<lambda>w1. Inr (set_dentry parent_dp (\<lambda>d. d\<lparr>d_child_list := dp # d_child_list d\<rparr>) w1)))"

definition del_child :: "u64 \<Rightarrow> u64 \<Rightarrow> vfs \<Rightarrow> vfs" where
  "del_child parent_dp dp w = set_dentry parent_dp (\<lambda>d. d\<lparr>d_child_list := remove1 dp (d_child_list d)\<rparr>) w"

text \<open>The result is 0 when there is no memory.\<close>

definition dentry_alloc :: "u64 \<Rightarrow> u64 \<Rightarrow> string \<Rightarrow> vfs \<Rightarrow> (u64 \<times> vfs) res" where
  "dentry_alloc parent_dp vp path w =
     (let mp = v_mount (w_vnode w vp); (dp, w1) = calloc_mem sizeof_dentry 1 w
      in if dp = 0 then Inr (0, w1)
         else bindr (add_vfs_window dp sizeof_dentry (bits [21, 2, 17]) w1) (\<lambda>w2.
              bindr (vref vp w2) (\<lambda>w3.
                let (pb, w4) = strdup path w3;
                    w5 = set_dentry dp (\<lambda>_. \<lparr>d_refcnt = 1, d_path = path, d_pathbuf = pb, d_vnode = vp, d_mount = mp,
                           d_parent = 0, d_child_list = []\<rparr>) w4
                in bindr (add_child parent_dp dp w5) (\<lambda>w6.
                     let w7 = set_dentry dp (\<lambda>d. d\<lparr>d_parent := parent_dp\<rparr>) w6
                     in Inr (dp, hash_insert dp mp path (vn_add_name vp dp w7))))))"

text \<open>The search stops at the first entry that matches; a path that could not be copied is \<^verbatim>\<open>NULL\<close>.\<close>

fun find_entry :: "u64 \<Rightarrow> string \<Rightarrow> vfs \<Rightarrow> u64 list \<Rightarrow> u64 res" where
  "find_entry mp path w [] = Inr 0"
| "find_entry mp path w (dp # dps) =
     (if d_mount (w_dentry w dp) = mp
      then if d_pathbuf (w_dentry w dp) = 0 then Inl Undef
           else if take PATH_MAX (d_path (w_dentry w dp)) = take PATH_MAX path then Inr dp
           else find_entry mp path w dps
      else find_entry mp path w dps)"

definition dentry_lookup :: "u64 \<Rightarrow> string \<Rightarrow> vfs \<Rightarrow> (u64 \<times> vfs) res" where
  "dentry_lookup mp path w =
     bindr (find_entry mp path w (dentry_hash_table w (dentry_hash mp path))) (\<lambda>dp.
       if dp = 0 then Inr (0, w)
       else Inr (dp, set_dentry dp (\<lambda>d. d\<lparr>d_refcnt := d_refcnt d + 1\<rparr>) w))"

definition dentry_children_remove :: "u64 \<Rightarrow> vfs \<Rightarrow> vfs res" where
  "dentry_children_remove dp w =
     iterr (\<lambda>c w. bindr (guardr (c \<noteq> 0 \<and> d_refcnt (w_dentry w c) > 0) Assert) (\<lambda>_. hlist_del c w))
       (d_child_list (w_dentry w dp)) w"

definition dentry_remove :: "u64 \<Rightarrow> vfs \<Rightarrow> vfs res" where
  "dentry_remove dp w = bindr (hlist_del dp w) (\<lambda>w1. Inr (w1\<lparr>dentry_fake := dp # dentry_fake w1\<rparr>))"

section \<open>Releasing an entry\<close>

text \<open>The steps before and after the release of the parent.\<close>

definition drele_unlink :: "u64 \<Rightarrow> vfs \<Rightarrow> vfs res" where
  "drele_unlink dp w =
     bindr (hlist_del dp w) (\<lambda>w1.
     bindr (remove_vfs_window (d_vnode (w_dentry w1 dp)) w1) (\<lambda>w2.
       Inr (vn_del_name (d_vnode (w_dentry w2 dp)) dp w2)))"

definition drele_free :: "(u64 \<Rightarrow> vfs \<Rightarrow> vfs res) \<Rightarrow> u64 \<Rightarrow> vfs \<Rightarrow> vfs res" where
  "drele_free inactive dp w =
     bindr (vrele inactive (d_vnode (w_dentry w dp)) w) (\<lambda>w1.
     bindr (remove_vfs_window dp w1) (\<lambda>w2.
     bindr (free_mem (d_pathbuf (w_dentry w2 dp)) w2) (free_mem dp)))"

lemma hlist_del_dentry: "hlist_del dp w = Inr w' \<Longrightarrow> w_dentry w' = w_dentry w"
  by (auto simp: hlist_del_def split: option.splits if_splits)

lemma remove_vfs_window_dentry: "remove_vfs_window p w = Inr w' \<Longrightarrow> w_dentry w' = w_dentry w"
  by (auto simp: remove_vfs_window_def bindr_def split: sum.splits)

lemma drele_unlink_dentry: "drele_unlink dp w = Inr w' \<Longrightarrow> w_dentry w' = w_dentry w"
  by (auto simp: drele_unlink_def bindr_def vn_del_name_def split: sum.splits
      dest!: hlist_del_dentry remove_vfs_window_dentry)

text \<open>
  The recursion to the parent ends: each step takes the reference count of one more entry from
  1 to 0, and an entry whose count is 0 stops the recursion.
\<close>

definition counted :: "vfs \<Rightarrow> u64 set" where
  "counted w = {dp. d_refcnt (w_dentry w dp) > 0}"

lemma del_child_refcnt: "d_refcnt (w_dentry (del_child p dp w) x) = d_refcnt (w_dentry w x)"
  by (simp add: del_child_def)

lemma counted_less:
  assumes "d_refcnt (w_dentry w dp) > 0" "drele_unlink dp w1 = Inr w2"
    and w1: "w1 = set_dentry dp (\<lambda>d. d\<lparr>d_refcnt := d_refcnt d - 1\<rparr>) w" and z: "d_refcnt (w_dentry w1 dp) = 0"
  shows "card (counted (del_child p c w2)) < card (counted w)"
proof (rule psubset_card_mono)
  have "counted (del_child p c w2) = counted w1"
    unfolding counted_def del_child_refcnt drele_unlink_dentry [OF assms(2)] by (rule refl)
  moreover have "dp \<notin> counted w1" unfolding counted_def using z by simp
  moreover have "dp \<in> counted w" unfolding counted_def using assms(1) by simp
  moreover have "counted w1 \<subseteq> counted w" unfolding counted_def w1 by (auto split: if_splits)
  ultimately show "counted (del_child p c w2) \<subset> counted w" by blast
qed simp

function drele :: "(u64 \<Rightarrow> vfs \<Rightarrow> vfs res) \<Rightarrow> u64 \<Rightarrow> vfs \<Rightarrow> vfs res" where
  "drele inactive dp w =
     (if dp = 0 \<or> \<not> d_refcnt (w_dentry w dp) > 0 then Inl Assert
      else let w1 = set_dentry dp (\<lambda>d. d\<lparr>d_refcnt := d_refcnt d - 1\<rparr>) w
           in if d_refcnt (w_dentry w1 dp) \<noteq> 0 then Inr w1
              else case drele_unlink dp w1 of
                     Inl e \<Rightarrow> Inl e
                   | Inr w2 \<Rightarrow>
                       bindr (if d_parent (w_dentry w2 dp) \<noteq> 0
                              then drele inactive (d_parent (w_dentry w2 dp)) (del_child (d_parent (w_dentry w2 dp)) dp w2)
                              else Inr w2) (drele_free inactive dp))"
  by pat_completeness auto
termination
proof (relation "measure (\<lambda>(_, _, w). card (counted w))")
  fix inactive :: "u64 \<Rightarrow> vfs \<Rightarrow> vfs res" and dp and w w1 w2 :: vfs
  assume a: "\<not> (dp = 0 \<or> \<not> d_refcnt (w_dentry w dp) > 0)"
    and w1: "w1 = set_dentry dp (\<lambda>d. d\<lparr>d_refcnt := d_refcnt d - 1\<rparr>) w"
    and z: "\<not> d_refcnt (w_dentry w1 dp) \<noteq> 0" and u: "drele_unlink dp w1 = Inr w2"
  have "card (counted (del_child (d_parent (w_dentry w2 dp)) dp w2)) < card (counted w)"
    using a z by (intro counted_less [OF _ u w1]) simp_all
  then show "((inactive, d_parent (w_dentry w2 dp), del_child (d_parent (w_dentry w2 dp)) dp w2), inactive, dp, w)
      \<in> measure (\<lambda>(_, _, w). card (counted w))" by simp
qed simp

declare drele.simps [simp del]

definition dentry_move :: "(u64 \<Rightarrow> vfs \<Rightarrow> vfs res) \<Rightarrow> u64 \<Rightarrow> u64 \<Rightarrow> string \<Rightarrow> vfs \<Rightarrow> vfs res" where
  "dentry_move inactive dp parent_dp path w =
     (let old_pdp = d_parent (w_dentry w dp); old_path = d_pathbuf (w_dentry w dp);
          w1 = (if old_pdp \<noteq> 0 then del_child old_pdp dp w else w)
      in bindr (add_child parent_dp dp w1) (\<lambda>w2.
         bindr (dentry_children_remove dp w2) (\<lambda>w3.
         bindr (hlist_del dp w3) (\<lambda>w4.
           let (pb, w5) = strdup path w4;
               w6 = set_dentry dp (\<lambda>d. d\<lparr>d_path := path, d_pathbuf := pb, d_parent := parent_dp\<rparr>) w5;
               w7 = hash_insert dp (d_mount (w_dentry w6 dp)) path w6
           in bindr (if old_pdp \<noteq> 0 then drele inactive old_pdp w7 else Inr w7) (free_mem old_path)))))"

definition dentry_init :: "vfs \<Rightarrow> vfs" where
  "dentry_init w = w\<lparr>dentry_hash_table := (\<lambda>h. if h < DENTRY_BUCKETS then [] else dentry_hash_table w h)\<rparr>"

end
