(* ===== verification/Dentry_Cache.thy ===== *)
theory Dentry_Cache
  imports Dentry Ramfs_Dirs
begin

text \<open>
  The hash table of dentries as a map from mount point and path to a dentry: insertion, look-up
  and removal on the lists of the table implement those of the map.
\<close>

section \<open>The map\<close>

definition entry_key :: "vfs \<Rightarrow> u64 \<Rightarrow> u64 \<times> string" where
  "entry_key w dp = (d_mount (w_dentry w dp), d_path (w_dentry w dp))"

definition bucket :: "u64 \<times> string \<Rightarrow> nat" where
  "bucket k = dentry_hash (fst k) (snd k)"

definition cached :: "vfs \<Rightarrow> u64 \<times> string \<Rightarrow> u64 option" where
  "cached w k = find (\<lambda>dp. entry_key w dp = k) (dentry_hash_table w (bucket k))"

text \<open>Every entry is in the list of its hash value, under a path of its own that could be copied.\<close>

definition entry_ok :: "vfs \<Rightarrow> nat \<Rightarrow> u64 \<Rightarrow> bool" where
  "entry_ok w h dp \<longleftrightarrow> dp \<noteq> 0 \<and> d_pathbuf (w_dentry w dp) \<noteq> 0 \<and> length (d_path (w_dentry w dp)) < PATH_MAX \<and>
     h = bucket (entry_key w dp)"

definition cache_ok :: "vfs \<Rightarrow> bool" where
  "cache_ok w \<longleftrightarrow> (\<forall>h. (\<forall>dp \<in> set (dentry_hash_table w h). entry_ok w h dp) \<and>
     distinct (map (entry_key w) (dentry_hash_table w h)))"

lemma cache_okD:
  assumes "cache_ok w"
  shows "dp \<in> set (dentry_hash_table w h) \<Longrightarrow> entry_ok w h dp" "distinct (map (entry_key w) (dentry_hash_table w h))"
  using assms unfolding cache_ok_def by blast+

lemma unat_and_31: "unat (x AND (31 :: u64)) < 32"
proof -
  have "unat (x AND (31 :: u64)) \<le> unat (31 :: u64)" using word_and_le1 [of x "31 :: u64"] unfolding word_le_nat_alt .
  then show ?thesis by simp
qed

lemma bucket_less: "bucket k < DENTRY_BUCKETS"
proof -
  have "of_nat 32 - 1 = (31 :: u64)" by simp
  then show ?thesis unfolding bucket_def dentry_hash_def DENTRY_BUCKETS_def Let_def by (simp only: unat_and_31)
qed

lemma find_unique:
  assumes "x \<in> set xs" "P x" "\<And>y. y \<in> set xs \<Longrightarrow> P y \<Longrightarrow> y = x"
  shows "find P xs = Some x"
  using assms
proof (induction xs)
  case (Cons a xs)
  show ?case
  proof (cases "P a")
    case True
    then have "a = x" by (rule Cons.prems(3) [rotated]) simp
    with True show ?thesis by simp
  next
    case False
    then have "x \<in> set xs" using Cons.prems(1,2) by auto
    then have "find P xs = Some x" 
    proof (rule Cons.IH [OF _ Cons.prems(2)])
      fix y
      assume "y \<in> set xs" "P y"
      then show "y = x" by (intro Cons.prems(3)) (rule list.set_intros(2))
    qed
    with False show ?thesis by simp
  qed
qed simp

lemma find_key:
  assumes "distinct (map f xs)" "x \<in> set xs"
  shows "find (\<lambda>y. f y = f x) xs = Some x"
proof (rule find_unique [OF assms(2) refl])
  fix y
  assume "y \<in> set xs" "f y = f x"
  with assms show "y = x" unfolding distinct_map by (blast dest: inj_onD)
qed

lemma cached_iff:
  assumes "cache_ok w"
  shows "cached w k = Some dp \<longleftrightarrow> dp \<in> set (dentry_hash_table w (bucket k)) \<and> entry_key w dp = k"
proof
  assume "cached w k = Some dp"
  then show "dp \<in> set (dentry_hash_table w (bucket k)) \<and> entry_key w dp = k"
    unfolding cached_def by (auto simp: find_Some_iff)
next
  assume a: "dp \<in> set (dentry_hash_table w (bucket k)) \<and> entry_key w dp = k"
  have "find (\<lambda>y. entry_key w y = entry_key w dp) (dentry_hash_table w (bucket k)) = Some dp"
    by (rule find_key [OF cache_okD(2) [OF assms]]) (use a in simp)
  then show "cached w k = Some dp" unfolding cached_def using a by simp
qed

section \<open>Look-up\<close>

lemma find_entry_cached:
  assumes "\<And>dp. dp \<in> set dps \<Longrightarrow> entry_ok w h dp" "length path < PATH_MAX"
  shows "find_entry mp path w dps = Inr (case find (\<lambda>dp. entry_key w dp = (mp, path)) dps of None \<Rightarrow> 0 | Some dp \<Rightarrow> dp)"
  using assms(1)
proof (induction dps)
  case (Cons dp dps)
  have ok: "entry_ok w h dp" using Cons.prems by simp
  have "take PATH_MAX (d_path (w_dentry w dp)) = d_path (w_dentry w dp)" "take PATH_MAX path = path"
    using ok assms(2) by (simp_all add: entry_ok_def)
  then show ?case using Cons ok by (auto simp: entry_key_def entry_ok_def)
qed simp

lemma dentry_lookup_cached:
  assumes "cache_ok w" "length path < PATH_MAX"
  shows "dentry_lookup mp path w = Inr (case cached w (mp, path) of None \<Rightarrow> (0, w)
    | Some dp \<Rightarrow> (dp, set_dentry dp (\<lambda>d. d\<lparr>d_refcnt := d_refcnt d + 1\<rparr>) w))"
proof -
  have f: "find_entry mp path w (dentry_hash_table w (dentry_hash mp path)) =
      Inr (case cached w (mp, path) of None \<Rightarrow> 0 | Some dp \<Rightarrow> dp)"
    using find_entry_cached [OF cache_okD(1) [OF assms(1)] assms(2), where mp = mp]
    unfolding cached_def bucket_def fst_conv snd_conv .
  show ?thesis
  proof (cases "cached w (mp, path)")
    case (Some dp)
    then have "dp \<in> set (dentry_hash_table w (bucket (mp, path)))" using cached_iff [OF assms(1)] by blast
    then have "dp \<noteq> 0" using cache_okD(1) [OF assms(1)] unfolding entry_ok_def by blast
    then show ?thesis using f Some by (simp add: dentry_lookup_def)
  qed (use f in \<open>simp add: dentry_lookup_def\<close>)
qed

lemma same_entries:
  assumes "dentry_hash_table w' = dentry_hash_table w"
    and "\<And>dp. entry_key w' dp = entry_key w dp \<and> d_pathbuf (w_dentry w' dp) = d_pathbuf (w_dentry w dp) \<and>
      d_path (w_dentry w' dp) = d_path (w_dentry w dp)"
  shows "cached w' = cached w" "cache_ok w' = cache_ok w"
proof -
  have k: "entry_key w' = entry_key w" using assms(2) by (intro ext) blast
  show "cached w' = cached w" by (intro ext) (simp add: cached_def assms(1) k)
  have "entry_ok w' h dp = entry_ok w h dp" for h dp using assms(2) [of dp] by (simp add: entry_ok_def)
  then show "cache_ok w' = cache_ok w" by (simp add: cache_ok_def assms(1) k)
qed

lemma refcnt_same_entries:
  fixes w n dp
  defines "w' \<equiv> set_dentry dp (\<lambda>d. d\<lparr>d_refcnt := n\<rparr>) w"
  shows "cached w' = cached w" "cache_ok w' = cache_ok w"
proof -
  have t: "dentry_hash_table w' = dentry_hash_table w" by (simp add: w'_def)
  have "entry_key w' x = entry_key w x \<and> d_pathbuf (w_dentry w' x) = d_pathbuf (w_dentry w x) \<and>
      d_path (w_dentry w' x) = d_path (w_dentry w x)" for x
    by (simp add: w'_def entry_key_def)
  then show "cached w' = cached w" "cache_ok w' = cache_ok w" by (rule same_entries [OF t])+
qed

section \<open>Removal\<close>

lemma hlist_del_bucket:
  assumes "cache_ok w" "dp \<in> set (dentry_hash_table w h)"
  shows "hlist_del dp w = Inr (w\<lparr>dentry_hash_table := (dentry_hash_table w)(h := remove1 dp (dentry_hash_table w h))\<rparr>)"
proof -
  have h: "h = bucket (entry_key w dp)" using cache_okD(1) [OF assms] by (simp add: entry_ok_def)
  have u: "h' = h" if "dp \<in> set (dentry_hash_table w h')" for h'
    using cache_okD(1) [OF assms(1) that] h unfolding entry_ok_def by simp
  have "h \<in> set [0..<DENTRY_BUCKETS]" using bucket_less [of "entry_key w dp"] unfolding h [symmetric] by simp
  then have "find (\<lambda>h. dp \<in> set (dentry_hash_table w h)) [0..<DENTRY_BUCKETS] = Some h"
    using assms(2) u by (intro find_unique)
  then show ?thesis by (simp add: hlist_del_def)
qed

text \<open>Taking a dentry out of its list deletes its key from the map.\<close>

lemma remove_entry:
  assumes "cache_ok w" "dp \<in> set (dentry_hash_table w h)" "w_dentry w' = w_dentry w"
    and "dentry_hash_table w' = (dentry_hash_table w)(h := remove1 dp (dentry_hash_table w h))"
  shows "cache_ok w'" "cached w' = (cached w)(entry_key w dp := None)"
proof -
  have k: "entry_key w' = entry_key w" by (intro ext) (simp add: entry_key_def assms(3))
  have ok: "entry_ok w' = entry_ok w" by (intro ext) (simp add: entry_ok_def k assms(3))
  have d: "distinct (dentry_hash_table w h)" "distinct (map (entry_key w) (dentry_hash_table w h))"
    using cache_okD(2) [OF assms(1)] by (auto simp: distinct_map)
  have s: "set (dentry_hash_table w' h') = set (dentry_hash_table w h') - (if h' = h then {dp} else {})" for h'
    using d(1) by (simp add: assms(4))
  have "distinct (map (entry_key w) (remove1 dp (dentry_hash_table w h)))"
    using d by (auto simp: distinct_map intro: inj_on_subset)
  then have "distinct (map (entry_key w) (dentry_hash_table w' h'))" for h'
    using cache_okD(2) [OF assms(1)] by (simp add: assms(4))
  then show c: "cache_ok w'" using cache_okD(1) [OF assms(1)] s unfolding cache_ok_def ok k by auto
  have h: "h = bucket (entry_key w dp)" using cache_okD(1) [OF assms(1,2)] by (simp add: entry_ok_def)
  show "cached w' = (cached w)(entry_key w dp := None)"
  proof
    fix q
    have "cached w' q = Some x \<longleftrightarrow> ((cached w)(entry_key w dp := None)) q = Some x" for x
    proof -
      have "cached w' q = Some x \<longleftrightarrow> x \<in> set (dentry_hash_table w' (bucket q)) \<and> entry_key w x = q"
        using cached_iff [OF c, of q x] by (simp add: k)
      also have "\<dots> \<longleftrightarrow> x \<in> set (dentry_hash_table w (bucket q)) \<and> entry_key w x = q \<and> q \<noteq> entry_key w dp"
        using s [of "bucket q"] h inj_onD [of "entry_key w" "set (dentry_hash_table w h)" x dp] d(2) assms(2)
        by (auto simp: distinct_map split: if_splits)
      finally show ?thesis using cached_iff [OF assms(1), of q x] by auto
    qed
    then show "cached w' q = ((cached w)(entry_key w dp := None)) q" by (metis not_None_eq)
  qed
qed

section \<open>Insertion\<close>

definition same_names :: "vfs \<Rightarrow> vfs \<Rightarrow> bool" where
  "same_names w w' \<longleftrightarrow> dentry_hash_table w' = dentry_hash_table w \<and>
     (\<forall>x. entry_key w' x = entry_key w x \<and> d_pathbuf (w_dentry w' x) = d_pathbuf (w_dentry w x))"

lemma same_names_trans: "same_names a b \<Longrightarrow> same_names b c \<Longrightarrow> same_names a c"
  by (simp add: same_names_def)

lemma same_namesI: "dentry_hash_table w' = dentry_hash_table w \<Longrightarrow> w_dentry w' = w_dentry w \<Longrightarrow> same_names w w'"
  by (simp add: same_names_def entry_key_def)

lemma calloc_same_names: "calloc_mem k n w = (p, w') \<Longrightarrow> same_names w w'"
  by (intro same_namesI) (auto simp: calloc_mem_def alloc_mem_def Let_def split: list.splits if_splits prod.splits)

lemma strdup_same_names: "strdup s w = (p, w') \<Longrightarrow> same_names w w'"
  by (intro same_namesI) (auto simp: strdup_def strndup_def alloc_mem_def Let_def split: list.splits if_splits prod.splits)

lemma add_window_same_names: "add_vfs_window p n msk w = Inr w' \<Longrightarrow> same_names w w'"
  by (intro same_namesI) (auto simp: add_vfs_window_def res_simps)

lemma vref_same_names: "vref vp w = Inr w' \<Longrightarrow> same_names w w'"
  by (intro same_namesI) (auto simp: vref_def split: if_splits)

lemma dref_same_names: "dref dp w = Inr w' \<Longrightarrow> same_names w w'"
  by (auto simp: dref_def same_names_def entry_key_def split: if_splits)

lemma add_child_same_names:
  assumes "add_child pdp dp w = Inr w'"
  shows "same_names w w'"
proof (cases "pdp = 0")
  case True
  then show ?thesis using assms by (simp add: add_child_def same_names_def)
next
  case False
  then obtain w1 where w1: "dref pdp w = Inr w1"
      "w' = set_dentry pdp (\<lambda>d. d\<lparr>d_child_list := dp # d_child_list d\<rparr>) w1"
    using assms by (auto simp: add_child_def res_simps)
  have "same_names w1 w'" unfolding w1(2) by (simp add: same_names_def entry_key_def)
  then show ?thesis by (rule same_names_trans [OF dref_same_names [OF w1(1)]])
qed

text \<open>A new dentry: the rest of the cache keeps its names, and the entry is at the head of its list.\<close>

lemma dentry_alloc_names:
  assumes "dentry_alloc pdp vp path w = Inr (dp, w')" "dp \<noteq> 0"
  shows "dentry_hash_table w' = (dentry_hash_table w)(bucket (v_mount (w_vnode w vp), path) :=
      dp # dentry_hash_table w (bucket (v_mount (w_vnode w vp), path)))"
    and "entry_key w' dp = (v_mount (w_vnode w vp), path)"
    and "x \<noteq> dp \<Longrightarrow> entry_key w' x = entry_key w x \<and> d_pathbuf (w_dentry w' x) = d_pathbuf (w_dentry w x)"
proof -
  define mp where "mp = v_mount (w_vnode w vp)"
  obtain dp' w1 where c: "calloc_mem sizeof_dentry 1 w = (dp', w1)" by fastforce
  have "dp' \<noteq> 0" using assms c by (auto simp: dentry_alloc_def Let_def split: if_splits)
  then obtain w2 w3 where s: "add_vfs_window dp' sizeof_dentry (bits [21, 2, 17]) w1 = Inr w2" "vref vp w2 = Inr w3"
      and r: "(let (pb, w4) = strdup path w3;
             w5 = set_dentry dp' (\<lambda>_. \<lparr>d_refcnt = 1, d_path = path, d_pathbuf = pb, d_vnode = vp, d_mount = mp,
                    d_parent = 0, d_child_list = []\<rparr>) w4
         in bindr (add_child pdp dp' w5) (\<lambda>w6.
              let w7 = set_dentry dp' (\<lambda>d. d\<lparr>d_parent := pdp\<rparr>) w6
              in Inr (dp', hash_insert dp' mp path (vn_add_name vp dp' w7)))) = Inr (dp, w')"
    using assms(1) c unfolding dentry_alloc_def Let_def mp_def by (auto simp: res_simps)
  obtain pb w4 where d: "strdup path w3 = (pb, w4)" by fastforce
  define w5 where "w5 = set_dentry dp' (\<lambda>_. \<lparr>d_refcnt = 1, d_path = path, d_pathbuf = pb, d_vnode = vp, d_mount = mp,
      d_parent = 0, d_child_list = []\<rparr>) w4"
  obtain w6 where a: "add_child pdp dp' w5 = Inr w6" and dp: "dp = dp'"
      and w': "w' = hash_insert dp' mp path (vn_add_name vp dp' (set_dentry dp' (\<lambda>d. d\<lparr>d_parent := pdp\<rparr>) w6))"
    using r unfolding d w5_def [symmetric] by (auto simp: Let_def res_simps w5_def)
  have k4: "same_names w w4"
    using calloc_same_names [OF c] add_window_same_names [OF s(1)] vref_same_names [OF s(2)] strdup_same_names [OF d]
    by (blast intro: same_names_trans)
  have k6: "same_names w5 w6" by (rule add_child_same_names [OF a])
  have f: "entry_key w' x = entry_key w6 x" "d_pathbuf (w_dentry w' x) = d_pathbuf (w_dentry w6 x)" for x
    unfolding w' by (simp_all add: entry_key_def hash_insert_def vn_add_name_def)
  have t: "dentry_hash_table w6 = dentry_hash_table w"
    using k4 k6 unfolding same_names_def w5_def by simp
  show "dentry_hash_table w' = (dentry_hash_table w)(bucket (v_mount (w_vnode w vp), path) :=
      dp # dentry_hash_table w (bucket (v_mount (w_vnode w vp), path)))"
    unfolding w' dp by (simp add: hash_insert_def vn_add_name_def t bucket_def mp_def)
  have "entry_key w6 dp = (mp, path)" using k6 unfolding same_names_def dp w5_def by (simp add: entry_key_def)
  then show "entry_key w' dp = (v_mount (w_vnode w vp), path)" using f by (simp add: mp_def)
  show "entry_key w' x = entry_key w x \<and> d_pathbuf (w_dentry w' x) = d_pathbuf (w_dentry w x)" if "x \<noteq> dp"
    using k4 k6 that f [of x] unfolding same_names_def w5_def dp by (simp add: entry_key_def)
qed

lemma insert_entry:
  assumes "cache_ok w" "dentry_hash_table w' = (dentry_hash_table w)(bucket k := dp # dentry_hash_table w (bucket k))"
    and k: "entry_key w' dp = k"
    and same: "\<And>x. x \<noteq> dp \<Longrightarrow> entry_key w' x = entry_key w x \<and> d_pathbuf (w_dentry w' x) = d_pathbuf (w_dentry w x)"
    and "dp \<noteq> 0" "d_pathbuf (w_dentry w' dp) \<noteq> 0" "length (snd k) < PATH_MAX"
    and fresh: "\<And>h. dp \<notin> set (dentry_hash_table w h)" and "cached w k = None"
  shows "cache_ok w'" "cached w' = (cached w)(k \<mapsto> dp)"
proof -
  have sk: "entry_key w' x = entry_key w x" if "x \<in> set (dentry_hash_table w h)" for x h
  proof -
    have "x \<noteq> dp" using that fresh [of h] by blast
    then show ?thesis by (rule same [THEN conjunct1])
  qed
  have keys: "map (entry_key w') (dentry_hash_table w h) = map (entry_key w) (dentry_hash_table w h)" for h
    by (rule map_cong [OF refl]) (rule sk)
  have old: "entry_ok w' h x" if "x \<in> set (dentry_hash_table w h)" for h x
  proof -
    have "x \<noteq> dp" using that fresh by blast
    then show ?thesis using cache_okD(1) [OF assms(1) that] same [of x] unfolding entry_ok_def by (simp add: entry_key_def)
  qed
  have "length (d_path (w_dentry w' dp)) < PATH_MAX" using assms(7) k by (auto simp: entry_key_def)
  then have new: "entry_ok w' (bucket k) dp" unfolding entry_ok_def using assms(5,6) k by simp
  have "k \<notin> set (map (entry_key w) (dentry_hash_table w (bucket k)))"
    using assms(9) unfolding cached_def by (auto simp: find_None_iff)
  then have "distinct (map (entry_key w') (dentry_hash_table w' h))" for h
    unfolding assms(2) fun_upd_apply using cache_okD(2) [OF assms(1), of h]
    by (simp only: list.map(2) keys k distinct.simps simp_thms split: if_split) blast
  moreover have "entry_ok w' h x" if "x \<in> set (dentry_hash_table w' h)" for h x
    using that old new by (auto simp: assms(2) split: if_splits)
  ultimately show c: "cache_ok w'" unfolding cache_ok_def by blast
  show "cached w' = (cached w)(k \<mapsto> dp)"
  proof
    fix q
    have "find (\<lambda>x. entry_key w' x = q) (dentry_hash_table w (bucket q)) = cached w q"
      unfolding cached_def by (rule find_cong [OF refl]) (simp add: sk)
    then show "cached w' q = ((cached w)(k \<mapsto> dp)) q"
      unfolding cached_def assms(2) using k by auto
  qed
qed

section \<open>The cache implements the map\<close>

text \<open>
  C37 (the dentry cache is a map): on a well-formed cache, \<^verbatim>\<open>dentry_lookup\<close> returns the entry that the
  map holds for the mount point and the path and takes a reference to it; \<^verbatim>\<open>dentry_alloc\<close> adds the
  new entry under its name, and \<^verbatim>\<open>dentry_remove\<close> deletes the entry from the map. The cache stays
  well-formed.
\<close>

theorem dentry_cache_refines_map:
  assumes "cache_ok w" "length path < PATH_MAX"
  shows "dentry_lookup mp path w = Inr (case cached w (mp, path) of None \<Rightarrow> (0, w)
      | Some dp \<Rightarrow> (dp, set_dentry dp (\<lambda>d. d\<lparr>d_refcnt := d_refcnt d + 1\<rparr>) w)) \<and>
    (\<forall>pdp vp dp w'. dentry_alloc pdp vp path w = Inr (dp, w') \<and> dp \<noteq> 0 \<and> d_pathbuf (w_dentry w' dp) \<noteq> 0 \<and>
       v_mount (w_vnode w vp) = mp \<and> cached w (mp, path) = None \<and> (\<forall>h. dp \<notin> set (dentry_hash_table w h)) \<longrightarrow>
       cache_ok w' \<and> cached w' = (cached w)((mp, path) \<mapsto> dp)) \<and>
    (\<forall>dp. cached w (mp, path) = Some dp \<longrightarrow>
       (\<exists>w'. dentry_remove dp w = Inr w' \<and> cache_ok w' \<and> cached w' = (cached w)((mp, path) := None)))"
proof (intro conjI allI impI)
  show "dentry_lookup mp path w = Inr (case cached w (mp, path) of None \<Rightarrow> (0, w)
      | Some dp \<Rightarrow> (dp, set_dentry dp (\<lambda>d. d\<lparr>d_refcnt := d_refcnt d + 1\<rparr>) w))"
    by (rule dentry_lookup_cached [OF assms])
next
  fix pdp vp dp w'
  assume "dentry_alloc pdp vp path w = Inr (dp, w') \<and> dp \<noteq> 0 \<and> d_pathbuf (w_dentry w' dp) \<noteq> 0 \<and>
    v_mount (w_vnode w vp) = mp \<and> cached w (mp, path) = None \<and> (\<forall>h. dp \<notin> set (dentry_hash_table w h))"
  then have a: "dentry_alloc pdp vp path w = Inr (dp, w')" "dp \<noteq> 0" "d_pathbuf (w_dentry w' dp) \<noteq> 0"
    and m: "v_mount (w_vnode w vp) = mp" and n: "cached w (mp, path) = None" "\<And>h. dp \<notin> set (dentry_hash_table w h)" by blast+
  have l: "length (snd (mp, path)) < PATH_MAX" using assms(2) by simp
  note names = dentry_alloc_names [OF a(1,2), unfolded m]
  show "cache_ok w'" "cached w' = (cached w)((mp, path) \<mapsto> dp)"
    using insert_entry [OF assms(1) names(1,2,3) a(2,3) l n(2,1)] by blast+
next
  fix dp
  assume "cached w (mp, path) = Some dp"
  then have dp: "dp \<in> set (dentry_hash_table w (bucket (mp, path)))" "entry_key w dp = (mp, path)"
    using cached_iff [OF assms(1)] by blast+
  define w' where "w' = w\<lparr>dentry_hash_table := (dentry_hash_table w)(bucket (mp, path) :=
      remove1 dp (dentry_hash_table w (bucket (mp, path)))), dentry_fake := dp # dentry_fake w\<rparr>"
  have "dentry_remove dp w = Inr w'" unfolding dentry_remove_def hlist_del_bucket [OF assms(1) dp(1)] by (simp add: w'_def)
  moreover have "cache_ok w'" "cached w' = (cached w)((mp, path) := None)"
    using remove_entry [OF assms(1) dp(1), of w'] unfolding dp(2) by (simp_all add: w'_def)
  ultimately show "\<exists>w'. dentry_remove dp w = Inr w' \<and> cache_ok w' \<and> cached w' = (cached w)((mp, path) := None)" by blast
qed

text \<open>The concrete file system with one cached entry, and room for one more window.\<close>

definition ex_dentry :: "string \<Rightarrow> u64 \<Rightarrow> dentry" where
  "ex_dentry path vp = \<lparr>d_refcnt = 1, d_path = path, d_pathbuf = 0x4080, d_vnode = vp, d_mount = 0x3000, d_parent = 0, d_child_list = []\<rparr>"

definition ex_cache :: vfs where
  "ex_cache = ex_vfs\<lparr>vfs_heap_tab := \<lparr>rt_tab = [no_window, no_window], rt_nr_real = 0\<rparr>,
     w_dentry := (w_dentry ex_vfs)(0x4000 := ex_dentry ''/a'' 0x1100),
     dentry_hash_table := (\<lambda>_. [])(bucket (0x3000, ''/a'') := [0x4000])\<rparr>"

lemma ex_cache_ok: "cache_ok ex_cache" "cached ex_cache (0x3000, ''/a'') = Some 0x4000"
  by (simp_all add: cache_ok_def entry_ok_def entry_key_def cached_def ex_cache_def ex_dentry_def PATH_MAX_def)

lemma ex_cache_free: "cached ex_cache (0x3000, ''/b'') = None" "0x200000 \<notin> set (dentry_hash_table ex_cache h)"
  by (simp_all add: cached_def entry_key_def ex_cache_def ex_dentry_def)

lemma ex_cache_alloc: "\<exists>w'. dentry_alloc 0 0x1100 ''/b'' ex_cache = Inr (0x200000, w') \<and> d_pathbuf (w_dentry w' 0x200000) \<noteq> 0"
  by (simp add: dentry_alloc_def ex_cache_def ex_vfs_def ex_vnode_def calloc_mem_def alloc_mem_def add_vfs_window_def
      vfs_ipc_add_heap_def VFS_HEAP_MAX_def no_window_def vref_def strdup_def strndup_def add_child_def hash_insert_def vn_add_name_def)

theorem dentry_cache_refines_map_witness:
  "(\<exists>w'. dentry_lookup 0x3000 ''/a'' ex_cache = Inr (0x4000, w')) \<and>
   (\<exists>w'. dentry_alloc 0 0x1100 ''/b'' ex_cache = Inr (0x200000, w') \<and> cached w' = (cached ex_cache)((0x3000, ''/b'') \<mapsto> 0x200000)) \<and>
   (\<exists>w'. dentry_remove 0x4000 ex_cache = Inr w' \<and> cached w' = (cached ex_cache)((0x3000, ''/a'') := None))"
proof -
  have l: "length ''/a'' < PATH_MAX" "length ''/b'' < PATH_MAX" by (simp_all add: PATH_MAX_def)
  obtain w' where w': "dentry_alloc 0 0x1100 ''/b'' ex_cache = Inr (0x200000, w')" "d_pathbuf (w_dentry w' 0x200000) \<noteq> 0"
    using ex_cache_alloc by blast
  have m: "v_mount (w_vnode ex_cache 0x1100) = 0x3000" by (simp add: ex_cache_def ex_vfs_def ex_vnode_def)
  note a = dentry_cache_refines_map [OF ex_cache_ok(1) l(1), where mp = "0x3000"]
  note b = dentry_cache_refines_map [OF ex_cache_ok(1) l(2), where mp = "0x3000", THEN conjunct2, THEN conjunct1, rule_format,
      of 0 "0x1100" "0x200000" w']
  have "(0x200000 :: u64) \<noteq> 0" by simp
  then have "cached w' = (cached ex_cache)((0x3000, ''/b'') \<mapsto> 0x200000)" using b w' m ex_cache_free by blast
  moreover have "\<exists>w'. dentry_lookup 0x3000 ''/a'' ex_cache = Inr (0x4000, w')" using a [THEN conjunct1] ex_cache_ok(2) by simp
  moreover have "\<exists>w'. dentry_remove 0x4000 ex_cache = Inr w' \<and> cached w' = (cached ex_cache)((0x3000, ''/a'') := None)"
    using a [THEN conjunct2, THEN conjunct2, rule_format, OF ex_cache_ok(2)] by blast
  ultimately show ?thesis using w'(1) by blast
qed

end
