(* ===== verification/Namei.thy ===== *)
theory Namei
  imports Dentry
begin

text \<open>
  From path names to directory entries (\<^verbatim>\<open>vfscore/lookup.c\<close>): the walk along the components of
  a path through the cache and the file system, with symbolic links, and the look-up of the
  directory of a path.
\<close>

section \<open>The environment\<close>

text \<open>
  \<open>e_names\<close> are the names of the file systems in the order of \<^verbatim>\<open>fses\<close>, \<open>e_op\<close> their operations.
  \<open>e_pad f i\<close> is the address of the object on the stack of function \<open>f\<close> that slot \<open>i\<close> of the
  stack window table covers, \<open>e_link\<close> that of the buffer for the target of a link. \<open>e_bsize\<close> is
  the block size of the build, \<open>e_now\<close> the time of the clock, and \<open>e_name\<close> the bytes of a pointer
  that \<^verbatim>\<open>sys_unlink\<close> passes as a name.
\<close>

record env =
  e_names :: "string list"
  e_op :: "nat \<Rightarrow> vfsops"
  e_pad :: "string \<Rightarrow> nat \<Rightarrow> u64"
  e_link :: u64
  e_bsize :: int
  e_now :: timespec
  e_name :: string

text \<open>
  \<^verbatim>\<open>vfscore_vget\<close> copies \<^verbatim>\<open>v_op\<close> of a vnode from its mount point. The vnode of the console, which
  has no mount point, finds its operations under mount point 0.
\<close>

definition fs_op :: "env \<Rightarrow> u64 \<Rightarrow> vfs \<Rightarrow> vfsops" where
  "fs_op E mp w = e_op E (m_op (w_mount w mp))"

definition vn_op :: "env \<Rightarrow> u64 \<Rightarrow> vfs \<Rightarrow> vnops" where
  "vn_op E vp w = vfs_vnops (fs_op E (v_mount (w_vnode w vp)) w)"

definition inactive :: "env \<Rightarrow> u64 \<Rightarrow> vfs \<Rightarrow> vfs res" where
  "inactive E vp w = vop_inactive (vn_op E vp w) vp w"

abbreviation (input) release :: "env \<Rightarrow> u64 \<Rightarrow> vfs \<Rightarrow> vfs res" where
  "release E dp w \<equiv> drele (inactive E) dp w"

definition type_of :: "vfs \<Rightarrow> u64 \<Rightarrow> vtype" where
  "type_of w dp = v_type (w_vnode w (d_vnode (w_dentry w dp)))"

section \<open>Symbolic links\<close>

text \<open>The string in the first \<open>n\<close> bytes at \<open>p\<close>.\<close>

definition cstring :: "mem \<Rightarrow> u64 \<Rightarrow> nat \<Rightarrow> string" where
  "cstring m p n = takeWhile (\<lambda>c. c \<noteq> CHR 0x00) (map (\<lambda>i. char_of (unat (m (p + of_nat i)))) [0..<n])"

text \<open>The result, the number of bytes read and the state.\<close>

definition read_link :: "env \<Rightarrow> u64 \<Rightarrow> u64 \<Rightarrow> nat \<Rightarrow> vfs \<Rightarrow> (int \<times> int \<times> vfs) res" where
  "read_link E vp buf bufsz w =
     (let u = \<lparr>uio_iov = [\<lparr>iov_base = buf, iov_len = of_nat bufsz\<rparr>], uio_iovcnt = 1, uio_offset = 0,
               uio_resid = int bufsz, uio_dir = UIO_READ\<rparr>
      in bindr (vn_lock vp w) (\<lambda>_.
         bindr (vop_readlink (vn_op E vp w) vp u w) (\<lambda>(rc, u', w1).
         bindr (vn_unlock vp w1) (\<lambda>_.
           if rc \<noteq> 0 then Inr (rc, 0, w1) else Inr (0, int bufsz - uio_resid u', w1)))))"

text \<open>
  \<open>fp\<close> is the path that is walked, \<open>node\<close> the path of the link in its file system and \<open>name\<close> its
  last component. The result is the path with the link replaced; the result of \<^verbatim>\<open>path_conv\<close> is
  ignored by the source, and on its error the path stays as it is.
\<close>

definition namei_follow_link ::
  "env \<Rightarrow> u64 \<Rightarrow> string \<Rightarrow> string \<Rightarrow> string \<Rightarrow> nat \<Rightarrow> vfs \<Rightarrow> (int \<times> string \<times> vfs) res" where
  "namei_follow_link E dp node name fp mountpoint_len w =
     bindr (read_link E (d_vnode (w_dentry w dp)) (e_link E) PATH_MAX w) (\<lambda>(error, sz, w1).
       if error \<noteq> 0 then Inr (error, fp, w1)
       else if sz \<ge> int PATH_MAX then Inl Oob
       else let link = cstring (w_mem w1) (e_link E) (nat sz);
                p = drop (mountpoint_len + length node) fp;
                c = length node - length name - 1
            in if link \<noteq> [] \<and> hd link = CHR ''/''
               then Inr (0, strlcpy (strlcat link p PATH_MAX) PATH_MAX, w1)
               else let t = strlcpy p PATH_MAX; node' = strlcpy fp (mountpoint_len + c + 1)
                    in bindr (path_conv node' link) (\<lambda>(rc, full).
                         Inr (0, strlcat (if rc \<noteq> 0 then fp else full) t PATH_MAX, w1)))"

section \<open>The walk\<close>

text \<open>
  One component: the entry \<open>node\<close> of the directory \<open>ddp\<close> from the cache or from the file system.
  The reference to \<open>ddp\<close> is given up.
\<close>

definition namei_step :: "env \<Rightarrow> u64 \<Rightarrow> string \<Rightarrow> string \<Rightarrow> u64 \<Rightarrow> vfs \<Rightarrow> (int \<times> u64 \<times> vfs) res" where
  "namei_step E mp node name ddp w =
     (let dvp = d_vnode (w_dentry w ddp)
      in bindr (vn_lock dvp w) (\<lambda>_.
         bindr (bindr (dentry_lookup mp node w) (\<lambda>(dp, w1).
                  if dp \<noteq> 0 then Inr (0, dp, w1)
                  else bindr (vop_lookup (vn_op E dvp w1) dvp name w1) (\<lambda>(error, vp, w2).
                         if error \<noteq> 0 then Inr (error, 0, w2)
                         else bindr (dentry_alloc ddp vp node w2) (\<lambda>(dp, w3).
                              bindr (vput (inactive E) vp w3) (\<lambda>w4.
                                if dp = 0 then Inr (ENOMEM, 0, w4) else Inr (0, dp, w4)))))) (\<lambda>(error, dp, w5).
         bindr (vn_unlock dvp w5) (\<lambda>_.
         bindr (release E ddp w5) (\<lambda>w6. Inr (error, dp, w6))))))"

text \<open>How a walk ends: with an error, with a dentry, or with a new path after a link.\<close>

datatype walk = Walk_Error int | Walk_Done u64 | Walk_Link string

text \<open>
  \<open>p\<close> is the rest of the path, \<open>node\<close> the path walked so far and \<open>ddp\<close> its dentry; \<open>dp\<close> is the
  dentry that is returned when nothing is left. The path is shorter than the buffer of a name.
\<close>

lemma walk_shorter:
  assumes "p1 = dropWhile (\<lambda>c. c = CHR ''/'') p" "p1 \<noteq> []" "p2 = dropWhile (\<lambda>c. c \<noteq> CHR ''/'') p1"
  shows "length p2 < length p"
proof -
  obtain c cs where p1: "p1 = c # cs" using assms(2) by (cases p1) auto
  have "hd p1 \<noteq> CHR ''/''" using hd_dropWhile [of "\<lambda>c. c = CHR ''/''" p] assms(2) unfolding assms(1) by blast
  then have "c \<noteq> CHR ''/''" using p1 by simp
  then have "p2 = dropWhile (\<lambda>c. c \<noteq> CHR ''/'') cs" using assms(3) p1 by simp
  then have "length p2 < length p1" using length_dropWhile_le [of "\<lambda>c. c \<noteq> CHR ''/''" cs] p1 by simp
  also have "\<dots> \<le> length p" unfolding assms(1) by (rule length_dropWhile_le)
  finally show ?thesis .
qed

function namei_walk ::
  "env \<Rightarrow> u64 \<Rightarrow> nat \<Rightarrow> string \<Rightarrow> string \<Rightarrow> string \<Rightarrow> u64 \<Rightarrow> u64 \<Rightarrow> vfs \<Rightarrow> (walk \<times> vfs) res" where
  "namei_walk E mp mlen fp p node ddp dp w =
     (let p1 = dropWhile (\<lambda>c. c = CHR ''/'') p
      in if p1 = [] then Inr (Walk_Done dp, w)
         else let name = takeWhile (\<lambda>c. c \<noteq> CHR ''/'') p1; p2 = dropWhile (\<lambda>c. c \<noteq> CHR ''/'') p1;
                  node1 = strlcat (strlcat node ''/'' PATH_MAX) name PATH_MAX
              in case namei_step E mp node1 name ddp w of
                   Inl e \<Rightarrow> Inl e
                 | Inr (error, dp1, w1) \<Rightarrow>
                     if error \<noteq> 0 then Inr (Walk_Error error, w1)
                     else if type_of w1 dp1 = VLNK
                     then bindr (namei_follow_link E dp1 node1 name fp mlen w1) (\<lambda>(error, fp', w2).
                            bindr (release E dp1 w2) (\<lambda>w3.
                              Inr (if error \<noteq> 0 then Walk_Error error else Walk_Link fp', w3)))
                     else if p2 \<noteq> [] \<and> type_of w1 dp1 \<noteq> VDIR
                     then bindr (release E dp1 w1) (\<lambda>w2. Inr (Walk_Error ENOTDIR, w2))
                     else namei_walk E mp mlen fp p2 node1 dp1 dp1 w1)"
  by pat_completeness auto
termination
proof (relation "measure (\<lambda>(_, _, _, _, p, _, _, _, _). length p)", goal_cases)
  case (2 E mp mlen fp p node ddp dp w p1 name p2 node1 r error x dp1 w1)
  then have "length p2 < length p" by (intro walk_shorter)
  then show ?case by simp
qed simp

declare namei_walk.simps [simp del]

definition MAXSYMLINKS :: nat where "MAXSYMLINKS = 20"

text \<open>\<open>n\<close> is the number of links that may still be followed before the error. \<^verbatim>\<open>UK_CRASH\<close> stops.\<close>

fun namei_loop :: "env \<Rightarrow> nat \<Rightarrow> string \<Rightarrow> vfs \<Rightarrow> (int \<times> u64 \<times> vfs) res" where
  "namei_loop E 0 fp w = Inr (ELOOP, 0, w)"
| "namei_loop E (Suc n) fp w =
     (case vfs_findroot fp w of
        None \<Rightarrow> Inr (ENOTDIR, 0, w)
      | Some (mp, p) \<Rightarrow>
          let mountpoint_len = length fp - length p - 1
          in bindr (dentry_lookup mp (strlcat ''/'' p PATH_MAX) w) (\<lambda>(dp, w1).
               if dp \<noteq> 0 then Inr (0, dp, w1)
               else let ddp = m_root (w_mount w1 mp)
                    in bindr (guardr (ddp \<noteq> 0) Assert) (\<lambda>_.
                       bindr (dref ddp w1) (\<lambda>w2.
                       bindr (namei_walk E mp mountpoint_len fp p [] ddp 0 w2) (\<lambda>(r, w3).
                         case r of
                           Walk_Error error \<Rightarrow> Inr (error, 0, w3)
                         | Walk_Done dp \<Rightarrow> Inr (0, dp, w3)
                         | Walk_Link fp' \<Rightarrow> namei_loop E n fp' w3)))))"

definition namei :: "env \<Rightarrow> string \<Rightarrow> vfs \<Rightarrow> (int \<times> u64 \<times> vfs) res" where
  "namei E path w =
     namei_loop E MAXSYMLINKS (strlcpy path PATH_MAX)
       (vfs_stack_window 4 (e_pad E ''namei'' 4) (vfs_stack_window 3 (e_pad E ''namei'' 3) w))"

section \<open>The last component and its directory\<close>

text \<open>What follows the last slash (\<^verbatim>\<open>strrchr\<close>), and what precedes it.\<close>

definition last_comp :: "string \<Rightarrow> string" where
  "last_comp s = rev (takeWhile (\<lambda>c. c \<noteq> CHR ''/'') (rev s))"

definition dir_part :: "string \<Rightarrow> string" where
  "dir_part s = take (length s - length (last_comp s) - 1) s"

definition namei_last_nofollow :: "env \<Rightarrow> string \<Rightarrow> u64 \<Rightarrow> vfs \<Rightarrow> (int \<times> u64 \<times> vfs) res" where
  "namei_last_nofollow E path ddp w0 =
     (let w = vfs_stack_window 3 (e_pad E ''namei_last_nofollow'' 3) w0
      in if path = [] \<or> hd path \<noteq> CHR ''/'' then Inr (ENOTDIR, 0, w)
         else case vfs_findroot path w of
                None \<Rightarrow> Inr (ENOTDIR, 0, w)
              | Some (mp, p) \<Rightarrow>
                  let node0 = strlcat ''/'' p PATH_MAX;
                      node = (if length node0 - 1 \<noteq> 0 \<and> last node0 = CHR ''/'' then butlast node0 else node0);
                      dvp = d_vnode (w_dentry w ddp)
                  in bindr (vn_lock dvp w) (\<lambda>_.
                     bindr (bindr (dentry_lookup mp node w) (\<lambda>(dp, w1).
                              if dp \<noteq> 0 then Inr (0, dp, w1)
                              else bindr (vop_lookup (vn_op E dvp w1) dvp (last_comp path) w1) (\<lambda>(error, vp, w2).
                                     if error \<noteq> 0 then Inr (error, 0, w2)
                                     else bindr (dentry_alloc ddp vp node w2) (\<lambda>(dp, w3).
                                          bindr (vput (inactive E) vp w3) (\<lambda>w4.
                                            if dp = 0 then Inr (ENOMEM, 0, w4) else Inr (0, dp, w4)))))) (\<lambda>(error, dp, w5).
                     bindr (if dvp \<noteq> 0 then vn_unlock dvp w5 else Inr ()) (\<lambda>_. Inr (error, dp, w5)))))"

text \<open>The dentry of the directory and the name of the file; a path without a slash is written at \<^verbatim>\<open>NULL\<close>.\<close>

definition lookup :: "env \<Rightarrow> string \<Rightarrow> vfs \<Rightarrow> (int \<times> u64 \<times> string \<times> vfs) res" where
  "lookup E path w =
     (let buf = strlcpy path PATH_MAX
      in if buf = [] then Inr (ENOTDIR, 0, [], w)
         else if CHR ''/'' \<notin> set buf then Inl Undef
         else let dir = (if dir_part buf = [] then ''/'' else dir_part buf)
              in bindr (namei E dir w) (\<lambda>(error, dp, w1).
                   if error \<noteq> 0 then Inr (error, 0, [], w1)
                   else if dp = 0 then Inl Undef
                   else if type_of w1 dp \<noteq> VDIR then bindr (release E dp w1) (\<lambda>w2. Inr (ENOTDIR, 0, [], w2))
                   else Inr (0, dp, last_comp path, w1)))"

definition lookup_init :: "vfs \<Rightarrow> vfs" where
  "lookup_init w = dentry_init w"

end
