(* ===== verification/Fdtable.thy ===== *)
theory Fdtable
  imports Namei
begin

text \<open>
  Open files (\<^verbatim>\<open>vfscore/file.c\<close>, \<^verbatim>\<open>fops.c\<close>) and the table of file descriptors (\<^verbatim>\<open>fd.c\<close>): the
  bitmap of the descriptors in use, the files behind them and their reference counts.
\<close>

section \<open>Open files\<close>

definition O_APPEND :: int where "O_APPEND = 0x400"

definition O_DSYNC :: int where "O_DSYNC = 0x1000"

definition O_SYNC :: int where "O_SYNC = 0x101000"

definition IO_SYNC :: int where "IO_SYNC = 2"

definition FOF_OFFSET :: int where "FOF_OFFSET = 0x800"

definition UK_VFSCORE_NOPOS :: int where "UK_VFSCORE_NOPOS = 1"

text \<open>\<^verbatim>\<open>fp->f_dentry->d_vnode\<close>\<close>

definition file_vnode :: "u64 \<Rightarrow> vfs \<Rightarrow> u64 res" where
  "file_vnode fp w =
     (if f_dentry (w_file w fp) = 0 then Inl Undef else Inr (d_vnode (w_dentry w (f_dentry (w_file w fp)))))"

text \<open>An operation on a locked vnode.\<close>

definition locked :: "u64 \<Rightarrow> (vfs \<Rightarrow> ('a \<times> vfs) res) \<Rightarrow> vfs \<Rightarrow> ('a \<times> vfs) res" where
  "locked vp f w =
     bindr (vn_lock vp w) (\<lambda>_. bindr (f w) (\<lambda>(r, w1). bindr (vn_unlock vp w1) (\<lambda>_. Inr (r, w1))))"

definition vfs_close :: "env \<Rightarrow> u64 \<Rightarrow> vfs \<Rightarrow> (int \<times> vfs) res" where
  "vfs_close E fp w =
     bindr (file_vnode fp w) (\<lambda>vp.
     bindr (locked vp (vop_close (vn_op E vp w) vp fp) w) (\<lambda>(error, w1).
       if error \<noteq> 0 then Inr (error, w1)
       else bindr (release E (f_dentry (w_file w1 fp)) w1) (\<lambda>w2.
              Inr (0, set_file fp (\<lambda>f. f\<lparr>f_dentry := 0\<rparr>) w2))))"

text \<open>\<^verbatim>\<open>fp->f_offset += count\<close> after a transfer without an error, unless the position is given or not kept.\<close>

definition advance :: "u64 \<Rightarrow> int \<Rightarrow> int \<Rightarrow> vfs \<Rightarrow> vfs" where
  "advance fp flags n w =
     (if flags AND FOF_OFFSET = 0 \<and> f_vfs_flags (w_file w fp) AND UK_VFSCORE_NOPOS = 0
      then set_file fp (\<lambda>f. f\<lparr>f_offset := f_offset f + n\<rparr>) w else w)"

definition vfs_read :: "env \<Rightarrow> u64 \<Rightarrow> uio \<Rightarrow> int \<Rightarrow> vfs \<Rightarrow> (int \<times> uio \<times> vfs) res" where
  "vfs_read E fp u flags w =
     bindr (file_vnode fp w) (\<lambda>vp.
     bindr (vn_lock vp w) (\<lambda>_.
       let u1 = (if flags AND FOF_OFFSET = 0 then u\<lparr>uio_offset := f_offset (w_file w fp)\<rparr> else u)
       in bindr (vop_read (vn_op E vp w) vp fp u1 0 w) (\<lambda>(error, u2, w1).
            let w2 = (if error = 0 then advance fp flags (uio_resid u - uio_resid u2) w1 else w1)
            in bindr (vn_unlock vp w2) (\<lambda>_. Inr (error, u2, w2)))))"

definition vfs_write :: "env \<Rightarrow> u64 \<Rightarrow> uio \<Rightarrow> int \<Rightarrow> vfs \<Rightarrow> (int \<times> uio \<times> vfs) res" where
  "vfs_write E fp u flags w =
     bindr (file_vnode fp w) (\<lambda>vp.
     bindr (vn_lock vp w) (\<lambda>_.
       let ff = f_flags (w_file w fp);
           ioflags = (if ff AND O_APPEND \<noteq> 0 then IO_APPEND else 0) OR (if ff AND (O_DSYNC OR O_SYNC) \<noteq> 0 then IO_SYNC else 0);
           u1 = (if flags AND FOF_OFFSET = 0 then u\<lparr>uio_offset := f_offset (w_file w fp)\<rparr> else u)
       in bindr (vop_write (vn_op E vp w) vp u1 ioflags w) (\<lambda>(error, u2, w1).
            let w2 = (if error = 0 then advance fp flags (uio_resid u - uio_resid u2) w1 else w1)
            in bindr (vn_unlock vp w2) (\<lambda>_. Inr (error, u2, w2)))))"

definition vfs_ioctl :: "env \<Rightarrow> u64 \<Rightarrow> u64 \<Rightarrow> u64 \<Rightarrow> vfs \<Rightarrow> (int \<times> vfs) res" where
  "vfs_ioctl E fp com data w =
     bindr (file_vnode fp w) (\<lambda>vp. locked vp (vop_ioctl (vn_op E vp w) vp fp com data) w)"

definition stat_vnode :: "env \<Rightarrow> u64 \<Rightarrow> vfs \<Rightarrow> (int \<times> stat \<times> vfs) res" where
  "stat_vnode E vp w = vn_stat (e_bsize E) (vop_getattr (vn_op E vp w)) (e_pad E ''vn_stat'' 10) vp w"

definition vfs_stat :: "env \<Rightarrow> u64 \<Rightarrow> vfs \<Rightarrow> (int \<times> stat \<times> vfs) res" where
  "vfs_stat E fp w =
     bindr (file_vnode fp w) (\<lambda>vp.
     bindr (vn_lock vp w) (\<lambda>_. bindr (stat_vnode E vp w) (\<lambda>(error, st, w1).
     bindr (vn_unlock vp w1) (\<lambda>_. Inr (error, st, w1)))))"

section \<open>References to files\<close>

definition fhold :: "u64 \<Rightarrow> vfs \<Rightarrow> vfs res" where
  "fhold fp w = (if fp = 0 then Inl Undef else Inr (set_file fp (\<lambda>f. f\<lparr>f_count := f_count f + 1\<rparr>) w))"

definition fdrop :: "env \<Rightarrow> u64 \<Rightarrow> vfs \<Rightarrow> (int \<times> vfs) res" where
  "fdrop E fp w =
     (if fp = 0 \<or> \<not> f_count (w_file w fp) > 0 then Inl Assert
      else let prev = f_count (w_file w fp); w1 = set_file fp (\<lambda>f. f\<lparr>f_count := f_count f - 1\<rparr>) w
           in if prev = 1
              then bindr (vfs_close E fp w1) (\<lambda>(error, w2).
                   bindr (if error \<noteq> 0 then release E (f_dentry (w_file w2 fp)) w2 else Inr w2) (\<lambda>w3.
                   bindr (free_mem fp w3) (\<lambda>w4. Inr (1, w4))))
              else Inr (0, w1))"

section \<open>Descriptors\<close>

definition FDTABLE_MAX_FILES :: nat where "FDTABLE_MAX_FILES = 1024"

definition file_at :: "int \<Rightarrow> vfs \<Rightarrow> u64 res" where
  "file_at fd w = (if 0 \<le> fd \<and> nat fd < length (fd_files w) then Inr (fd_files w ! nat fd) else Inl Oob)"

definition put_file_at :: "int \<Rightarrow> u64 \<Rightarrow> vfs \<Rightarrow> vfs" where
  "put_file_at fd fp w = w\<lparr>fd_files := (fd_files w)[nat fd := fp]\<rparr>"

definition vfscore_alloc_fd :: "vfs \<Rightarrow> (int \<times> vfs) res" where
  "vfscore_alloc_fd w =
     bindr (uk_find_next_zero_bit (fd_bitmap w) FDTABLE_MAX_FILES 0) (\<lambda>ret.
       if ret = FDTABLE_MAX_FILES then Inr (- ENFILE, w)
       else bindr (uk_bitmap_set (fd_bitmap w) ret 1) (\<lambda>b. Inr (int ret, w\<lparr>fd_bitmap := b\<rparr>)))"

definition vfscore_reserve_fd :: "int \<Rightarrow> vfs \<Rightarrow> (int \<times> vfs) res" where
  "vfscore_reserve_fd fd w =
     bindr (uk_test_bit fd (fd_bitmap w)) (\<lambda>b.
       if b then Inr (- EBUSY, w)
       else bindr (uk_bitmap_set (fd_bitmap w) (nat fd) 1) (\<lambda>b. Inr (0, w\<lparr>fd_bitmap := b\<rparr>)))"

text \<open>A negative descriptor is converted to a large position in the bitmap.\<close>

definition vfscore_put_fd :: "env \<Rightarrow> int \<Rightarrow> vfs \<Rightarrow> (int \<times> vfs) res" where
  "vfscore_put_fd E fd w =
     bindr (guardr (fd < int FDTABLE_MAX_FILES) Assert) (\<lambda>_.
     bindr (guardr (0 \<le> fd) Oob) (\<lambda>_.
     bindr (uk_bitmap_clear (fd_bitmap w) (nat fd) 1) (\<lambda>b.
       let w1 = w\<lparr>fd_bitmap := b\<rparr>
       in bindr (file_at fd w1) (\<lambda>fp.
            let w2 = put_file_at fd 0 w1
            in if fp \<noteq> 0 then bindr (fdrop E fp w2) (\<lambda>(_, w3). Inr (0, w3)) else Inr (0, w2)))))"

definition vfscore_install_fd :: "env \<Rightarrow> int \<Rightarrow> u64 \<Rightarrow> vfs \<Rightarrow> (int \<times> vfs) res" where
  "vfscore_install_fd E fd file w =
     (if fd \<ge> int FDTABLE_MAX_FILES \<or> file = 0 then Inr (- EBADF, w)
      else bindr (fhold file w) (\<lambda>w1.
           let w2 = set_file file (\<lambda>f. f\<lparr>f_fd := fd\<rparr>) w1
           in bindr (file_at fd w2) (\<lambda>orig.
              bindr (fdrop E file (put_file_at fd file w2)) (\<lambda>(_, w3).
                if orig \<noteq> 0 then bindr (fdrop E orig w3) (\<lambda>(_, w4). Inr (0, w4)) else Inr (0, w3)))))"

text \<open>The result is 0 when the descriptor is not in use.\<close>

definition vfscore_get_file :: "int \<Rightarrow> vfs \<Rightarrow> (u64 \<times> vfs) res" where
  "vfscore_get_file fd w =
     bindr (guardr (fd < int FDTABLE_MAX_FILES) Assert) (\<lambda>_.
     bindr (uk_test_bit fd (fd_bitmap w)) (\<lambda>b.
       if \<not> b then Inr (0, w)
       else bindr (file_at fd w) (\<lambda>ret. bindr (fhold ret w) (\<lambda>w1. Inr (ret, w1)))))"

definition vfscore_put_file :: "env \<Rightarrow> u64 \<Rightarrow> vfs \<Rightarrow> vfs res" where
  "vfscore_put_file E file w = bindr (fdrop E file w) (\<lambda>(_, w1). Inr w1)"

definition fget :: "int \<Rightarrow> vfs \<Rightarrow> (int \<times> u64 \<times> vfs) res" where
  "fget fd w = bindr (vfscore_get_file fd w) (\<lambda>(fp, w1). Inr (if fp = 0 then EBADF else 0, fp, w1))"

text \<open>The result and the new descriptor.\<close>

definition fdalloc :: "env \<Rightarrow> u64 \<Rightarrow> vfs \<Rightarrow> (int \<times> int \<times> vfs) res" where
  "fdalloc E fp w =
     bindr (fhold fp w) (\<lambda>w1.
     bindr (vfscore_alloc_fd w1) (\<lambda>(fd, w2).
       if fd < 0 then Inr (fd, -1, w2)
       else bindr (vfscore_install_fd E fd fp w2) (\<lambda>(ret, w3).
              if ret \<noteq> 0 then bindr (fdrop E fp w3) (\<lambda>(_, w4). Inr (ret, -1, w4)) else Inr (0, fd, w3))))"

end
