(* ===== verification/Mount.thy ===== *)
theory Mount
  imports Namei
begin

text \<open>
  Mount points (\<^verbatim>\<open>vfscore/mount.c\<close>, \<^verbatim>\<open>rootfs.c\<close>): the tables of operations of the memory file
  system, mounting, unmounting and synchronisation.
\<close>

section \<open>The operations of ramfs\<close>

text \<open>\<open>pad\<close> is the address of the vnode pointer on the stack of \<^verbatim>\<open>ramfs_lookup\<close>.\<close>

definition ramfs_vnops :: "u64 \<Rightarrow> vnops" where
  "ramfs_vnops pad =
     \<lparr>vop_open = (\<lambda>fp w. Inr (vfscore_vop_nullop, w)),
      vop_close = (\<lambda>vp fp w. Inr (vfscore_vop_nullop, w)),
      vop_read = (\<lambda>vp fp u ioflag. ramfs_read vp u),
      vop_write = ramfs_write,
      vop_seek = (\<lambda>vp fp old new w. Inr (vfscore_vop_nullop, w)),
      vop_ioctl = (\<lambda>vp fp com data w. Inr (vfscore_vop_einval, w)),
      vop_fsync = (\<lambda>vp fp w. Inr (vfscore_vop_nullop, w)),
      vop_readdir = ramfs_readdir,
      vop_lookup = ramfs_lookup pad,
      vop_create = ramfs_create,
      vop_remove = ramfs_remove,
      vop_rename = ramfs_rename,
      vop_mkdir = ramfs_mkdir,
      vop_rmdir = ramfs_rmdir,
      vop_getattr = ramfs_getattr,
      vop_setattr = ramfs_setattr,
      vop_inactive = (\<lambda>vp w. Inr w),
      vop_truncate = ramfs_truncate,
      vop_link = (\<lambda>dvp vp name w. Inr (vfscore_vop_eperm, w)),
      vop_fallocate = (\<lambda>vp mode off len w. Inr (vfscore_vop_nullop, w)),
      vop_readlink = ramfs_readlink,
      vop_symlink = ramfs_symlink\<rparr>"

definition vfscore_nullop :: int where "vfscore_nullop = 0"

definition vfs_einval :: int where "vfs_einval = EINVAL"

definition vfscore_release_mp_dentries :: "(u64 \<Rightarrow> vfs \<Rightarrow> vfs res) \<Rightarrow> u64 \<Rightarrow> vfs \<Rightarrow> vfs res" where
  "vfscore_release_mp_dentries inact mp w =
     bindr (if m_covered (w_mount w mp) \<noteq> 0 then drele inact (m_covered (w_mount w mp)) w else Inr w) (\<lambda>w1.
       drele inact (m_root (w_mount w1 mp)) w1)"

definition ramfs_unmount :: "(u64 \<Rightarrow> vfs \<Rightarrow> vfs res) \<Rightarrow> u64 \<Rightarrow> int \<Rightarrow> vfs \<Rightarrow> (int \<times> vfs) res" where
  "ramfs_unmount inact mp flags w = bindr (vfscore_release_mp_dentries inact mp w) (\<lambda>w1. Inr (0, w1))"

definition ramfs_vfsops :: "u64 \<Rightarrow> vfsops" where
  "ramfs_vfsops pad =
     \<lparr>vfs_mount = (\<lambda>mp dev flags. ramfs_mount mp),
      vfs_unmount = ramfs_unmount,
      vfs_sync = (\<lambda>mp w. Inr w),
      vfs_vget = (\<lambda>mp vp w. Inr (vfscore_nullop, w)),
      vfs_statfs = (\<lambda>mp w. Inr (vfscore_nullop, w)),
      vfs_vnops = ramfs_vnops pad\<rparr>"

text \<open>\<^verbatim>\<open>add_fs\<close> registers the device file system and ramfs, in this order.\<close>

definition add_fs :: "string list" where
  "add_fs = [''devfs'', ''ramfs'']"

definition FSMAXNAMES :: nat where "FSMAXNAMES = 16"

definition fs_getfs :: "env \<Rightarrow> string \<Rightarrow> nat option" where
  "fs_getfs E name =
     find (\<lambda>i. take FSMAXNAMES name = take FSMAXNAMES (e_names E ! i)) [0..<length (e_names E)]"

text \<open>Opening and closing a device is not implemented: \<^verbatim>\<open>UK_CRASH\<close>.\<close>

definition device_open :: "string \<Rightarrow> u64 res" where "device_open name = Inl Assert"

definition device_close :: "u64 \<Rightarrow> unit res" where "device_close dev = Inl Assert"

section \<open>Mounting\<close>

definition VROOT :: int where "VROOT = 1"

definition S_IWUSR :: u32 where "S_IWUSR = 0x80"

definition S_IRWXU :: u32 where "S_IRWXU = 0x1C0"

definition new_mount :: "nat \<Rightarrow> int \<Rightarrow> u64 \<Rightarrow> string \<Rightarrow> string \<Rightarrow> mount \<Rightarrow> mount" where
  "new_mount fs flags dev dir special m =
     m\<lparr>m_op := fs, m_count := 0, m_flags := flags, m_dev := dev, m_path := strlcpy dir PATH_MAX,
       m_special := strlcpy special PATH_MAX\<rparr>"

text \<open>
  The labels \<^verbatim>\<open>err3\<close> and \<^verbatim>\<open>err2\<close>: the covered dentry and the block of the mount point are released.
  \<open>error\<close> is \<open>None\<close> while the variable has no value, which makes the return undefined.
\<close>

definition mount_fail :: "env \<Rightarrow> u64 \<Rightarrow> u64 \<Rightarrow> int option \<Rightarrow> vfs \<Rightarrow> (int \<times> vfs) res" where
  "mount_fail E mp dp_covered error w =
     bindr (if dp_covered \<noteq> 0 then release E dp_covered w else Inr w) (\<lambda>w1.
     bindr (free_mem mp w1) (\<lambda>w2. case error of None \<Rightarrow> Inl Undef | Some e \<Rightarrow> Inr (e, w2)))"

text \<open>From the root vnode on; \<open>error0\<close> is the value of \<^verbatim>\<open>error\<close> before.\<close>

definition mount_root :: "env \<Rightarrow> u64 \<Rightarrow> u64 \<Rightarrow> string option \<Rightarrow> int \<Rightarrow> int option \<Rightarrow> vfs \<Rightarrow> (int \<times> vfs) res" where
  "mount_root E mp dp_covered dev flags error0 w =
     bindr (vfscore_vget (vfs_vget (fs_op E mp w)) mp 0 w) (\<lambda>(_, vp, w1).
       if vp = 0 then mount_fail E mp dp_covered (Some ENOMEM) w1
       else let w2 = set_vnode vp (\<lambda>v. v\<lparr>v_type := VDIR, v_flags := VROOT, v_mode := S_IFDIR OR S_IRWXU\<rparr>) w1
            in bindr (dentry_alloc 0 vp ''/'' w2) (\<lambda>(root, w3).
               let w4 = set_mount mp (\<lambda>m. m\<lparr>m_root := root\<rparr>) w3
               in bindr (vput (inactive E) vp w4) (\<lambda>w5.
                    if root = 0 then mount_fail E mp dp_covered error0 w5
                    else bindr (vfs_mount (fs_op E mp w5) mp dev flags w5) (\<lambda>(error, w6).
                           if error \<noteq> 0
                           then bindr (release E (m_root (w_mount w6 mp)) w6) (mount_fail E mp dp_covered (Some error))
                           else let w7 = (if m_flags (w_mount w6 mp) AND MNT_RDONLY \<noteq> 0
                                          then set_vnode vp (\<lambda>v. v\<lparr>v_mode := v_mode v AND NOT S_IWUSR\<rparr>) w6 else w6)
                                in Inr (0, w7\<lparr>mount_list := mount_list w7 @ [mp]\<rparr>)))))"

definition mount_fs :: "env \<Rightarrow> string option \<Rightarrow> string \<Rightarrow> string \<Rightarrow> int \<Rightarrow> vfs \<Rightarrow> (int \<times> vfs) res" where
  "mount_fs E dev dir fsname flags w =
     (if dir = [] then Inr (ENOENT, w)
      else case fs_getfs E fsname of
             None \<Rightarrow> Inr (ENODEV, w)
           | Some fs \<Rightarrow>
               bindr (case dev of Some s \<Rightarrow> if take 5 s = ''/dev/'' then device_open (drop 5 s) else Inr 0 | None \<Rightarrow> Inr 0) (\<lambda>device.
                 if \<exists>mp \<in> set (mount_list w). m_path (w_mount w mp) = dir \<or> device \<noteq> 0 \<and> m_dev (w_mount w mp) = device
                 then Inr (EBUSY, w)
                 else let (mp, w1) = alloc_mem sizeof_mount w
                 in if mp = 0 then Inr (ENOMEM, w1)
                    else bindr (add_vfs_window mp sizeof_mount (bits [21, 2]) w1) (\<lambda>w2.
                         case dev of None \<Rightarrow> Inl Undef | Some special \<Rightarrow>
                           let w3 = set_mount mp (new_mount fs flags device dir special) w2
                           in if dir = ''/'' then mount_root E mp 0 dev flags None (set_mount mp (\<lambda>m. m\<lparr>m_covered := 0\<rparr>) w3)
                              else bindr (namei E dir w3) (\<lambda>(error, dp, w4).
                                   if error \<noteq> 0 then bindr (free_mem mp w4) (\<lambda>w5. Inr (ENOENT, w5))
                                   else if dp = 0 then Inl Undef
                                   else if type_of w4 dp \<noteq> VDIR then mount_fail E mp dp (Some ENOTDIR) w4
                                   else mount_root E mp dp dev flags (Some 0) (set_mount mp (\<lambda>m. m\<lparr>m_covered := dp\<rparr>) w4)))))"

section \<open>Unmounting and synchronisation\<close>

definition MNT_FORCE :: int where "MNT_FORCE = 1"

definition umount2 :: "env \<Rightarrow> string \<Rightarrow> int \<Rightarrow> vfs \<Rightarrow> (int \<times> vfs) res" where
  "umount2 E path flags w =
     (if length path \<ge> PATH_MAX then Inr (ENAMETOOLONG, w)
      else case find (\<lambda>mp. path = m_path (w_mount w mp)) (mount_list w) of
             None \<Rightarrow> Inr (EINVAL, w)
           | Some mp \<Rightarrow>
               if m_covered (w_mount w mp) = 0 \<and> flags AND MNT_FORCE = 0 then Inr (EINVAL, w)
               else bindr (vfs_unmount (fs_op E mp w) (inactive E) mp flags w) (\<lambda>(error, w1).
                      if error \<noteq> 0 then Inr (error, w1)
                      else let w2 = w1\<lparr>mount_list := remove1 mp (mount_list w1)\<rparr>
                           in bindr (if m_dev (w_mount w2 mp) \<noteq> 0 then device_close (m_dev (w_mount w2 mp)) else Inr ()) (\<lambda>_.
                              bindr (free_mem mp w2) (\<lambda>w3. Inr (0, w3)))))"

definition umount :: "env \<Rightarrow> string \<Rightarrow> vfs \<Rightarrow> (int \<times> vfs) res" where
  "umount E path = umount2 E path 0"

definition sync :: "env \<Rightarrow> vfs \<Rightarrow> vfs res" where
  "sync E w = iterr (\<lambda>mp w. vfs_sync (fs_op E mp w) mp w) (mount_list w) w"

text \<open>The parameters \<^verbatim>\<open>vfs.rootfs\<close>, \<^verbatim>\<open>vfs.rootdev\<close> and \<^verbatim>\<open>vfs.rootflags\<close> are arguments.\<close>

definition vfscore_rootfs :: "env \<Rightarrow> string \<Rightarrow> string \<Rightarrow> int \<Rightarrow> vfs \<Rightarrow> (int \<times> vfs) res" where
  "vfscore_rootfs E rootfs rootdev rootflags w =
     (if rootfs = [] then Inr (-1, w)
      else bindr (mount_fs E (Some rootdev) ''/'' rootfs rootflags w) (\<lambda>(r, w1). Inr (if r \<noteq> 0 then -1 else 0, w1)))"

end
