(* ===== verification/Syscalls.thy ===== *)
theory Syscalls
  imports Fdtable Mount
begin

text \<open>
  System calls on open files and directories (\<^verbatim>\<open>vfscore/syscalls.c\<close>, first part). Results are
  error numbers, with the values that the source stores through pointers.
\<close>

section \<open>Opening\<close>

definition O_ACCMODE :: int where "O_ACCMODE = 0x200003"

definition O_CREAT :: int where "O_CREAT = 0x40"

definition O_EXCL :: int where "O_EXCL = 0x80"

definition O_TRUNC :: int where "O_TRUNC = 0x200"

definition O_DIRECTORY :: int where "O_DIRECTORY = 0x10000"

definition O_NOFOLLOW :: int where "O_NOFOLLOW = 0x20000"

definition O_CLOEXEC :: int where "O_CLOEXEC = 0x80000"

definition UK_FREAD :: int where "UK_FREAD = 1"

definition UK_FWRITE :: int where "UK_FWRITE = 2"

definition vfscore_fflags :: "int \<Rightarrow> int" where
  "vfscore_fflags oflags = ((oflags AND O_ACCMODE) + 1) OR (oflags AND NOT O_ACCMODE)"

definition vfscore_oflags :: "int \<Rightarrow> int" where
  "vfscore_oflags fflags =
     ((fflags AND (UK_FREAD OR UK_FWRITE)) - 1) OR (fflags AND NOT (UK_FREAD OR UK_FWRITE))"

text \<open>\<^verbatim>\<open>namei\<close> where the source uses the dentry after a success; it may be \<^verbatim>\<open>NULL\<close>.\<close>

definition find_dentry :: "env \<Rightarrow> string \<Rightarrow> vfs \<Rightarrow> (int \<times> u64 \<times> vfs) res" where
  "find_dentry E path w =
     bindr (namei E path w) (\<lambda>(error, dp, w1). if error = 0 \<and> dp = 0 then Inl Undef else Inr (error, dp, w1))"

definition open_no_follow_chk :: "env \<Rightarrow> string \<Rightarrow> vfs \<Rightarrow> (int \<times> vfs) res" where
  "open_no_follow_chk E path w =
     bindr (lookup E path w) (\<lambda>(error, ddp, name, w1).
       if error \<noteq> 0 then Inr (error, w1)
       else bindr (namei_last_nofollow E path ddp w1) (\<lambda>(error, dp, w2).
            bindr (if error \<noteq> 0 then Inr (error, w2)
                   else let vp = d_vnode (w_dentry w2 dp)
                        in bindr (locked vp (\<lambda>w. Inr (if v_type (w_vnode w vp) = VLNK then ELOOP else 0, w)) w2) (\<lambda>(e, w3).
                           bindr (release E dp w3) (\<lambda>w4. Inr (e, w4)))) (\<lambda>(error, w5).
            bindr (release E ddp w5) (\<lambda>w6. Inr (error, w6)))))"

definition sizeof_file :: u64 where "sizeof_file = 56"

definition zero_file :: vfscore_file where
  "zero_file = \<lparr>f_fd = 0, f_flags = 0, f_count = 0, f_offset = 0, f_data = 0, f_vfs_flags = 0, f_dentry = 0\<rparr>"

text \<open>The label \<^verbatim>\<open>out_drele\<close>, and the rest of \<^verbatim>\<open>sys_open\<close> once the dentry is found.\<close>

definition open_fail :: "env \<Rightarrow> u64 \<Rightarrow> int \<Rightarrow> vfs \<Rightarrow> (int \<times> u64 \<times> vfs) res" where
  "open_fail E dp error w = bindr (if dp \<noteq> 0 then release E dp w else Inr w) (\<lambda>w1. Inr (error, 0, w1))"

definition open_file :: "env \<Rightarrow> int \<Rightarrow> u64 \<Rightarrow> vfs \<Rightarrow> (int \<times> u64 \<times> vfs) res" where
  "open_file E flags dp w =
     (let vp = d_vnode (w_dentry w dp); ops = vn_op E vp w
      in bindr (vn_lock vp w) (\<lambda>_.
         bindr (if flags AND O_TRUNC = 0 then Inr (0, w)
                else if flags AND UK_FWRITE = 0 \<or> v_type (w_vnode w vp) = VDIR then Inr (EINVAL, w)
                else vop_truncate ops vp 0 w) (\<lambda>(error, w1).
           if error \<noteq> 0 then bindr (vn_unlock vp w1) (\<lambda>_. open_fail E dp error w1)
           else let (fp, w2) = calloc_mem sizeof_file 1 w1
           in if fp = 0 then bindr (vn_unlock vp w2) (\<lambda>_. open_fail E dp ENOMEM w2)
              else bindr (fhold fp (set_file fp (\<lambda>_. zero_file) w2)) (\<lambda>w3.
                   bindr (dref dp (set_file fp (\<lambda>f. f\<lparr>f_flags := flags\<rparr>) w3)) (\<lambda>w4.
                   bindr (vop_open ops fp (set_file fp (\<lambda>f. f\<lparr>f_dentry := dp\<rparr>) w4)) (\<lambda>(error, w5).
                   bindr (vn_unlock vp w5) (\<lambda>_.
                     if error \<noteq> 0
                     then bindr (release E (f_dentry (w_file w5 fp)) w5) (\<lambda>w6.
                          bindr (free_mem fp w6) (\<lambda>w7. Inr (error, 0, w7)))
                     else Inr (0, fp, w5))))))))"

definition open_create :: "env \<Rightarrow> string \<Rightarrow> u32 \<Rightarrow> vfs \<Rightarrow> (int \<times> vfs) res" where
  "open_create E path mode w =
     bindr (lookup E path w) (\<lambda>(error, ddp, filename, w1).
       if error \<noteq> 0 then Inr (error, w1)
       else let dvp = d_vnode (w_dentry w1 ddp)
            in bindr (locked dvp (\<lambda>w. let e = vn_access dvp VWRITE w
                        in if e \<noteq> 0 then Inr (e, w)
                           else vop_create (vn_op E dvp w) dvp filename ((mode AND NOT S_IFMT) OR S_IFREG) w) w1) (\<lambda>(error, w2).
               bindr (release E ddp w2) (\<lambda>w3. Inr (error, w3))))"

text \<open>The result and the file.\<close>

definition sys_open :: "env \<Rightarrow> string \<Rightarrow> int \<Rightarrow> u32 \<Rightarrow> vfs \<Rightarrow> (int \<times> u64 \<times> vfs) res" where
  "sys_open E path oflags mode w0 =
     (let w = vfs_stack_window 0 (e_pad E ''sys_open'' 0) (vfs_stack_window 1 (e_pad E ''sys_open'' 1)
                (vfs_stack_window 2 (e_pad E ''sys_open'' 2) w0));
          flags = vfscore_fflags oflags
      in if flags AND O_CREAT \<noteq> 0
         then bindr (namei E path w) (\<lambda>(error, dp, w1).
                if error = ENOENT
                then bindr (open_create E path mode w1) (\<lambda>(error, w2).
                       if error \<noteq> 0 then Inr (error, 0, w2)
                       else bindr (find_dentry E path w2) (\<lambda>(error, dp, w3).
                              if error \<noteq> 0 then Inr (error, 0, w3)
                              else open_file E (flags AND NOT O_TRUNC AND NOT O_CREAT) dp w3))
                else if error \<noteq> 0 then Inr (error, 0, w1)
                else if flags AND O_EXCL \<noteq> 0 then open_fail E dp EEXIST w1
                else if dp = 0 then Inl Undef
                else open_file E (flags AND NOT O_CREAT) dp w1)
         else bindr (if flags AND O_NOFOLLOW \<noteq> 0 then open_no_follow_chk E path w else Inr (0, w)) (\<lambda>(error, w1).
                if error \<noteq> 0 then Inr (error, 0, w1)
                else bindr (find_dentry E path w1) (\<lambda>(error, dp, w2).
                       if error \<noteq> 0 then Inr (error, 0, w2)
                       else let vp = d_vnode (w_dentry w2 dp); ty = v_type (w_vnode w2 vp);
                                wr = flags AND UK_FWRITE \<noteq> 0 \<or> flags AND O_TRUNC \<noteq> 0; acc = vn_access vp VWRITE w2
                            in if wr \<and> acc \<noteq> 0 then open_fail E dp acc w2
                               else if wr \<and> ty = VDIR then open_fail E dp EISDIR w2
                               else if flags AND O_DIRECTORY \<noteq> 0 \<and> ty \<noteq> VDIR then open_fail E dp ENOTDIR w2
                               else open_file E flags dp w2)))"

definition sys_close :: "u64 \<Rightarrow> int" where "sys_close fp = 0"

section \<open>Transfers\<close>

definition IOSIZE_MAX :: int where "IOSIZE_MAX = 2147483647"

text \<open>The sum of the lengths, or \<open>None\<close> when it exceeds the limit.\<close>

fun iov_bytes :: "iovec list \<Rightarrow> int \<Rightarrow> int option" where
  "iov_bytes [] bytes = Some bytes"
| "iov_bytes (iov # iovs) bytes =
     (if uint (iov_len iov) > IOSIZE_MAX - bytes then None else iov_bytes iovs (bytes + uint (iov_len iov)))"

definition sizeof_iovec :: u64 where "sizeof_iovec = 16"

text \<open>The result, and the count when it is stored.\<close>

definition sys_read :: "env \<Rightarrow> u64 \<Rightarrow> iovec list \<Rightarrow> int \<Rightarrow> vfs \<Rightarrow> (int \<times> int option \<times> vfs) res" where
  "sys_read E fp iov offset w =
     (if f_flags (w_file w fp) AND UK_FREAD = 0 then Inr (EBADF, None, w)
      else case iov_bytes iov 0 of
             None \<Rightarrow> Inr (EINVAL, None, w)
           | Some bytes \<Rightarrow>
               if bytes = 0 then Inr (0, Some 0, w)
               else let (copy_iov, w1) = calloc_mem sizeof_iovec (of_nat (length iov)) (vfs_stack_window 9 (e_pad E ''sys_read'' 9) w)
                    in if copy_iov = 0 then Inr (ENOMEM, None, w1)
                       else let u = \<lparr>uio_iov = iov, uio_iovcnt = int (length iov), uio_offset = offset, uio_resid = bytes,
                                     uio_dir = UIO_READ\<rparr>
                            in bindr (vfs_read E fp u (if offset = -1 then 0 else FOF_OFFSET) w1) (\<lambda>(error, u', w2).
                               bindr (free_mem copy_iov w2) (\<lambda>w3. Inr (error, Some (bytes - uio_resid u'), w3))))"

definition sys_write :: "env \<Rightarrow> u64 \<Rightarrow> iovec list \<Rightarrow> int \<Rightarrow> vfs \<Rightarrow> (int \<times> int option \<times> vfs) res" where
  "sys_write E fp iov offset w =
     (if f_flags (w_file w fp) AND UK_FWRITE = 0 then Inr (EBADF, None, w)
      else case iov_bytes iov 0 of
             None \<Rightarrow> Inr (EINVAL, None, w)
           | Some bytes \<Rightarrow>
               if bytes = 0 then Inr (0, Some 0, w)
               else let n = of_nat (length iov);
                        (copy_iov, w1) = calloc_mem sizeof_iovec n (vfs_stack_window 8 (e_pad E ''sys_write'' 8) w)
                    in if copy_iov = 0 then Inr (ENOMEM, None, w1)
                       else let u = \<lparr>uio_iov = iov, uio_iovcnt = int (length iov), uio_offset = offset, uio_resid = bytes,
                                     uio_dir = UIO_WRITE\<rparr>
                            in bindr (add_vfs_window copy_iov (sizeof_iovec * n) (bits [21, 2, 17]) w1) (\<lambda>w2.
                               bindr (vfs_write E fp u (if offset = -1 then 0 else FOF_OFFSET) w2) (\<lambda>(error, u', w3).
                               bindr (free_mem copy_iov w3) (\<lambda>w4.
                               bindr (remove_vfs_window copy_iov w4) (\<lambda>w5. Inr (error, Some (bytes - uio_resid u'), w5))))))"

text \<open>The sum of two offsets of 64 bits.\<close>

definition off_add :: "int \<Rightarrow> int \<Rightarrow> int res" where
  "off_add a b = (if - (2 ^ 63) \<le> a + b \<and> a + b < 2 ^ 63 then Inr (a + b) else Inl Undef)"

definition SEEK_CUR :: int where "SEEK_CUR = 1"

definition SEEK_END :: int where "SEEK_END = 2"

text \<open>The result, and the new offset when it is stored.\<close>

definition sys_lseek :: "env \<Rightarrow> u64 \<Rightarrow> int \<Rightarrow> int \<Rightarrow> vfs \<Rightarrow> (int \<times> int option \<times> vfs) res" where
  "sys_lseek E fp off0 ty w =
     (if f_dentry (w_file w fp) = 0 then Inr (ESPIPE, None, w)
      else bindr (file_vnode fp w) (\<lambda>vp.
           bindr (locked vp (\<lambda>w.
             bindr (if ty = SEEK_CUR then off_add (f_offset (w_file w fp)) off0
                    else if ty = SEEK_END then off_add (v_size (w_vnode w vp)) off0 else Inr off0) (\<lambda>off.
               if off \<ge> 0
               then bindr (vop_seek (vn_op E vp w) vp fp (f_offset (w_file w fp)) off w) (\<lambda>(error, w1).
                      if error \<noteq> 0 then Inr ((error, None), w1)
                      else Inr ((0, Some off), set_file fp (\<lambda>f. f\<lparr>f_offset := off\<rparr>) w1))
               else Inr ((EINVAL, None), w))) w) (\<lambda>((error, origin), w1). Inr (error, origin, w1))))"

definition FIONCLEX :: u64 where "FIONCLEX = 0x5450"

definition FIOCLEX :: u64 where "FIOCLEX = 0x5451"

definition sys_ioctl :: "env \<Rightarrow> u64 \<Rightarrow> u64 \<Rightarrow> u64 \<Rightarrow> vfs \<Rightarrow> (int \<times> vfs) res" where
  "sys_ioctl E fp request buf w =
     (if f_flags (w_file w fp) AND (UK_FREAD OR UK_FWRITE) = 0 then Inr (EBADF, w)
      else if request = FIOCLEX then Inr (0, set_file fp (\<lambda>f. f\<lparr>f_flags := f_flags f OR O_CLOEXEC\<rparr>) w)
      else if request = FIONCLEX then Inr (0, set_file fp (\<lambda>f. f\<lparr>f_flags := f_flags f AND NOT O_CLOEXEC\<rparr>) w)
      else vfs_ioctl E fp request buf w)"

definition sys_fsync :: "env \<Rightarrow> u64 \<Rightarrow> vfs \<Rightarrow> (int \<times> vfs) res" where
  "sys_fsync E fp w =
     (if f_dentry (w_file w fp) = 0 then Inr (EINVAL, w)
      else bindr (file_vnode fp w) (\<lambda>vp. locked vp (vop_fsync (vn_op E vp w) vp fp) w))"

definition sys_fstat :: "env \<Rightarrow> u64 \<Rightarrow> vfs \<Rightarrow> (int \<times> stat \<times> vfs) res" where
  "sys_fstat E fp w = vfs_stat E fp w"

definition FALLOC_FL_KEEP_SIZE :: int where "FALLOC_FL_KEEP_SIZE = 1"

definition FALLOC_FL_PUNCH_HOLE :: int where "FALLOC_FL_PUNCH_HOLE = 2"

text \<open>Every table has the operation \<^verbatim>\<open>vop_fallocate\<close>.\<close>

definition sys_fallocate :: "env \<Rightarrow> u64 \<Rightarrow> int \<Rightarrow> int \<Rightarrow> int \<Rightarrow> vfs \<Rightarrow> (int \<times> vfs) res" where
  "sys_fallocate E fp mode offset len w =
     (if f_dentry (w_file w fp) = 0 \<or> f_flags (w_file w fp) AND UK_FWRITE = 0 then Inr (EBADF, w)
      else if offset < 0 \<or> len \<le> 0 then Inr (EINVAL, w)
      else if mode AND FALLOC_FL_PUNCH_HOLE \<noteq> 0 \<and> mode AND FALLOC_FL_KEEP_SIZE = 0 then Inr (ENOTSUP, w)
      else bindr (file_vnode fp w) (\<lambda>vp.
           locked vp (\<lambda>w. if v_type (w_vnode w vp) \<noteq> VREG \<and> v_type (w_vnode w vp) \<noteq> VDIR then Inr (ENODEV, w)
                          else vop_fallocate (vn_op E vp w) vp mode offset len w) w))"

section \<open>Directories\<close>

text \<open>The result, and the entry when it is stored.\<close>

definition sys_readdir :: "env \<Rightarrow> u64 \<Rightarrow> vfs \<Rightarrow> (int \<times> dirent option \<times> vfs) res" where
  "sys_readdir E fp w =
     (if f_dentry (w_file w fp) = 0 then Inr (ENOTDIR, None, w)
      else bindr (file_vnode fp w) (\<lambda>dvp.
           bindr (vn_lock dvp w) (\<lambda>_.
           bindr (if v_type (w_vnode w dvp) \<noteq> VDIR then Inr (ENOTDIR, None, w)
                  else vop_readdir (vn_op E dvp w) dvp fp w) (\<lambda>(error, dir, w1).
           bindr (vn_unlock dvp w1) (\<lambda>_. Inr (error, dir, w1))))))"

text \<open>The common part of the three functions on the position in a directory.\<close>

definition with_dir :: "u64 \<Rightarrow> 'a \<Rightarrow> (vfs \<Rightarrow> 'a \<times> vfs) \<Rightarrow> vfs \<Rightarrow> (int \<times> 'a \<times> vfs) res" where
  "with_dir fp z f w =
     (if f_dentry (w_file w fp) = 0 then Inr (ENOTDIR, z, w)
      else bindr (file_vnode fp w) (\<lambda>dvp.
           bindr (locked dvp (\<lambda>w. Inr (if v_type (w_vnode w dvp) \<noteq> VDIR then ((EBADF, z), w)
                                        else let (x, w1) = f w in ((0, x), w1))) w) (\<lambda>((error, x), w1). Inr (error, x, w1))))"

definition sys_seekdir :: "u64 \<Rightarrow> int \<Rightarrow> vfs \<Rightarrow> (int \<times> unit \<times> vfs) res" where
  "sys_seekdir fp loc = with_dir fp () (\<lambda>w. ((), set_file fp (\<lambda>f. f\<lparr>f_offset := loc\<rparr>) w))"

definition sys_rewinddir :: "u64 \<Rightarrow> vfs \<Rightarrow> (int \<times> unit \<times> vfs) res" where
  "sys_rewinddir fp = with_dir fp () (\<lambda>w. ((), set_file fp (\<lambda>f. f\<lparr>f_offset := 0\<rparr>) w))"

definition sys_telldir :: "u64 \<Rightarrow> vfs \<Rightarrow> (int \<times> int option \<times> vfs) res" where
  "sys_telldir fp = with_dir fp None (\<lambda>w. (Some (f_offset (w_file w fp)), w))"

text \<open>The loop over the entries; reading the name before an entry was stored is undefined.\<close>

partial_function (option) skip_dots :: "env \<Rightarrow> u64 \<Rightarrow> dirent option \<Rightarrow> vfs \<Rightarrow> (int \<times> vfs) res option" where
  "skip_dots E fp dir w =
     (case sys_readdir E fp w of
        Inl e \<Rightarrow> Some (Inl e)
      | Inr (error, dir1, w1) \<Rightarrow>
          if error \<noteq> 0 \<and> error \<noteq> EACCES then Some (Inr (error, w1))
          else case (if dir1 = None then dir else dir1) of
                 None \<Rightarrow> Some (Inl Undef)
               | Some d \<Rightarrow> if d_name d = ''.'' \<or> d_name d = ''..'' then skip_dots E fp (Some d) w1 else Some (Inr (error, w1)))"

definition check_dir_empty :: "env \<Rightarrow> string \<Rightarrow> vfs \<Rightarrow> (int \<times> vfs) res" where
  "check_dir_empty E path w =
     bindr (sys_open E path 0 0 w) (\<lambda>(error, fp, w1).
       if error \<noteq> 0 then Inr (error, w1)
       else case skip_dots E fp None w1 of
              None \<Rightarrow> Inl Hang
            | Some r \<Rightarrow> bindr r (\<lambda>(error, w2).
                bindr (fdrop E fp w2) (\<lambda>(_, w3).
                  Inr (if error = ENOENT then 0 else if error = 0 then ENOTEMPTY else error, w3))))"

text \<open>The common end of \<^verbatim>\<open>sys_mkdir\<close> and \<^verbatim>\<open>sys_mknod\<close>: \<open>f\<close> makes the entry in a writable directory.\<close>

definition make_entry :: "env \<Rightarrow> string \<Rightarrow> (u64 \<Rightarrow> string \<Rightarrow> vfs \<Rightarrow> (int \<times> vfs) res) \<Rightarrow> vfs \<Rightarrow> (int \<times> vfs) res" where
  "make_entry E path f w =
     bindr (namei E path w) (\<lambda>(error, dp, w1).
       if error = 0 then bindr (release E dp w1) (\<lambda>w2. Inr (EEXIST, w2))
       else bindr (lookup E path w1) (\<lambda>(error, ddp, name, w2).
              if error \<noteq> 0 then Inr (error, w2)
              else let dvp = d_vnode (w_dentry w2 ddp)
                   in bindr (locked dvp (\<lambda>w. let e = vn_access dvp VWRITE w in if e \<noteq> 0 then Inr (e, w) else f dvp name w) w2)
                        (\<lambda>(error, w3). bindr (release E ddp w3) (\<lambda>w4. Inr (error, w4)))))"

definition sys_mkdir :: "env \<Rightarrow> string \<Rightarrow> u32 \<Rightarrow> vfs \<Rightarrow> (int \<times> vfs) res" where
  "sys_mkdir E path mode w =
     make_entry E path (\<lambda>dvp name w. vop_mkdir (vn_op E dvp w) dvp name ((mode AND NOT S_IFMT) OR S_IFDIR) w)
       (vfs_stack_window 0 (e_pad E ''sys_mkdir'' 0) (vfs_stack_window 1 (e_pad E ''sys_mkdir'' 1)
         (vfs_stack_window 2 (e_pad E ''sys_mkdir'' 2) w)))"

definition sys_mknod :: "env \<Rightarrow> string \<Rightarrow> u32 \<Rightarrow> vfs \<Rightarrow> (int \<times> vfs) res" where
  "sys_mknod E path mode w =
     (if mode AND S_IFMT \<notin> {S_IFREG, S_IFDIR, S_IFIFO, S_IFSOCK} then Inr (EINVAL, w)
      else make_entry E path (\<lambda>dvp name w.
             if mode AND S_IFMT = S_IFDIR then vop_mkdir (vn_op E dvp w) dvp name mode w
             else vop_create (vn_op E dvp w) dvp name mode w) w)"

definition sys_rmdir :: "env \<Rightarrow> string \<Rightarrow> vfs \<Rightarrow> (int \<times> vfs) res" where
  "sys_rmdir E path w =
     bindr (check_dir_empty E path w) (\<lambda>(error, w1).
       if error \<noteq> 0 then Inr (error, w1)
       else bindr (find_dentry E path w1) (\<lambda>(error, dp, w2).
         if error \<noteq> 0 then Inr (error, w2)
         else let vp = d_vnode (w_dentry w2 dp); v = w_vnode w2 vp; acc = vn_access vp VWRITE w2;
                  out = (\<lambda>error w. bindr (vn_unlock vp w) (\<lambda>_. bindr (release E dp w) (\<lambda>w. Inr (error, w))))
              in bindr (vn_lock vp w2) (\<lambda>_.
                 if acc \<noteq> 0 then out acc w2
                 else if v_type v \<noteq> VDIR then out ENOTDIR w2
                 else if v_flags v AND VROOT \<noteq> 0 \<or> v_refcnt v \<ge> 2 then out EBUSY w2
                 else bindr (lookup E path w2) (\<lambda>(error, ddp, name, w3).
                   if error \<noteq> 0 then out error w3
                   else let dvp = d_vnode (w_dentry w3 ddp)
                        in bindr (locked dvp (\<lambda>w. vop_rmdir (vn_op E dvp w) dvp vp name w) w3) (\<lambda>(error, w4).
                           bindr (vn_unlock vp w4) (\<lambda>_.
                           bindr (dentry_remove dp w4) (\<lambda>w5.
                           bindr (release E ddp w5) (\<lambda>w6.
                           bindr (release E dp w6) (\<lambda>w7. Inr (error, w7))))))))))"

end
