(* ===== verification/Syscalls_Names.thy ===== *)
theory Syscalls_Names
  imports Syscalls
begin

text \<open>
  System calls on path names (\<^verbatim>\<open>vfscore/syscalls.c\<close>, second part): renaming, links, removal,
  attributes and times.
\<close>

section \<open>Renaming\<close>

definition is_parent :: "string \<Rightarrow> string \<Rightarrow> bool res" where
  "is_parent parent child =
     (let n = length parent
      in if take n child \<noteq> parent then Inr False
         else if n = 0 then Inl Oob
         else Inr (last parent = CHR ''/'' \<or> n < length child \<and> child ! n = CHR ''/''))"

definition has_trailing :: "string \<Rightarrow> char \<Rightarrow> bool" where
  "has_trailing path ch \<longleftrightarrow> path \<noteq> [] \<and> last path = ch"

definition strip_trailing :: "string \<Rightarrow> char \<Rightarrow> string" where
  "strip_trailing path ch = rev (dropWhile (\<lambda>c. c = ch) (rev path))"

text \<open>A path without its trailing slash, and whether there was one.\<close>

definition trailing_slash :: "string \<Rightarrow> string \<times> bool" where
  "trailing_slash path =
     (if has_trailing path (CHR ''/'') \<and> length path \<noteq> 1 then (strip_trailing path (CHR ''/''), True) else (path, False))"

text \<open>The labels \<^verbatim>\<open>err1\<close> and \<^verbatim>\<open>err2\<close>; \<open>dp2\<close> is 0 when the target does not exist.\<close>

definition rename_err1 :: "env \<Rightarrow> u64 \<Rightarrow> u64 \<Rightarrow> int \<Rightarrow> vfs \<Rightarrow> (int \<times> vfs) res" where
  "rename_err1 E dp1 ddp1 error w =
     bindr (vn_unlock (d_vnode (w_dentry w dp1)) w) (\<lambda>_.
     bindr (release E dp1 w) (\<lambda>w1.
     bindr (release E ddp1 w1) (\<lambda>w2. Inr (error, w2))))"

definition rename_err2 :: "env \<Rightarrow> u64 \<Rightarrow> u64 \<Rightarrow> u64 \<Rightarrow> u64 \<Rightarrow> int \<Rightarrow> vfs \<Rightarrow> (int \<times> vfs) res" where
  "rename_err2 E dp1 ddp1 dp2 ddp2 error w =
     bindr (if dp2 \<noteq> 0 then bindr (vn_unlock (d_vnode (w_dentry w dp2)) w) (\<lambda>_. release E dp2 w) else Inr w) (\<lambda>w1.
     bindr (release E ddp2 w1) (\<lambda>w2. rename_err1 E dp1 ddp1 error w2))"

text \<open>The checks between source and target; \<open>error\<close> is the result of the look-up of the target.\<close>

definition rename_check :: "env \<Rightarrow> string \<Rightarrow> bool \<Rightarrow> u64 \<Rightarrow> u64 \<Rightarrow> int \<Rightarrow> vfs \<Rightarrow> (int option \<times> vfs) res" where
  "rename_check E dest ts dp1 dp2 error w =
     (if error = 0
      then let t1 = type_of w dp1; t2 = type_of w dp2
           in bindr (vn_lock (d_vnode (w_dentry w dp2)) w) (\<lambda>_.
                if t2 \<noteq> VDIR \<and> t2 \<noteq> VLNK \<and> (t1 = VDIR \<or> ts) then Inr (Some ENOTDIR, w)
                else if (t2 = VDIR \<or> t2 = VLNK) \<and> t1 \<noteq> VDIR \<and> t2 = VDIR then Inr (Some EISDIR, w)
                else if t2 = VDIR
                then bindr (check_dir_empty E dest w) (\<lambda>(e, w1). Inr (if e \<noteq> 0 then Some EEXIST else None, w1))
                else Inr (None, w))
      else if error = ENOENT then Inr (if type_of w dp1 \<noteq> VDIR \<and> ts then Some ENOTDIR else None, w)
      else Inr (Some error, w))"

text \<open>The move itself: the entry moves in the cache whatever the file system answers.\<close>

definition rename_move :: "env \<Rightarrow> string \<Rightarrow> string \<Rightarrow> u64 \<Rightarrow> u64 \<Rightarrow> u64 \<Rightarrow> u64 \<Rightarrow> vfs \<Rightarrow> (int \<times> vfs) res" where
  "rename_move E sname dname dp1 ddp1 dp2 ddp2 w =
     (let vp1 = d_vnode (w_dentry w dp1); vp2 = (if dp2 = 0 then 0 else d_vnode (w_dentry w dp2));
          dvp1 = d_vnode (w_dentry w ddp1); dvp2 = d_vnode (w_dentry w ddp2);
          a1 = vn_access dvp1 VWRITE w; a2 = vn_access dvp2 VWRITE w
      in bindr (vn_lock dvp1 w) (\<lambda>_. bindr (vn_lock dvp2 w) (\<lambda>_.
         bindr (if a1 \<noteq> 0 then Inr (a1, w)
                else if a2 \<noteq> 0 then Inr (a2, w)
                else if v_mount (w_vnode w dvp1) \<noteq> v_mount (w_vnode w dvp2) then Inr (EXDEV, w)
                else bindr (vop_rename (vn_op E dvp1 w) dvp1 vp1 sname dvp2 vp2 dname w) (\<lambda>(error, w1).
                     bindr (dentry_move (inactive E) dp1 ddp2 dname w1) (\<lambda>w2.
                     bindr (if dp2 \<noteq> 0 then dentry_remove dp2 w2 else Inr w2) (\<lambda>w3. Inr (error, w3))))) (\<lambda>(error, w4).
         bindr (vn_unlock dvp2 w4) (\<lambda>_. bindr (vn_unlock dvp1 w4) (\<lambda>_. Inr (error, w4)))))))"

definition sys_rename :: "env \<Rightarrow> string \<Rightarrow> string \<Rightarrow> vfs \<Rightarrow> (int \<times> vfs) res" where
  "sys_rename E src0 dest0 w =
     (let (src, ts1) = trailing_slash src0
      in bindr (lookup E src w) (\<lambda>(error, ddp1, sname, w1).
         if error \<noteq> 0 then Inr (error, w1)
         else bindr (namei_last_nofollow E src ddp1 w1) (\<lambda>(error, dp1, w2).
           if error \<noteq> 0 then bindr (release E ddp1 w2) (\<lambda>w3. Inr (error, w3))
           else bindr (vn_lock (d_vnode (w_dentry w2 dp1)) w2) (\<lambda>_.
             if type_of w2 dp1 \<noteq> VDIR \<and> ts1 then rename_err1 E dp1 ddp1 ENOTDIR w2
             else let (dest, ts2) = trailing_slash dest0
             in bindr (lookup E dest w2) (\<lambda>(error, ddp2, _, w3).
                if error \<noteq> 0 then rename_err1 E dp1 ddp1 error w3
                else bindr (namei_last_nofollow E dest ddp2 w3) (\<lambda>(error, dp2, w4).
                     bindr (rename_check E dest ts2 dp1 dp2 error w4) (\<lambda>(stop, w5).
                       let err2 = rename_err2 E dp1 ddp1 dp2 ddp2;
                           dest1 = (if dest \<noteq> ''/'' then strip_trailing dest (CHR ''/'') else dest);
                           src1 = (if src \<noteq> ''/'' then strip_trailing src (CHR ''/'') else src)
                       in case stop of
                            Some e \<Rightarrow> err2 e w5
                          | None \<Rightarrow>
                              if take PATH_MAX src1 = take PATH_MAX dest1 then err2 error w5
                              else bindr (is_parent src1 dest1) (\<lambda>par.
                                   if par then err2 EINVAL w5
                                   else if CHR ''/'' \<notin> set dest1 then err2 ENOTDIR w5
                                   else bindr (rename_move E sname (last_comp dest1) dp1 ddp1 dp2 ddp2 w5) (\<lambda>(e, w6). err2 e w6)))))))))"

section \<open>Links\<close>

text \<open>The working directory \<open>cwd\<close> of the task is an argument; \<open>None\<close> is \<^verbatim>\<open>NULL\<close>.\<close>

definition sys_symlink :: "env \<Rightarrow> string \<Rightarrow> string option \<Rightarrow> string option \<Rightarrow> vfs \<Rightarrow> (int \<times> vfs) res" where
  "sys_symlink E cwd oldpath newpath w =
     (case (oldpath, newpath) of
        (Some old, Some new) \<Rightarrow>
          bindr (task_conv cwd new VWRITE) (\<lambda>(error, np).
            if error \<noteq> 0 then Inr (error, w)
            else bindr (lookup E np w) (\<lambda>(error, newdirdp, name, w1).
              if error \<noteq> 0 then Inr (ENOENT, w1)
              else let dvp = d_vnode (w_dentry w1 newdirdp)
                   in bindr (vn_lock dvp w1) (\<lambda>_.
                      bindr (namei_last_nofollow E np newdirdp w1) (\<lambda>(error, newdp, w2).
                      bindr (if error = 0 then bindr (release E newdp w2) (\<lambda>w3. Inr (EEXIST, w3))
                             else let acc = vn_access dvp VWRITE w2
                             in if acc \<noteq> 0 then Inr (acc, w2)
                                else if length old \<ge> PATH_MAX - 1 then Inr (ENAMETOOLONG, w2)
                                else vop_symlink (vn_op E dvp w2) dvp name old w2) (\<lambda>(error, w4).
                      bindr (vn_unlock dvp w4) (\<lambda>_.
                      bindr (release E newdirdp w4) (\<lambda>w5. Inr (error, w5)))))))) 
      | _ \<Rightarrow> Inr (EFAULT, w))"

text \<open>The label \<^verbatim>\<open>out\<close>; \<open>newdp\<close> is \<open>None\<close> while the variable has no value.\<close>

definition link_out :: "env \<Rightarrow> u64 \<Rightarrow> u64 option \<Rightarrow> int \<Rightarrow> vfs \<Rightarrow> (int \<times> vfs) res" where
  "link_out E olddp newdp error w =
     bindr (vn_unlock (d_vnode (w_dentry w olddp)) w) (\<lambda>_.
     bindr (release E olddp w) (\<lambda>w1.
       case newdp of None \<Rightarrow> Inl Undef | Some dp \<Rightarrow> bindr (release E dp w1) (\<lambda>w2. Inr (error, w2))))"

definition sys_link :: "env \<Rightarrow> string \<Rightarrow> string \<Rightarrow> vfs \<Rightarrow> (int \<times> vfs) res" where
  "sys_link E oldpath newpath w =
     bindr (find_dentry E oldpath w) (\<lambda>(error, olddp, w1).
       if error \<noteq> 0 then Inr (error, w1)
       else let vp = d_vnode (w_dentry w1 olddp)
            in bindr (vn_lock vp w1) (\<lambda>_.
               if v_type (w_vnode w1 vp) = VDIR then link_out E olddp None EPERM w1
               else bindr (namei E newpath w1) (\<lambda>(error, newdp, w2).
                 if error = 0 then link_out E olddp (Some newdp) EEXIST w2
                 else bindr (lookup E newpath w2) (\<lambda>(error, newdirdp, name, w3).
                   if error \<noteq> 0 then link_out E olddp None error w3
                   else let dvp = d_vnode (w_dentry w3 newdirdp); acc = vn_access dvp VWRITE w3
                        in bindr (vn_lock dvp w3) (\<lambda>_.
                           bindr (if d_mount (w_dentry w3 olddp) \<noteq> d_mount (w_dentry w3 newdirdp) then Inr (EXDEV, None, w3)
                                  else if acc \<noteq> 0 then Inr (acc, None, w3)
                                  else bindr (dentry_alloc newdirdp vp newpath w3) (\<lambda>(newdp, w4).
                                         if newdp = 0 then Inr (ENOMEM, Some 0, w4)
                                         else bindr (vop_link (vn_op E dvp w4) dvp vp name w4) (\<lambda>(e, w5). Inr (e, Some newdp, w5))))
                             (\<lambda>(error, newdp, w6).
                           bindr (vn_unlock dvp w6) (\<lambda>_.
                           bindr (release E newdirdp w6) (\<lambda>w7. link_out E olddp newdp error w7))))))))"

section \<open>Removal\<close>

text \<open>
  \<^verbatim>\<open>lookup\<close> stores the address of the name into the buffer \<^verbatim>\<open>pad.name\<close>, and the file system is
  called with the bytes of that address as the name.
\<close>

definition sys_unlink :: "env \<Rightarrow> string \<Rightarrow> vfs \<Rightarrow> (int \<times> vfs) res" where
  "sys_unlink E path w0 =
     (let w = vfs_stack_window 0 (e_pad E ''sys_unlink'' 0) (vfs_stack_window 1 (e_pad E ''sys_unlink'' 1)
                (vfs_stack_window 2 (e_pad E ''sys_unlink'' 2) w0))
      in bindr (lookup E path w) (\<lambda>(error, ddp, _, w1).
         if error \<noteq> 0 then Inr (error, w1)
         else bindr (namei_last_nofollow E path ddp w1) (\<lambda>(error, dp, w2).
           if error \<noteq> 0 then bindr (release E ddp w2) (\<lambda>w3. Inr (error, w3))
           else let vp = d_vnode (w_dentry w2 dp); v = w_vnode w2 vp; dvp = d_vnode (w_dentry w2 ddp);
                    acc = vn_access dvp VWRITE w2;
                    out = (\<lambda>error w. bindr (vn_unlock vp w) (\<lambda>_. bindr (release E dp w) (\<lambda>w1.
                             bindr (release E ddp w1) (\<lambda>w2. Inr (error, w2)))))
                in bindr (vn_lock vp w2) (\<lambda>_.
                   if v_type v = VDIR then out EISDIR w2
                   else if v_flags v AND VROOT \<noteq> 0 then out EBUSY w2
                   else bindr (vn_lock dvp w2) (\<lambda>_.
                     if acc \<noteq> 0 then bindr (vn_unlock dvp w2) (\<lambda>_. out acc w2)
                     else bindr (vop_remove (vn_op E dvp w2) dvp vp (e_name E) w2) (\<lambda>(error, w3).
                          bindr (vn_unlock dvp w3) (\<lambda>_. bindr (vn_unlock vp w3) (\<lambda>_.
                          bindr (dentry_remove dp w3) (\<lambda>w4.
                          bindr (release E ddp w4) (\<lambda>w5.
                          bindr (release E dp w5) (\<lambda>w6. Inr (error, w6))))))))))))"

section \<open>Attributes\<close>

text \<open>An operation on the dentry of a path, which is released afterwards.\<close>

definition with_path :: "env \<Rightarrow> string \<Rightarrow> 'a \<Rightarrow> (u64 \<Rightarrow> vfs \<Rightarrow> (int \<times> 'a \<times> vfs) res) \<Rightarrow> vfs \<Rightarrow> (int \<times> 'a \<times> vfs) res" where
  "with_path E path z f w =
     bindr (find_dentry E path w) (\<lambda>(error, dp, w1).
       if error \<noteq> 0 then Inr (error, z, w1)
       else bindr (f dp w1) (\<lambda>(error, x, w2). bindr (release E dp w2) (\<lambda>w3. Inr (error, x, w3))))"

text \<open>The same without following a link in the last component.\<close>

definition with_last :: "env \<Rightarrow> string \<Rightarrow> 'a \<Rightarrow> (u64 \<Rightarrow> vfs \<Rightarrow> (int \<times> 'a \<times> vfs) res) \<Rightarrow> vfs \<Rightarrow> (int \<times> 'a \<times> vfs) res" where
  "with_last E path z f w =
     bindr (lookup E path w) (\<lambda>(error, ddp, name, w1).
       if error \<noteq> 0 then Inr (error, z, w1)
       else bindr (namei_last_nofollow E path ddp w1) (\<lambda>(error, dp, w2).
         if error \<noteq> 0 then bindr (release E ddp w2) (\<lambda>w3. Inr (error, z, w3))
         else bindr (f dp w2) (\<lambda>(error, x, w3).
              bindr (release E dp w3) (\<lambda>w4. bindr (release E ddp w4) (\<lambda>w5. Inr (error, x, w5))))))"

definition R_OK :: int where "R_OK = 4"

definition W_OK :: int where "W_OK = 2"

definition X_OK :: int where "X_OK = 1"

definition sys_access :: "env \<Rightarrow> string \<Rightarrow> int \<Rightarrow> vfs \<Rightarrow> (int \<times> unit \<times> vfs) res" where
  "sys_access E path mode =
     with_path E path () (\<lambda>dp w.
       Inr (vn_access (d_vnode (w_dentry w dp))
              ((if mode AND R_OK \<noteq> 0 then VREAD else 0) OR (if mode AND W_OK \<noteq> 0 then VWRITE else 0) OR
               (if mode AND X_OK \<noteq> 0 then VEXEC else 0)) w, (), w))"

definition sys_stat :: "env \<Rightarrow> string \<Rightarrow> vfs \<Rightarrow> (int \<times> stat \<times> vfs) res" where
  "sys_stat E path = with_path E path zero_stat (\<lambda>dp w. stat_vnode E (d_vnode (w_dentry w dp)) w)"

definition sys_lstat :: "env \<Rightarrow> string \<Rightarrow> vfs \<Rightarrow> (int \<times> stat \<times> vfs) res" where
  "sys_lstat E path = with_last E path zero_stat (\<lambda>dp w. stat_vnode E (d_vnode (w_dentry w dp)) w)"

text \<open>The cleared \<^verbatim>\<open>struct statfs\<close>, which no modelled operation fills, is left out.\<close>

definition sys_statfs :: "env \<Rightarrow> string \<Rightarrow> vfs \<Rightarrow> (int \<times> unit \<times> vfs) res" where
  "sys_statfs E path =
     with_path E path () (\<lambda>dp w. let mp = d_mount (w_dentry w dp)
       in bindr (vfs_statfs (fs_op E mp w) mp w) (\<lambda>(e, w1). Inr (e, (), w1)))"

definition sys_fstatfs :: "env \<Rightarrow> u64 \<Rightarrow> vfs \<Rightarrow> (int \<times> vfs) res" where
  "sys_fstatfs E fp w =
     (if f_dentry (w_file w fp) = 0 then Inr (EBADF, w)
      else bindr (file_vnode fp w) (\<lambda>vp.
           locked vp (\<lambda>w. let mp = v_mount (w_vnode w vp) in vfs_statfs (fs_op E mp w) mp w) w))"

definition sys_truncate :: "env \<Rightarrow> string \<Rightarrow> int \<Rightarrow> vfs \<Rightarrow> (int \<times> unit \<times> vfs) res" where
  "sys_truncate E path len =
     with_path E path () (\<lambda>dp w. let vp = d_vnode (w_dentry w dp)
       in bindr (locked vp (vop_truncate (vn_op E vp w) vp len) w) (\<lambda>(e, w1). Inr (e, (), w1)))"

definition sys_ftruncate :: "env \<Rightarrow> u64 \<Rightarrow> int \<Rightarrow> vfs \<Rightarrow> (int \<times> vfs) res" where
  "sys_ftruncate E fp len w =
     (if f_dentry (w_file w fp) = 0 then Inr (EBADF, w)
      else bindr (file_vnode fp w) (\<lambda>vp. locked vp (vop_truncate (vn_op E vp w) vp len) w))"

text \<open>The new working directory, when it is stored.\<close>

definition sys_fchdir :: "u64 \<Rightarrow> vfs \<Rightarrow> (int \<times> string option) res" where
  "sys_fchdir fp w =
     (if f_dentry (w_file w fp) = 0 then Inr (EBADF, None)
      else bindr (file_vnode fp w) (\<lambda>dvp.
           bindr (vn_lock dvp w) (\<lambda>_.
           bindr (vn_unlock dvp w) (\<lambda>_.
             if v_type (w_vnode w dvp) \<noteq> VDIR then Inr (EBADF, None)
             else Inr (0, Some (strlcpy (d_path (w_dentry w (f_dentry (w_file w fp)))) PATH_MAX))))))"

text \<open>The result and the size.\<close>

definition sys_readlink :: "env \<Rightarrow> string \<Rightarrow> u64 \<Rightarrow> nat \<Rightarrow> vfs \<Rightarrow> (int \<times> int \<times> vfs) res" where
  "sys_readlink E path buf bufsize =
     with_last E path 0 (\<lambda>dp w.
       if type_of w dp \<noteq> VLNK then Inr (EINVAL, 0, w) else read_link E (d_vnode (w_dentry w dp)) buf bufsize w)"

section \<open>Times and modes\<close>

record timeval =
  tvs_sec :: int
  tvs_usec :: int

definition is_timeval_valid :: "timeval \<Rightarrow> bool" where
  "is_timeval_valid t \<longleftrightarrow> tvs_sec t \<ge> 0 \<and> tvs_usec t \<ge> 0 \<and> tvs_usec t < 1000000"

definition convert_timeval :: "env \<Rightarrow> timeval option \<Rightarrow> timespec" where
  "convert_timeval E from =
     (case from of Some t \<Rightarrow> \<lparr>tv_sec = tvs_sec t, tv_nsec = tvs_usec t * 1000\<rparr> | None \<Rightarrow> e_now E)"

definition AT_SYMLINK_NOFOLLOW :: int where "AT_SYMLINK_NOFOLLOW = 0x100"

definition set_times :: "env \<Rightarrow> u64 \<Rightarrow> timespec \<Rightarrow> timespec \<Rightarrow> vfs \<Rightarrow> (int \<times> vfs) res" where
  "set_times E vp t0 t1 w = vn_settimes (vop_setattr (vn_op E vp w)) (e_pad E ''vn_settimes'' 10) vp t0 t1 w"

definition sys_utimes :: "env \<Rightarrow> string \<Rightarrow> (timeval \<times> timeval) option \<Rightarrow> int \<Rightarrow> vfs \<Rightarrow> (int \<times> vfs) res" where
  "sys_utimes E path tms flags w =
     (if (case tms of Some (a, b) \<Rightarrow> \<not> is_timeval_valid a \<or> \<not> is_timeval_valid b | None \<Rightarrow> False) then Inr (EINVAL, w)
      else let t0 = convert_timeval E (map_option fst tms); t1 = convert_timeval E (map_option snd tms)
           in bindr (if flags AND AT_SYMLINK_NOFOLLOW \<noteq> 0
                     then bindr (lookup E path w) (\<lambda>(error, ddp, _, w1).
                            if error \<noteq> 0 then Inr (error, 0, w1)
                            else bindr (namei_last_nofollow E path ddp w1) (\<lambda>(error, dp, w2).
                                 bindr (release E ddp w2) (\<lambda>w3. Inr (error, dp, w3))))
                     else find_dentry E path w) (\<lambda>(error, dp, w4).
                if error \<noteq> 0 then Inr (error, w4)
                else bindr (if m_flags (w_mount w4 (d_mount (w_dentry w4 dp))) AND MNT_RDONLY \<noteq> 0 then Inr (EROFS, w4)
                            else set_times E (d_vnode (w_dentry w4 dp)) t0 t1 w4) (\<lambda>(error, w5).
                     bindr (release E dp w5) (\<lambda>w6. Inr (error, w6)))))"

definition UTIME_NOW :: int where "UTIME_NOW = 0x3fffffff"

definition is_timespec_valid :: "timespec \<Rightarrow> bool" where
  "is_timespec_valid t \<longleftrightarrow> tv_sec t \<ge> 0 \<and>
     (tv_nsec t \<ge> 0 \<and> tv_nsec t \<le> 999999999 \<or> tv_nsec t = UTIME_NOW \<or> tv_nsec t = UTIME_OMIT)"

definition init_timespec :: "env \<Rightarrow> timespec option \<Rightarrow> timespec" where
  "init_timespec E tms =
     (case tms of None \<Rightarrow> e_now E | Some t \<Rightarrow> if tv_nsec t = UTIME_NOW then e_now E else t)"

definition AT_FDCWD :: int where "AT_FDCWD = -100"

text \<open>The value of \<^verbatim>\<open>enum vtype\<close>.\<close>

definition vtype_num :: "vtype \<Rightarrow> int" where
  "vtype_num t = (case t of VNON \<Rightarrow> 0 | VREG \<Rightarrow> 1 | VDIR \<Rightarrow> 2 | VBLK \<Rightarrow> 3 | VCHR \<Rightarrow> 4 | VLNK \<Rightarrow> 5 | VSOCK \<Rightarrow> 6
     | VFIFO \<Rightarrow> 7 | VBAD \<Rightarrow> 8)"

definition VAPPEND :: u32 where "VAPPEND = 8"

text \<open>\<^verbatim>\<open>asprintf\<close> returns the number of characters, which the source takes for an error: the result is
  \<^verbatim>\<open>ENOMEM\<close> with or without a block.\<close>

definition asprintf_enomem :: "nat \<Rightarrow> vfs \<Rightarrow> (int \<times> vfs) res" where
  "asprintf_enomem n w = (let (ap, w1) = alloc_mem (of_nat n + 1) w in Inr (ENOMEM, w1))"

text \<open>The part on an absolute path.\<close>

definition utimensat_path :: "env \<Rightarrow> string \<Rightarrow> (timespec \<times> timespec) option \<Rightarrow> vfs \<Rightarrow> (int \<times> vfs) res" where
  "utimensat_path E pathname tms w =
     (let (ap, w1) = strdup pathname w
      in if ap = 0 then Inr (ENOMEM, w1)
         else bindr (namei E pathname w1) (\<lambda>(error, dp, w2).
              bindr (free_mem ap w2) (\<lambda>w3.
                if error \<noteq> 0 then Inr (error, w3)
                else if dp = 0 then Inl Undef
                else let vp = d_vnode (w_dentry w3 dp)
                     in if m_flags (w_mount w3 (d_mount (w_dentry w3 dp))) AND MNT_RDONLY \<noteq> 0
                        then bindr (release E dp w3) (\<lambda>w4. Inr (EROFS, w4))
                        else if vn_access vp VWRITE w3 \<noteq> 0 then Inr (EACCES, w3)
                        else if (case tms of None \<Rightarrow> False
                                 | Some (a, b) \<Rightarrow> (tv_nsec a \<noteq> UTIME_NOW \<or> tv_nsec b \<noteq> UTIME_NOW) \<and>
                                     (tv_nsec a \<noteq> UTIME_OMIT \<or> tv_nsec b \<noteq> UTIME_OMIT)) \<and> v_mode (w_vnode w3 vp) AND NOT VAPPEND = 0
                        then Inr (EPERM, w3)
                        else bindr (set_times E vp (init_timespec E (map_option fst tms)) (init_timespec E (map_option snd tms)) w3)
                               (\<lambda>(error, w4). bindr (release E dp w4) (\<lambda>w5. Inr (error, w5))))))"

definition sys_utimensat ::
  "env \<Rightarrow> string \<Rightarrow> int \<Rightarrow> string option \<Rightarrow> (timespec \<times> timespec) option \<Rightarrow> int \<Rightarrow> vfs \<Rightarrow> (int \<times> vfs) res" where
  "sys_utimensat E cwd dirfd pathname tms flags w =
     (if pathname = Some [] then Inr (ENOENT, w)
      else if flags \<noteq> 0 \<and> flags AND AT_SYMLINK_NOFOLLOW = 0 then Inr (EINVAL, w)
      else if (case tms of Some (a, b) \<Rightarrow> \<not> is_timespec_valid a \<or> \<not> is_timespec_valid b | None \<Rightarrow> False) then Inr (EINVAL, w)
      else if (case pathname of Some p \<Rightarrow> hd p = CHR ''/'' | None \<Rightarrow> False) then utimensat_path E (the pathname) tms w
      else if dirfd = AT_FDCWD
      then case pathname of None \<Rightarrow> Inr (EFAULT, w) | Some p \<Rightarrow> asprintf_enomem (length cwd + 1 + length p) w
      else bindr (vfscore_get_file dirfd w) (\<lambda>(fp, w1).
             if fp = 0 then Inr (EBADF, w1)
             else let dp = f_dentry (w_file w1 fp)
             in if dp = 0 then Inr (EBADF, w1)
                else if vtype_num (type_of w1 dp) AND vtype_num VDIR = 0 then Inr (ENOTDIR, w1)
                else asprintf_enomem (length (m_path (w_mount w1 (d_mount (w_dentry w1 dp)))) + 1 + length (d_path (w_dentry w1 dp)) +
                       (case pathname of None \<Rightarrow> 0 | Some p \<Rightarrow> 1 + length p)) w1))"

definition sys_futimens :: "env \<Rightarrow> string \<Rightarrow> int \<Rightarrow> (timespec \<times> timespec) option \<Rightarrow> vfs \<Rightarrow> (int \<times> vfs) res" where
  "sys_futimens E cwd fd tms w =
     bindr (vfscore_get_file fd w) (\<lambda>(fp, w1).
       if fp = 0 then Inr (EBADF, w1)
       else if f_dentry (w_file w1 fp) = 0 then Inr (EBADF, w1)
       else sys_utimensat E cwd AT_FDCWD (Some (d_path (w_dentry w1 (f_dentry (w_file w1 fp))))) tms 0 w1)"

definition set_mode :: "env \<Rightarrow> u64 \<Rightarrow> u32 \<Rightarrow> vfs \<Rightarrow> (int \<times> vfs) res" where
  "set_mode E vp mode w = vn_setmode (vop_setattr (vn_op E vp w)) (e_pad E ''vn_setmode'' 10) vp mode w"

definition sys_chmod :: "env \<Rightarrow> string \<Rightarrow> u32 \<Rightarrow> vfs \<Rightarrow> (int \<times> unit \<times> vfs) res" where
  "sys_chmod E path mode =
     with_path E path () (\<lambda>dp w.
       if m_flags (w_mount w (d_mount (w_dentry w dp))) AND MNT_RDONLY \<noteq> 0 then Inr (EROFS, (), w)
       else bindr (set_mode E (d_vnode (w_dentry w dp)) mode w) (\<lambda>(e, w1). Inr (e, (), w1)))"

definition sys_fchmod :: "env \<Rightarrow> int \<Rightarrow> u32 \<Rightarrow> vfs \<Rightarrow> (int \<times> vfs) res" where
  "sys_fchmod E fd mode w =
     bindr (vfscore_get_file fd w) (\<lambda>(fp, w1).
       if fp = 0 then Inr (EBADF, w1)
       else let dp = f_dentry (w_file w1 fp)
            in if dp = 0 then Inr (0, w1)
               else if m_flags (w_mount w1 (d_mount (w_dentry w1 dp))) AND MNT_RDONLY \<noteq> 0 then Inr (EROFS, w1)
               else set_mode E (d_vnode (w_dentry w1 dp)) mode w1)"

end
