(* ===== verification/Posix.thy ===== *)
theory Posix
  imports Syscalls_Names
begin

text \<open>
  The calls of the C library on files (\<^verbatim>\<open>vfscore/main.c\<close>, \<^verbatim>\<open>stdio.c\<close>): the working directory, the
  file mode mask and \<^verbatim>\<open>errno\<close> of the one process, and the wrappers that turn descriptors and
  relative paths into calls of the virtual file system. Trace points are left out.
\<close>

section \<open>The process\<close>

record proc =
  p_vfs :: vfs
  p_errno :: int
  global_umask :: u32
  t_cwd :: string
  t_cwdfp :: u64
  p_dir :: "u64 \<Rightarrow> int"

abbreviation (input) put_vfs :: "vfs \<Rightarrow> proc \<Rightarrow> proc" where
  "put_vfs w p \<equiv> p\<lparr>p_vfs := w\<rparr>"

definition libc_error :: "int \<Rightarrow> proc \<Rightarrow> (int \<times> proc) res" where
  "libc_error err p = Inr (-1, p\<lparr>p_errno := err\<rparr>)"

definition apply_umask :: "u32 \<Rightarrow> proc \<Rightarrow> u32" where
  "apply_umask mode p = mode AND NOT (global_umask p)"

text \<open>A result of the virtual file system as a result of the C library.\<close>

definition finish :: "int \<Rightarrow> int \<Rightarrow> proc \<Rightarrow> (int \<times> proc) res" where
  "finish error r p = (if error \<noteq> 0 then libc_error error p else Inr (r, p))"

text \<open>A call on the full path, and a call on the file of a descriptor.\<close>

definition path_call :: "string \<Rightarrow> int \<Rightarrow> (string \<Rightarrow> vfs \<Rightarrow> (int \<times> vfs) res) \<Rightarrow> proc \<Rightarrow> (int \<times> proc) res" where
  "path_call pathname acc f p =
     bindr (task_conv (t_cwd p) pathname acc) (\<lambda>(error, path).
       if error \<noteq> 0 then libc_error error p
       else bindr (f path (p_vfs p)) (\<lambda>(error, w). finish error 0 (put_vfs w p)))"

definition file_call :: "env \<Rightarrow> int \<Rightarrow> (u64 \<Rightarrow> vfs \<Rightarrow> (int \<times> int \<times> vfs) res) \<Rightarrow> proc \<Rightarrow> (int \<times> proc) res" where
  "file_call E fd f p =
     bindr (fget fd (p_vfs p)) (\<lambda>(error, fp, w1).
       if error \<noteq> 0 then libc_error error (put_vfs w1 p)
       else bindr (f fp w1) (\<lambda>(error, r, w2).
            bindr (fdrop E fp w2) (\<lambda>(_, w3). finish error r (put_vfs w3 p))))"

abbreviation (input) no_value :: "(int \<times> vfs) res \<Rightarrow> (int \<times> int \<times> vfs) res" where
  "no_value m \<equiv> bindr m (\<lambda>(e, w). Inr (e, 0, w))"

abbreviation (input) drop_unit :: "(int \<times> unit \<times> vfs) res \<Rightarrow> (int \<times> vfs) res" where
  "drop_unit m \<equiv> bindr m (\<lambda>(e, _, w). Inr (e, w))"

section \<open>Opening and closing\<close>

definition open_call :: "env \<Rightarrow> string \<Rightarrow> int \<Rightarrow> u32 \<Rightarrow> proc \<Rightarrow> (int \<times> proc) res" where
  "open_call E pathname flags arg p0 =
     (let mode = (if flags AND O_CREAT \<noteq> 0 then apply_umask arg p0 else 0);
          p = put_vfs (vfs_stack_window 5 (e_pad E ''open'' 5) (p_vfs p0)) p0;
          am = flags AND O_ACCMODE;
          acc = (if am = 0 then VREAD else if am = 1 then VWRITE else if am = 2 then VREAD OR VWRITE else 0)
      in bindr (task_conv (t_cwd p) pathname acc) (\<lambda>(error, path).
         if error \<noteq> 0 then libc_error error p
         else bindr (sys_open E path flags mode (p_vfs p)) (\<lambda>(error, fp, w1).
           if error \<noteq> 0 then libc_error error (put_vfs w1 p)
           else bindr (fdalloc E fp w1) (\<lambda>(error, fd, w2).
                bindr (fdrop E fp w2) (\<lambda>(_, w3). finish error fd (put_vfs w3 p))))))"

text \<open>The absolute path of \<open>pathname\<close> in the directory of a file.\<close>

definition path_at :: "u64 \<Rightarrow> string \<Rightarrow> vfs \<Rightarrow> string" where
  "path_at fp pathname w =
     (let d = w_dentry w (f_dentry (w_file w fp))
      in strlcat (strlcat (strlcat (strlcpy (m_path (w_mount w (d_mount d))) PATH_MAX) (d_path d) PATH_MAX) ''/'' PATH_MAX) pathname PATH_MAX)"

text \<open>A call relative to the directory of a descriptor; its result is returned as it is.\<close>

definition at_dir_call :: "env \<Rightarrow> int \<Rightarrow> string \<Rightarrow> (string \<Rightarrow> proc \<Rightarrow> ('a \<times> proc) res) \<Rightarrow> 'a \<Rightarrow> proc \<Rightarrow> ('a \<times> proc) res" where
  "at_dir_call E dirfd pathname f bad p =
     bindr (fget dirfd (p_vfs p)) (\<lambda>(error, fp, w1).
       if error \<noteq> 0 then Inr (bad, (put_vfs w1 p)\<lparr>p_errno := error\<rparr>)
       else bindr (file_vnode fp w1) (\<lambda>vp.
            bindr (vn_lock vp w1) (\<lambda>_.
            bindr (f (path_at fp pathname w1) (put_vfs w1 p)) (\<lambda>(r, p2).
            bindr (vn_unlock vp (p_vfs p2)) (\<lambda>_.
            bindr (fdrop E fp (p_vfs p2)) (\<lambda>(_, w3). Inr (r, put_vfs w3 p2)))))))"

definition is_absolute :: "string \<Rightarrow> bool" where
  "is_absolute path \<longleftrightarrow> path \<noteq> [] \<and> hd path = CHR ''/''"

definition openat :: "env \<Rightarrow> int \<Rightarrow> string \<Rightarrow> int \<Rightarrow> u32 \<Rightarrow> proc \<Rightarrow> (int \<times> proc) res" where
  "openat E dirfd pathname flags arg p =
     (let mode = (if flags AND O_CREAT \<noteq> 0 then apply_umask arg p else 0)
      in if is_absolute pathname \<or> dirfd = AT_FDCWD then open_call E pathname flags mode p
         else at_dir_call E dirfd pathname (\<lambda>path. open_call E path flags mode) (-1) p)"

definition creat :: "env \<Rightarrow> string \<Rightarrow> u32 \<Rightarrow> proc \<Rightarrow> (int \<times> proc) res" where
  "creat E pathname mode = open_call E pathname (O_CREAT OR 1 OR O_TRUNC) mode"

definition fdclose :: "env \<Rightarrow> int \<Rightarrow> vfs \<Rightarrow> (int \<times> vfs) res" where
  "fdclose E fd w =
     bindr (vfscore_get_file fd w) (\<lambda>(fp, w1).
       if fp = 0 then Inr (EBADF, w1)
       else bindr (vfscore_put_fd E fd w1) (\<lambda>(error, w2).
              if error = 0 then bindr (fdrop E fp w2) (\<lambda>(_, w3). Inr (0, w3)) else Inr (error, w2)))"

definition close :: "env \<Rightarrow> int \<Rightarrow> proc \<Rightarrow> (int \<times> proc) res" where
  "close E fd p = bindr (fdclose E fd (p_vfs p)) (\<lambda>(error, w). finish error 0 (put_vfs w p))"

definition xmknod :: "env \<Rightarrow> int \<Rightarrow> string \<Rightarrow> u32 \<Rightarrow> proc \<Rightarrow> (int \<times> proc) res" where
  "xmknod E ver pathname mode p =
     bindr (guardr (ver = 0) Assert) (\<lambda>_. path_call pathname VWRITE (\<lambda>path. sys_mknod E path mode) p)"

definition mknod :: "env \<Rightarrow> string \<Rightarrow> u32 \<Rightarrow> proc \<Rightarrow> (int \<times> proc) res" where
  "mknod E pathname mode = xmknod E 0 pathname mode"

section \<open>Transfers\<close>

definition lseek :: "env \<Rightarrow> int \<Rightarrow> int \<Rightarrow> int \<Rightarrow> proc \<Rightarrow> (int \<times> proc) res" where
  "lseek E fd offset whence =
     file_call E fd (\<lambda>fp w. bindr (sys_lseek E fp offset whence w) (\<lambda>(e, org, w1).
       Inr (e, (case org of Some x \<Rightarrow> x | None \<Rightarrow> 0), w1)))"

definition has_error :: "int \<Rightarrow> int \<Rightarrow> bool" where
  "has_error error bytes \<longleftrightarrow> error \<noteq> 0 \<and> (bytes = 0 \<or> error \<noteq> EAGAIN \<and> error \<noteq> EINTR)"

text \<open>The end of a transfer; the count is read although it may not have been stored.\<close>

definition transfer_call ::
  "env \<Rightarrow> int \<Rightarrow> (u64 \<Rightarrow> vfs \<Rightarrow> (int \<times> int option \<times> vfs) res) \<Rightarrow> proc \<Rightarrow> (int \<times> proc) res" where
  "transfer_call E fd f p =
     bindr (fget fd (p_vfs p)) (\<lambda>(error, fp, w1).
       if error \<noteq> 0 then libc_error error (put_vfs w1 p)
       else bindr (f fp w1) (\<lambda>(error, count, w2).
            bindr (fdrop E fp w2) (\<lambda>(_, w3).
              let p3 = put_vfs w3 p
              in case count of
                   Some bytes \<Rightarrow> if has_error error bytes then libc_error error p3 else Inr (bytes, p3)
                 | None \<Rightarrow> if error \<noteq> 0 \<and> error \<noteq> EAGAIN \<and> error \<noteq> EINTR then libc_error error p3 else Inl Undef)))"

definition preadv :: "env \<Rightarrow> int \<Rightarrow> iovec list \<Rightarrow> int \<Rightarrow> proc \<Rightarrow> (int \<times> proc) res" where
  "preadv E fd iov offset = transfer_call E fd (\<lambda>fp. sys_read E fp iov offset)"

definition pwritev :: "env \<Rightarrow> int \<Rightarrow> iovec list \<Rightarrow> int \<Rightarrow> proc \<Rightarrow> (int \<times> proc) res" where
  "pwritev E fd iov offset = transfer_call E fd (\<lambda>fp. sys_write E fp iov offset)"

definition pread :: "env \<Rightarrow> int \<Rightarrow> u64 \<Rightarrow> u64 \<Rightarrow> int \<Rightarrow> proc \<Rightarrow> (int \<times> proc) res" where
  "pread E fd buf count offset =
     transfer_call E fd (\<lambda>fp. sys_read E fp [\<lparr>iov_base = buf, iov_len = count\<rparr>] offset)"

definition pwrite :: "env \<Rightarrow> int \<Rightarrow> u64 \<Rightarrow> u64 \<Rightarrow> int \<Rightarrow> proc \<Rightarrow> (int \<times> proc) res" where
  "pwrite E fd buf count offset =
     transfer_call E fd (\<lambda>fp. sys_write E fp [\<lparr>iov_base = buf, iov_len = count\<rparr>] offset)"

definition read_call :: "env \<Rightarrow> int \<Rightarrow> u64 \<Rightarrow> u64 \<Rightarrow> proc \<Rightarrow> (int \<times> proc) res" where
  "read_call E fd buf count = pread E fd buf count (-1)"

definition write_call :: "env \<Rightarrow> int \<Rightarrow> u64 \<Rightarrow> u64 \<Rightarrow> proc \<Rightarrow> (int \<times> proc) res" where
  "write_call E fd buf count = pwrite E fd buf count (-1)"

definition readv :: "env \<Rightarrow> int \<Rightarrow> iovec list \<Rightarrow> proc \<Rightarrow> (int \<times> proc) res" where
  "readv E fd iov = preadv E fd iov (-1)"

definition writev :: "env \<Rightarrow> int \<Rightarrow> iovec list \<Rightarrow> proc \<Rightarrow> (int \<times> proc) res" where
  "writev E fd vec = pwritev E fd vec (-1)"

definition fsync :: "env \<Rightarrow> int \<Rightarrow> proc \<Rightarrow> (int \<times> proc) res" where
  "fsync E fd = file_call E fd (\<lambda>fp w. no_value (sys_fsync E fp w))"

definition fdatasync :: "env \<Rightarrow> int \<Rightarrow> proc \<Rightarrow> (int \<times> proc) res" where
  "fdatasync E fd = fsync E fd"

definition ftruncate :: "env \<Rightarrow> int \<Rightarrow> int \<Rightarrow> proc \<Rightarrow> (int \<times> proc) res" where
  "ftruncate E fd len = file_call E fd (\<lambda>fp w. no_value (sys_ftruncate E fp len w))"

definition fallocate :: "env \<Rightarrow> int \<Rightarrow> int \<Rightarrow> int \<Rightarrow> int \<Rightarrow> proc \<Rightarrow> (int \<times> proc) res" where
  "fallocate E fd mode offset len = file_call E fd (\<lambda>fp w. no_value (sys_fallocate E fp mode offset len w))"

definition fstatfs :: "env \<Rightarrow> int \<Rightarrow> proc \<Rightarrow> (int \<times> proc) res" where
  "fstatfs E fd = file_call E fd (\<lambda>fp w. no_value (sys_fstatfs E fp w))"

section \<open>Attributes\<close>

text \<open>The results are those of the call and the attributes.\<close>

definition fxstat :: "env \<Rightarrow> int \<Rightarrow> proc \<Rightarrow> ((int \<times> stat) \<times> proc) res" where
  "fxstat E fd p =
     bindr (fget fd (p_vfs p)) (\<lambda>(error, fp, w1).
       if error \<noteq> 0 then Inr ((-1, zero_stat), (put_vfs w1 p)\<lparr>p_errno := error\<rparr>)
       else bindr (sys_fstat E fp w1) (\<lambda>(error, st, w2).
            bindr (fdrop E fp w2) (\<lambda>(_, w3).
              if error \<noteq> 0 then Inr ((-1, st), (put_vfs w3 p)\<lparr>p_errno := error\<rparr>) else Inr ((0, st), put_vfs w3 p))))"

definition fstat :: "env \<Rightarrow> int \<Rightarrow> proc \<Rightarrow> ((int \<times> stat) \<times> proc) res" where
  "fstat E fd = fxstat E fd"

definition stat_path :: "(string \<Rightarrow> vfs \<Rightarrow> (int \<times> stat \<times> vfs) res) \<Rightarrow> string \<Rightarrow> proc \<Rightarrow> ((int \<times> stat) \<times> proc) res" where
  "stat_path f pathname p =
     bindr (task_conv (t_cwd p) pathname 0) (\<lambda>(error, path).
       if error \<noteq> 0 then Inr ((-1, zero_stat), p\<lparr>p_errno := error\<rparr>)
       else bindr (f path (p_vfs p)) (\<lambda>(error, st, w).
              if error \<noteq> 0 then Inr ((-1, st), (put_vfs w p)\<lparr>p_errno := error\<rparr>) else Inr ((0, st), put_vfs w p)))"

definition xstat :: "env \<Rightarrow> string \<Rightarrow> proc \<Rightarrow> ((int \<times> stat) \<times> proc) res" where
  "xstat E pathname = stat_path (sys_stat E) pathname"

definition stat_call :: "env \<Rightarrow> string option \<Rightarrow> proc \<Rightarrow> ((int \<times> stat) \<times> proc) res" where
  "stat_call E pathname p =
     (case pathname of None \<Rightarrow> Inr ((-1, zero_stat), p\<lparr>p_errno := EINVAL\<rparr>) | Some path \<Rightarrow> xstat E path p)"

definition lxstat :: "env \<Rightarrow> string \<Rightarrow> proc \<Rightarrow> ((int \<times> stat) \<times> proc) res" where
  "lxstat E pathname p =
     stat_path (sys_lstat E) pathname (put_vfs (vfs_stack_window 7 (e_pad E ''lxstat'' 7) (p_vfs p)) p)"

definition lstat :: "env \<Rightarrow> string \<Rightarrow> proc \<Rightarrow> ((int \<times> stat) \<times> proc) res" where
  "lstat E pathname = lxstat E pathname"

definition AT_EMPTY_PATH :: int where "AT_EMPTY_PATH = 0x1000"

definition fxstatat :: "env \<Rightarrow> int \<Rightarrow> string \<Rightarrow> int \<Rightarrow> proc \<Rightarrow> ((int \<times> stat) \<times> proc) res" where
  "fxstatat E dirfd pathname flags p =
     (if is_absolute pathname \<or> dirfd = AT_FDCWD then stat_call E (Some pathname) p
      else if flags AND AT_EMPTY_PATH \<noteq> 0 \<and> pathname = [] then fstat E dirfd p
      else at_dir_call E dirfd pathname
             (\<lambda>path. if flags AND AT_SYMLINK_NOFOLLOW \<noteq> 0 then lstat E path else stat_call E (Some path)) (-1, zero_stat) p)"

definition fstatat :: "env \<Rightarrow> int \<Rightarrow> string \<Rightarrow> int \<Rightarrow> proc \<Rightarrow> ((int \<times> stat) \<times> proc) res" where
  "fstatat E dirfd path flags = fxstatat E dirfd path flags"

definition statfs :: "env \<Rightarrow> string \<Rightarrow> proc \<Rightarrow> (int \<times> proc) res" where
  "statfs E pathname = path_call pathname 0 (\<lambda>path w. drop_unit (sys_statfs E path w))"

text \<open>The test of the result of \<^verbatim>\<open>fget\<close> is inverted in the source.\<close>

definition flock :: "int \<Rightarrow> int \<Rightarrow> proc \<Rightarrow> (int \<times> proc) res" where
  "flock fd operation p =
     bindr (fget fd (p_vfs p)) (\<lambda>(error, fp, w1).
       if error = 0 then libc_error EBADF (put_vfs w1 p)
       else if operation \<in> {1, 5, 2, 6, 8} then Inr (0, put_vfs w1 p)
       else libc_error EINVAL (put_vfs w1 p))"

section \<open>Directories\<close>

definition is_dir_mode :: "u32 \<Rightarrow> bool" where
  "is_dir_mode mode \<longleftrightarrow> mode AND S_IFMT = S_IFDIR"

text \<open>The result is the address of the stream, or 0.\<close>

definition opendir :: "env \<Rightarrow> string \<Rightarrow> proc \<Rightarrow> (u64 \<times> proc) res" where
  "opendir E path p =
     (let (dir, w1) = alloc_mem 4 (p_vfs p); p1 = put_vfs w1 p;
          free_dir = (\<lambda>p. bindr (free_mem dir (p_vfs p)) (\<lambda>w. Inr (0, put_vfs w p)))
      in if dir = 0 then Inr (0, p1\<lparr>p_errno := ENOMEM\<rparr>)
         else bindr (open_call E path 0 0 p1) (\<lambda>(fd, p2).
                let p3 = p2\<lparr>p_dir := (p_dir p2)(dir := fd)\<rparr>
                in if fd < 0 then free_dir p3
                   else bindr (fstat E fd p3) (\<lambda>((r, st), p4).
                          if r < 0 then free_dir p4
                          else if \<not> is_dir_mode (st_mode st) then free_dir (p4\<lparr>p_errno := ENOTDIR\<rparr>)
                          else Inr (dir, p4))))"

definition fdopendir :: "env \<Rightarrow> int \<Rightarrow> proc \<Rightarrow> (u64 \<times> proc) res" where
  "fdopendir E fd p =
     bindr (fstat E fd p) (\<lambda>((r, st), p1).
       if r < 0 then Inr (0, p1)
       else if \<not> is_dir_mode (st_mode st) then Inr (0, p1\<lparr>p_errno := ENOTDIR\<rparr>)
       else let (dir, w2) = alloc_mem 4 (p_vfs p1); p2 = put_vfs w2 p1
            in if dir = 0 then Inr (0, p2\<lparr>p_errno := ENOMEM\<rparr>) else Inr (dir, p2\<lparr>p_dir := (p_dir p2)(dir := fd)\<rparr>))"

definition dirfd_call :: "u64 \<Rightarrow> proc \<Rightarrow> (int \<times> proc) res" where
  "dirfd_call dirp p = (if dirp = 0 then libc_error EINVAL p else Inr (p_dir p dirp, p))"

definition closedir :: "env \<Rightarrow> u64 \<Rightarrow> proc \<Rightarrow> (int \<times> proc) res" where
  "closedir E dir p =
     bindr (close E (p_dir p dir) p) (\<lambda>(_, p1). bindr (free_mem dir (p_vfs p1)) (\<lambda>w. Inr (0, put_vfs w p1)))"

text \<open>The result and the entry.\<close>

definition readdir_r :: "env \<Rightarrow> u64 \<Rightarrow> proc \<Rightarrow> ((int \<times> dirent option) \<times> proc) res" where
  "readdir_r E dir p =
     bindr (fget (p_dir p dir) (p_vfs p)) (\<lambda>(error, fp, w1).
     bindr (if error = 0
            then bindr (sys_readdir E fp w1) (\<lambda>(error, entry, w2). bindr (fdrop E fp w2) (\<lambda>(_, w3). Inr (error, entry, w3)))
            else Inr (error, None, w1)) (\<lambda>(error, entry, w4).
       Inr ((if error = ENOENT then 0 else error, if error \<noteq> 0 then None else entry), put_vfs w4 p)))"

definition rewinddir :: "env \<Rightarrow> u64 \<Rightarrow> proc \<Rightarrow> proc res" where
  "rewinddir E dirp p =
     bindr (fget (p_dir p dirp) (p_vfs p)) (\<lambda>(error, fp, w1).
       if error \<noteq> 0 then Inr (put_vfs w1 p)
       else bindr (sys_rewinddir fp w1) (\<lambda>(_, _, w2). bindr (fdrop E fp w2) (\<lambda>(_, w3). Inr (put_vfs w3 p))))"

definition telldir :: "env \<Rightarrow> u64 \<Rightarrow> proc \<Rightarrow> (int \<times> proc) res" where
  "telldir E dirp p =
     file_call E (p_dir p dirp) (\<lambda>fp w. bindr (sys_telldir fp w) (\<lambda>(e, loc, w1).
       Inr (e, (case loc of Some x \<Rightarrow> x | None \<Rightarrow> 0), w1))) p"

definition seekdir :: "env \<Rightarrow> u64 \<Rightarrow> int \<Rightarrow> proc \<Rightarrow> proc res" where
  "seekdir E dirp loc p =
     bindr (fget (p_dir p dirp) (p_vfs p)) (\<lambda>(error, fp, w1).
       if error \<noteq> 0 then Inr (put_vfs w1 p)
       else bindr (sys_seekdir fp loc w1) (\<lambda>(_, _, w2). bindr (fdrop E fp w2) (\<lambda>(_, w3). Inr (put_vfs w3 p))))"

section \<open>Path names\<close>

definition mkdir :: "env \<Rightarrow> string \<Rightarrow> u32 \<Rightarrow> proc \<Rightarrow> (int \<times> proc) res" where
  "mkdir E pathname mode p =
     path_call pathname VWRITE (\<lambda>path. sys_mkdir E path (apply_umask mode p))
       (put_vfs (vfs_stack_window 5 (e_pad E ''mkdir'' 5) (p_vfs p)) p)"

text \<open>\<open>None\<close> is \<^verbatim>\<open>NULL\<close>.\<close>

definition opt_path_call :: "string option \<Rightarrow> int \<Rightarrow> (string \<Rightarrow> vfs \<Rightarrow> (int \<times> vfs) res) \<Rightarrow> proc \<Rightarrow> (int \<times> proc) res" where
  "opt_path_call pathname acc f p =
     (case pathname of None \<Rightarrow> libc_error ENOENT p | Some path \<Rightarrow> path_call path acc f p)"

definition rmdir :: "env \<Rightarrow> string option \<Rightarrow> proc \<Rightarrow> (int \<times> proc) res" where
  "rmdir E pathname = opt_path_call pathname VWRITE (sys_rmdir E)"

definition get_last_component :: "string \<Rightarrow> string" where
  "get_last_component path = last_comp (strip_trailing path (CHR ''/''))"

definition null_or_empty :: "string option \<Rightarrow> bool" where
  "null_or_empty str \<longleftrightarrow> str = None \<or> str = Some []"

definition rename :: "env \<Rightarrow> string option \<Rightarrow> string option \<Rightarrow> proc \<Rightarrow> (int \<times> proc) res" where
  "rename E oldpath newpath p =
     (if null_or_empty oldpath \<or> null_or_empty newpath then libc_error ENOENT p
      else if get_last_component (the oldpath) \<in> {''.'', ''..''} then libc_error EINVAL p
      else if get_last_component (the newpath) \<in> {''.'', ''..''} then libc_error EINVAL p
      else bindr (task_conv (t_cwd p) (the oldpath) VREAD) (\<lambda>(error, src).
             if error \<noteq> 0 then libc_error error p
             else path_call (the newpath) VWRITE (\<lambda>dest. sys_rename E src dest) p))"

text \<open>The new file replaces the old one as the working directory even when it is not a directory.\<close>

definition do_fchdir :: "env \<Rightarrow> u64 \<Rightarrow> proc \<Rightarrow> (int \<times> proc) res" where
  "do_fchdir E fp p =
     bindr (sys_fchdir fp (p_vfs p)) (\<lambda>(error, cwd).
       let p1 = p\<lparr>t_cwdfp := fp, t_cwd := (case cwd of Some s \<Rightarrow> s | None \<Rightarrow> t_cwd p)\<rparr>
       in bindr (if t_cwdfp p \<noteq> 0 then bindr (fdrop E (t_cwdfp p) (p_vfs p1)) (\<lambda>(_, w). Inr w) else Inr (p_vfs p1))
            (\<lambda>w. Inr (error, put_vfs w p1)))"

definition chdir_to :: "env \<Rightarrow> u64 \<Rightarrow> proc \<Rightarrow> (int \<times> proc) res" where
  "chdir_to E fp p =
     bindr (do_fchdir E fp p) (\<lambda>(error, p1).
       if error \<noteq> 0 then bindr (fdrop E fp (p_vfs p1)) (\<lambda>(_, w). libc_error error (put_vfs w p1)) else Inr (0, p1))"

definition chdir :: "env \<Rightarrow> string option \<Rightarrow> proc \<Rightarrow> (int \<times> proc) res" where
  "chdir E pathname p =
     (case pathname of None \<Rightarrow> libc_error ENOENT p
      | Some name \<Rightarrow>
          bindr (task_conv (t_cwd p) name VREAD) (\<lambda>(error, path).
            if error \<noteq> 0 then libc_error error p
            else bindr (sys_open E path O_DIRECTORY 0 (p_vfs p)) (\<lambda>(error, fp, w1).
                   if error \<noteq> 0 then libc_error error (put_vfs w1 p) else chdir_to E fp (put_vfs w1 p))))"

definition fchdir :: "env \<Rightarrow> int \<Rightarrow> proc \<Rightarrow> (int \<times> proc) res" where
  "fchdir E fd p =
     bindr (fget fd (p_vfs p)) (\<lambda>(error, fp, w1).
       if error \<noteq> 0 then libc_error error (put_vfs w1 p) else chdir_to E fp (put_vfs w1 p))"

definition link :: "env \<Rightarrow> string option \<Rightarrow> string option \<Rightarrow> proc \<Rightarrow> (int \<times> proc) res" where
  "link E oldpath newpath p =
     (if oldpath = None \<or> newpath = None then libc_error ENOENT p
      else bindr (task_conv (t_cwd p) (the oldpath) VWRITE) (\<lambda>(error, path1).
             if error \<noteq> 0 then libc_error error p
             else path_call (the newpath) VWRITE (\<lambda>path2. sys_link E path1 path2) p))"

definition symlink :: "env \<Rightarrow> string option \<Rightarrow> string option \<Rightarrow> proc \<Rightarrow> (int \<times> proc) res" where
  "symlink E oldpath newpath p =
     (if oldpath = None \<or> newpath = None then libc_error ENOENT p
      else bindr (sys_symlink E (t_cwd p) oldpath newpath (p_vfs p)) (\<lambda>(error, w). finish error 0 (put_vfs w p)))"

definition unlink :: "env \<Rightarrow> string option \<Rightarrow> proc \<Rightarrow> (int \<times> proc) res" where
  "unlink E pathname p =
     opt_path_call pathname VWRITE (sys_unlink E) (put_vfs (vfs_stack_window 6 (e_pad E ''unlink'' 6) (p_vfs p)) p)"

definition access :: "env \<Rightarrow> string \<Rightarrow> int \<Rightarrow> proc \<Rightarrow> (int \<times> proc) res" where
  "access E pathname mode =
     path_call pathname ((if mode AND R_OK \<noteq> 0 then VREAD else 0) OR (if mode AND W_OK \<noteq> 0 then VWRITE else 0))
       (\<lambda>path w. drop_unit (sys_access E path mode w))"

text \<open>\<^verbatim>\<open>UK_CRASH\<close> stops.\<close>

definition faccessat :: "env \<Rightarrow> int \<Rightarrow> string \<Rightarrow> int \<Rightarrow> int \<Rightarrow> proc \<Rightarrow> (int \<times> proc) res" where
  "faccessat E dirfd pathname mode flags p =
     (if flags AND AT_SYMLINK_NOFOLLOW \<noteq> 0 then Inl Assert
      else if is_absolute pathname \<or> dirfd = AT_FDCWD then access E pathname mode p
      else at_dir_call E dirfd pathname (\<lambda>path. access E path mode) (-1) p)"

definition euidaccess :: "env \<Rightarrow> string \<Rightarrow> int \<Rightarrow> proc \<Rightarrow> (int \<times> proc) res" where
  "euidaccess E pathname mode = access E pathname mode"

definition truncate :: "env \<Rightarrow> string option \<Rightarrow> int \<Rightarrow> proc \<Rightarrow> (int \<times> proc) res" where
  "truncate E pathname len = opt_path_call pathname VWRITE (\<lambda>path w. drop_unit (sys_truncate E path len w))"

definition chmod :: "env \<Rightarrow> string option \<Rightarrow> u32 \<Rightarrow> proc \<Rightarrow> (int \<times> proc) res" where
  "chmod E pathname mode = opt_path_call pathname VWRITE (\<lambda>path w. drop_unit (sys_chmod E path (mode AND UK_ALLPERMS) w))"

definition fchmod :: "env \<Rightarrow> int \<Rightarrow> u32 \<Rightarrow> proc \<Rightarrow> (int \<times> proc) res" where
  "fchmod E fd mode p = bindr (sys_fchmod E fd (mode AND UK_ALLPERMS) (p_vfs p)) (\<lambda>(error, w). finish error 0 (put_vfs w p))"

definition readlink :: "env \<Rightarrow> string option \<Rightarrow> u64 \<Rightarrow> nat \<Rightarrow> proc \<Rightarrow> (int \<times> proc) res" where
  "readlink E pathname buf bufsize p =
     (if bufsize = 0 then libc_error (- EINVAL) p
      else case pathname of None \<Rightarrow> libc_error ENOENT p
           | Some name \<Rightarrow>
               bindr (task_conv (t_cwd p) name VWRITE) (\<lambda>(error, path).
                 if error \<noteq> 0 then libc_error error p
                 else bindr (sys_readlink E path buf bufsize (p_vfs p)) (\<lambda>(error, sz, w). finish error sz (put_vfs w p))))"

text \<open>The result is the buffer, or 0; \<open>path\<close> is 0 for \<^verbatim>\<open>NULL\<close>.\<close>

definition getcwd :: "u64 \<Rightarrow> u64 \<Rightarrow> proc \<Rightarrow> (u64 \<times> proc) res" where
  "getcwd path0 sz0 p0 =
     (let len = of_nat (length (t_cwd p0)) + 1; sz = (if path0 = 0 \<and> sz0 = 0 then len else sz0);
          (path, w) = (if path0 = 0 then alloc_mem sz (p_vfs p0) else (path0, p_vfs p0)); p = put_vfs w p0;
          err = (\<lambda>e. Inr (0, p\<lparr>p_errno := e\<rparr>))
      in if path = 0 then err ENOMEM
         else if path0 \<noteq> 0 \<and> sz = 0 then err EINVAL
         else if sz < len then err ERANGE
         else Inr (path, put_vfs (w\<lparr>w_mem := store_string path (t_cwd p) (w_mem w)\<rparr>) p))"

section \<open>Descriptors\<close>

definition dup :: "env \<Rightarrow> int \<Rightarrow> proc \<Rightarrow> (int \<times> proc) res" where
  "dup E oldfd p =
     bindr (fget oldfd (p_vfs p)) (\<lambda>(error, fp, w1).
       if error \<noteq> 0 then libc_error error (put_vfs w1 p)
       else bindr (fdalloc E fp w1) (\<lambda>(error, newfd, w2).
            bindr (fdrop E fp w2) (\<lambda>(_, w3). finish error newfd (put_vfs w3 p))))"

definition dup3 :: "env \<Rightarrow> int \<Rightarrow> int \<Rightarrow> int \<Rightarrow> proc \<Rightarrow> (int \<times> proc) res" where
  "dup3 E oldfd newfd flags p =
     (if flags AND NOT O_CLOEXEC \<noteq> 0 then libc_error EINVAL p
      else if oldfd = newfd then libc_error EINVAL p
      else bindr (fget oldfd (p_vfs p)) (\<lambda>(error, fp, w1).
        if error \<noteq> 0 then libc_error error (put_vfs w1 p)
        else bindr (fget newfd w1) (\<lambda>(error, fp_new, w2).
             bindr (if error = 0 then close E newfd (put_vfs w2 p) else Inr (0, put_vfs w2 p)) (\<lambda>(error, p3).
               if error \<noteq> 0 then libc_error error p3
               else bindr (vfscore_reserve_fd newfd (p_vfs p3)) (\<lambda>(error, w4).
                 if error \<noteq> 0 then libc_error error (put_vfs w4 p3)
                 else bindr (vfscore_install_fd E newfd fp w4) (\<lambda>(error, w5).
                      bindr (fdrop E fp w5) (\<lambda>(_, w6). finish error newfd (put_vfs w6 p3))))))))"

definition dup2 :: "env \<Rightarrow> int \<Rightarrow> int \<Rightarrow> proc \<Rightarrow> (int \<times> proc) res" where
  "dup2 E oldfd newfd p = (if oldfd = newfd then Inr (newfd, p) else dup3 E oldfd newfd 0 p)"

datatype fcntl_cmd = F_DUPFD | F_GETFD | F_SETFD | F_GETFL | F_SETFL | F_DUPFD_CLOEXEC | F_SETLK | F_GETLK | F_SETLKW | F_SETOWN | F_OTHER

definition SETFL :: int where "SETFL = 0x46C00"

definition FD_CLOEXEC :: int where "FD_CLOEXEC = 1"

definition fcntl :: "env \<Rightarrow> int \<Rightarrow> fcntl_cmd \<Rightarrow> int \<Rightarrow> proc \<Rightarrow> (int \<times> proc) res" where
  "fcntl E fd cmd arg p =
     bindr (fget fd (p_vfs p)) (\<lambda>(error, fp, w1).
       if error \<noteq> 0 then libc_error error (put_vfs w1 p)
       else let fl = f_flags (w_file w1 fp);
                drop = (\<lambda>error r w. bindr (fdrop E fp w) (\<lambda>(_, w3). finish error r (put_vfs w3 p)));
                dupfd = (\<lambda>f. bindr (fdalloc E fp w1) (\<lambda>(error, r, w2).
                           if error \<noteq> 0 then libc_error error (put_vfs w2 p) else drop 0 r (f w2)))
            in case cmd of
                 F_DUPFD \<Rightarrow> dupfd (\<lambda>w. w)
               | F_GETFD \<Rightarrow> drop 0 (if fl AND O_CLOEXEC \<noteq> 0 then FD_CLOEXEC else 0) w1
               | F_SETFD \<Rightarrow> drop 0 0 (set_file fp (\<lambda>f. f\<lparr>f_flags :=
                     (fl AND NOT O_CLOEXEC) OR (if arg AND FD_CLOEXEC \<noteq> 0 then O_CLOEXEC else 0)\<rparr>) w1)
               | F_GETFL \<Rightarrow> drop 0 ((vfscore_oflags fl AND NOT O_CLOEXEC) OR 0x8000) w1
               | F_SETFL \<Rightarrow> drop 0 0 (set_file fp (\<lambda>f. f\<lparr>f_flags :=
                     vfscore_fflags ((vfscore_oflags fl AND NOT SETFL) OR (arg AND SETFL))\<rparr>) w1)
               | F_DUPFD_CLOEXEC \<Rightarrow> dupfd (\<lambda>w. set_file fp (\<lambda>f. f\<lparr>f_flags := f_flags f OR O_CLOEXEC\<rparr>) w)
               | F_OTHER \<Rightarrow> drop EINVAL 0 w1
               | _ \<Rightarrow> drop 0 0 w1)"

section \<open>Times\<close>

definition do_utimes :: "env \<Rightarrow> string \<Rightarrow> (timeval \<times> timeval) option \<Rightarrow> int \<Rightarrow> proc \<Rightarrow> (int \<times> proc) res" where
  "do_utimes E pathname tms flags = path_call pathname 0 (\<lambda>path. sys_utimes E path tms flags)"

definition utimes :: "env \<Rightarrow> string \<Rightarrow> (timeval \<times> timeval) option \<Rightarrow> proc \<Rightarrow> (int \<times> proc) res" where
  "utimes E pathname tms = do_utimes E pathname tms 0"

definition lutimes :: "env \<Rightarrow> string \<Rightarrow> (timeval \<times> timeval) option \<Rightarrow> proc \<Rightarrow> (int \<times> proc) res" where
  "lutimes E pathname tms = do_utimes E pathname tms AT_SYMLINK_NOFOLLOW"

text \<open>The block for the path is used without a test. A missing path passed on with \<^verbatim>\<open>AT_FDCWD\<close> is undefined.\<close>

definition futimesat :: "env \<Rightarrow> int \<Rightarrow> string option \<Rightarrow> (timeval \<times> timeval) option \<Rightarrow> proc \<Rightarrow> (int \<times> proc) res" where
  "futimesat E dirfd pathname tms p =
     (if (case pathname of Some s \<Rightarrow> is_absolute s | None \<Rightarrow> False) \<or> dirfd = AT_FDCWD
      then case pathname of None \<Rightarrow> Inl Undef | Some path \<Rightarrow> utimes E path tms p
      else bindr (case pathname of None \<Rightarrow> Inr (0, p)
                  | Some _ \<Rightarrow> bindr (fstat E dirfd p) (\<lambda>((r, st), p1).
                       Inr (if r \<noteq> 0 then p_errno p1 else if \<not> is_dir_mode (st_mode st) then ENOTDIR else 0, p1))) (\<lambda>(error, p2).
           if error \<noteq> 0 then libc_error error p2
           else bindr (fget dirfd (p_vfs p2)) (\<lambda>(error, fp, w3).
             if error \<noteq> 0 then libc_error error (put_vfs w3 p2)
             else let (ap, w4) = alloc_mem (of_nat PATH_MAX) w3; d = w_dentry w4 (f_dentry (w_file w4 fp));
                      dir = strlcat (strlcpy (m_path (w_mount w4 (d_mount d))) PATH_MAX) (d_path d) PATH_MAX;
                      path = (case pathname of None \<Rightarrow> dir | Some s \<Rightarrow> strlcat (strlcat dir ''/'' PATH_MAX) s PATH_MAX)
                  in if ap = 0 \<or> f_dentry (w_file w4 fp) = 0 then Inl Undef
                     else bindr (utimes E path tms (put_vfs w4 p2)) (\<lambda>(error, p5).
                          bindr (free_mem ap (p_vfs p5)) (\<lambda>w6.
                          bindr (fdrop E fp w6) (\<lambda>(_, w7). finish error 0 (put_vfs w7 p5)))))))"

definition futimes :: "env \<Rightarrow> int \<Rightarrow> (timeval \<times> timeval) option \<Rightarrow> proc \<Rightarrow> (int \<times> proc) res" where
  "futimes E fd tms = futimesat E fd None tms"

definition utimensat :: "env \<Rightarrow> int \<Rightarrow> string option \<Rightarrow> (timespec \<times> timespec) option \<Rightarrow> int \<Rightarrow> proc \<Rightarrow> (int \<times> proc) res" where
  "utimensat E dirfd pathname tms flags p =
     bindr (sys_utimensat E (t_cwd p) dirfd pathname tms flags (p_vfs p)) (\<lambda>(error, w). finish error 0 (put_vfs w p))"

definition futimens :: "env \<Rightarrow> int \<Rightarrow> (timespec \<times> timespec) option \<Rightarrow> proc \<Rightarrow> (int \<times> proc) res" where
  "futimens E fd tms p =
     bindr (sys_futimens E (t_cwd p) fd tms (p_vfs p)) (\<lambda>(error, w). finish error 0 (put_vfs w p))"

section \<open>Small calls and initialisation\<close>

definition posix_fadvise :: "int \<Rightarrow> int" where
  "posix_fadvise advice = (if advice \<in> {0, 1, 2, 3, 4, 5} then 0 else EINVAL)"

definition umask :: "u32 \<Rightarrow> proc \<Rightarrow> u32 \<times> proc" where
  "umask newmask p = (global_umask p, p\<lparr>global_umask := newmask\<rparr>)"

definition chroot :: "proc \<Rightarrow> (int \<times> proc) res" where
  "chroot p = libc_error ENOSYS p"

definition vfscore_init :: "proc \<Rightarrow> proc" where
  "vfscore_init p = p\<lparr>t_cwd := ''/'', t_cwdfp := 0, p_vfs := lookup_init (vnode_init (p_vfs p))\<rparr>"

text \<open>\<open>stdio_file\<close> is the address of the static file of the console.\<close>

definition init_stdio :: "env \<Rightarrow> u64 \<Rightarrow> proc \<Rightarrow> proc res" where
  "init_stdio E stdio_file p =
     bindr (vfscore_alloc_fd (p_vfs p)) (\<lambda>(fd, w1).
     bindr (guardr (fd = 0) Assert) (\<lambda>_.
     bindr (vfscore_install_fd E 0 stdio_file w1) (\<lambda>(_, w2).
     bindr (dup2 E 0 1 (put_vfs w2 p)) (\<lambda>(_, p3).
     bindr (dup2 E 0 2 p3) (\<lambda>(_, p4). Inr p4)))))"

definition fdtable_init :: "env \<Rightarrow> u64 \<Rightarrow> proc \<Rightarrow> proc res" where
  "fdtable_init E stdio_file p =
     init_stdio E stdio_file (put_vfs ((p_vfs p)\<lparr>fd_bitmap := replicate (UK_BITS_TO_LONGS FDTABLE_MAX_FILES) 0,
       fd_files := replicate FDTABLE_MAX_FILES 0\<rparr>) p)"

end
