(* ===== verification/Fd_Refs.thy ===== *)
theory Fd_Refs
  imports Posix Ramfs_Dirs
begin

text \<open>
  The table of file descriptors: the bitmap, the array of files and the reference counts stay
  consistent, so that no file is released while a descriptor names it, except by \<^verbatim>\<open>dup3\<close>.
\<close>

section \<open>What releasing a dentry leaves alone\<close>

definition same_files :: "vfs \<Rightarrow> vfs \<Rightarrow> bool" where
  "same_files w w' \<longleftrightarrow> w_file w' = w_file w \<and> fd_bitmap w' = fd_bitmap w \<and> fd_files w' = fd_files w"

lemma same_files_refl: "same_files w w"
  by (simp add: same_files_def)

lemma same_files_trans: "same_files a b \<Longrightarrow> same_files b c \<Longrightarrow> same_files a c"
  by (simp add: same_files_def)

lemma hlist_del_files: "hlist_del dp w = Inr w' \<Longrightarrow> same_files w w'"
  by (auto simp: hlist_del_def same_files_def split: option.splits if_splits)

lemma remove_window_files: "remove_vfs_window p w = Inr w' \<Longrightarrow> same_files w w'"
  by (auto simp: remove_vfs_window_def same_files_def res_simps)

lemma free_mem_files: "free_mem p w = Inr w' \<Longrightarrow> same_files w w'"
  by (auto simp: free_mem_def same_files_def split: if_splits)

lemma drele_unlink_files:
  assumes "drele_unlink dp w = Inr w'"
  shows "same_files w w'"
proof -
  obtain w1 w2 where "hlist_del dp w = Inr w1" "remove_vfs_window (d_vnode (w_dentry w1 dp)) w1 = Inr w2"
      "w' = vn_del_name (d_vnode (w_dentry w2 dp)) dp w2"
    using assms by (auto simp: drele_unlink_def res_simps)
  moreover have "same_files w2 (vn_del_name (d_vnode (w_dentry w2 dp)) dp w2)" by (simp add: vn_del_name_def same_files_def)
  ultimately show ?thesis using hlist_del_files remove_window_files same_files_trans by blast
qed

lemma vrele_files:
  assumes "\<And>vp w. inact vp w = Inr w" "vrele inact vp w = Inr w'"
  shows "same_files w w'"
proof (cases "v_refcnt (w_vnode w vp) - 1 > 0")
  case True
  then show ?thesis using assms(2) by (auto simp: vrele_def same_files_def split: if_splits)
next
  case False
  define w1 where "w1 = vn_unlink vp (set_vnode vp (\<lambda>v. v\<lparr>v_refcnt := v_refcnt v - 1\<rparr>) w)"
  have "free_mem vp (vfs_unbusy (v_mount (w_vnode w1 vp)) w1) = Inr w'"
    using assms False unfolding vrele_def w1_def by (auto simp: Let_def split: if_splits)
  from free_mem_files [OF this] show ?thesis by (simp add: same_files_def w1_def vn_unlink_def vfs_unbusy_def Let_def)
qed

lemma drele_free_files:
  assumes "\<And>vp w. inact vp w = Inr w" "drele_free inact dp w = Inr w'"
  shows "same_files w w'"
proof -
  obtain w1 w2 w3 where "vrele inact (d_vnode (w_dentry w dp)) w = Inr w1" "remove_vfs_window dp w1 = Inr w2"
      "free_mem (d_pathbuf (w_dentry w2 dp)) w2 = Inr w3" "free_mem dp w3 = Inr w'"
    using assms(2) by (auto simp: drele_free_def res_simps)
  then show ?thesis using vrele_files [OF assms(1)] remove_window_files free_mem_files same_files_trans by meson
qed

lemma drele_pos:
  assumes "drele inact dp w = Inr w'"
  shows "\<not> (dp = 0 \<or> \<not> d_refcnt (w_dentry w dp) > 0)"
proof
  assume "dp = 0 \<or> \<not> d_refcnt (w_dentry w dp) > 0"
  then have "drele inact dp w = Inl Assert" by (subst drele.simps) (rule if_P)
  then show False using assms by simp
qed

lemma drele_files: "(\<And>vp w. inact vp w = Inr w) \<Longrightarrow> drele inact dp w = Inr w' \<Longrightarrow> same_files w w'"
proof (induction inact dp w arbitrary: w' rule: drele.induct)
  case (1 inact dp w)
  define w1 where "w1 = set_dentry dp (\<lambda>d. d\<lparr>d_refcnt := d_refcnt d - 1\<rparr>) w"
  have s1: "same_files w w1" by (simp add: w1_def same_files_def)
  have pos: "\<not> (dp = 0 \<or> \<not> d_refcnt (w_dentry w dp) > 0)" by (rule drele_pos [OF 1(3)])
  note d = 1(3) [unfolded drele.simps [of inact dp w] if_not_P [OF pos] Let_def, folded w1_def]
  show ?case
  proof (cases "d_refcnt (w_dentry w1 dp) \<noteq> 0")
    case True
    then show ?thesis using d s1 by simp
  next
    case False
    then obtain w2 where u: "drele_unlink dp w1 = Inr w2" using d by (auto split: sum.splits)
    let ?p = "d_parent (w_dentry w2 dp)"
    have "bindr (if ?p \<noteq> 0 then drele inact ?p (del_child ?p dp w2) else Inr w2) (drele_free inact dp) = Inr w'"
      using d False u by simp
    then obtain w3 where w3: "(if ?p \<noteq> 0 then drele inact ?p (del_child ?p dp w2) else Inr w2) = Inr w3"
        "drele_free inact dp w3 = Inr w'" by (auto simp: res_simps)
    have "same_files w2 w3"
    proof (cases "?p \<noteq> 0")
      case True
      then have e: "drele inact ?p (del_child ?p dp w2) = Inr w3" using w3(1) by simp
      have "same_files (del_child ?p dp w2) w3"
        by (rule 1(1) [OF pos w1_def _ u True 1(2) e]) (use False in simp)
      moreover have "same_files w2 (del_child ?p dp w2)" by (simp add: del_child_def same_files_def)
      ultimately show ?thesis by (rule same_files_trans [rotated])
    qed (use w3(1) same_files_refl in auto)
    then show ?thesis
      using s1 drele_unlink_files [OF u] drele_free_files [OF 1(2) w3(2)] same_files_trans by blast
  qed
qed

section \<open>References to files\<close>

text \<open>Closing a file and giving up a vnode do nothing in the file system, as in ramfs.\<close>

definition quiet :: "env \<Rightarrow> bool" where
  "quiet E \<longleftrightarrow> (\<forall>vp fp w. vop_close (vn_op E vp w) vp fp w = Inr (0, w)) \<and> (\<forall>vp w. inactive E vp w = Inr w)"

lemma ramfs_quiet: "e_op E = (\<lambda>_. ramfs_vfsops pad) \<Longrightarrow> quiet E"
  by (simp add: quiet_def inactive_def vn_op_def fs_op_def ramfs_vfsops_def ramfs_vnops_def vfscore_vop_nullop_def)

lemma locked_Inr: "locked vp f w = Inr (r, w') \<Longrightarrow> f w = Inr (r, w')"
  by (auto simp: locked_def res_simps)

lemma vfs_close_files:
  assumes "quiet E" "vfs_close E fp w = Inr (r, w')"
  shows "r = 0" "\<exists>w1. same_files w w1 \<and> w' = set_file fp (\<lambda>f. f\<lparr>f_dentry := 0\<rparr>) w1"
proof -
  have i: "inactive E vp w = Inr w" for vp w using assms(1) by (simp add: quiet_def)
  obtain vp where vp: "file_vnode fp w = Inr vp" using assms(2) by (auto simp: vfs_close_def res_simps)
  then obtain e w1 where l: "locked vp (vop_close (vn_op E vp w) vp fp) w = Inr (e, w1)"
      and r: "(if e \<noteq> 0 then Inr (e, w1)
        else bindr (release E (f_dentry (w_file w1 fp)) w1) (\<lambda>w2. Inr (0, set_file fp (\<lambda>f. f\<lparr>f_dentry := 0\<rparr>) w2))) = Inr (r, w')"
    using assms(2) by (auto simp: vfs_close_def res_simps)
  have e: "e = 0" "w1 = w" using locked_Inr [OF l] assms(1) by (simp_all add: quiet_def)
  then obtain w2 where d: "release E (f_dentry (w_file w fp)) w = Inr w2" "r = 0"
      "w' = set_file fp (\<lambda>f. f\<lparr>f_dentry := 0\<rparr>) w2"
    using r by (auto simp: res_simps)
  then show "r = 0" "\<exists>w1. same_files w w1 \<and> w' = set_file fp (\<lambda>f. f\<lparr>f_dentry := 0\<rparr>) w1"
    using drele_files [OF i d(1)] by blast+
qed

text \<open>Dropping a reference changes the count of that file, and no descriptor.\<close>

lemma fdrop_files:
  assumes "quiet E" "fdrop E fp w = Inr (r, w')"
  shows "fd_bitmap w' = fd_bitmap w" "fd_files w' = fd_files w" "fp \<noteq> 0"
    "f_count (w_file w' x) = f_count (w_file w x) - (if x = fp then 1 else 0)" "0 < f_count (w_file w fp)"
proof -
  have pos: "\<not> (fp = 0 \<or> \<not> f_count (w_file w fp) > 0)" using assms(2) by (auto simp: fdrop_def split: if_splits)
  define w1 where "w1 = set_file fp (\<lambda>f. f\<lparr>f_count := f_count f - 1\<rparr>) w"
  note d = assms(2) [unfolded fdrop_def if_not_P [OF pos] Let_def, folded w1_def]
  have "fd_bitmap w' = fd_bitmap w1 \<and> fd_files w' = fd_files w1 \<and> (\<forall>x. f_count (w_file w' x) = f_count (w_file w1 x))"
  proof (cases "f_count (w_file w fp) = 1")
    case True
    then obtain e w2 w3 w4 where c: "vfs_close E fp w1 = Inr (e, w2)"
        "(if e \<noteq> 0 then release E (f_dentry (w_file w2 fp)) w2 else Inr w2) = Inr w3" "free_mem fp w3 = Inr w'"
      using d by (auto simp: res_simps)
    note q = vfs_close_files [OF assms(1) c(1)]
    obtain w0 where "same_files w1 w0" "w2 = set_file fp (\<lambda>f. f\<lparr>f_dentry := 0\<rparr>) w0" using q(2) by blast
    moreover have "same_files w2 w'" using c(2,3) q(1) free_mem_files by simp
    ultimately show ?thesis by (simp add: same_files_def)
  qed (use d in auto)
  then show "fd_bitmap w' = fd_bitmap w" "fd_files w' = fd_files w"
      "f_count (w_file w' x) = f_count (w_file w x) - (if x = fp then 1 else 0)"
    by (simp_all add: w1_def)
qed (use assms(2) in \<open>auto simp: fdrop_def split: if_splits\<close>)

section \<open>The table\<close>

definition holders :: "vfs \<Rightarrow> u64 \<Rightarrow> int" where
  "holders w fp = int (count_list (fd_files w) fp)"

text \<open>
  Every file behind a descriptor has a descriptor in use, and every file has at least as many
  references as descriptors.
\<close>

definition fd_ok :: "vfs \<Rightarrow> bool" where
  "fd_ok w \<longleftrightarrow> length (fd_bitmap w) = 16 \<and> length (fd_files w) = FDTABLE_MAX_FILES \<and>
     (\<forall>i < FDTABLE_MAX_FILES. fd_files w ! i \<noteq> 0 \<longrightarrow> bm_bit (fd_bitmap w) i) \<and>
     (\<forall>fp. fp \<noteq> 0 \<longrightarrow> holders w fp \<le> f_count (w_file w fp))"

lemma count_list_update:
  assumes "i < length xs"
  shows "int (count_list (xs[i := y]) x) = int (count_list xs x) - (if xs ! i = x then 1 else 0) + (if y = x then 1 else 0)"
proof -
  have split: "count_list (take i xs @ z # drop (Suc i) xs) x =
      count_list (take i xs) x + ((if z = x then 1 else 0) + count_list (drop (Suc i) xs) x)" for z by simp
  have c: "count_list xs x = count_list (take i xs) x + ((if xs ! i = x then 1 else 0) + count_list (drop (Suc i) xs) x)"
    unfolding split [symmetric] by (rule arg_cong [where f = "\<lambda>l. count_list l x", OF id_take_nth_drop [OF assms]])
  have "count_list (xs[i := y]) x = count_list (take i xs) x + ((if y = x then 1 else 0) + count_list (drop (Suc i) xs) x)"
    unfolding upd_conv_take_nth_drop [OF assms] by (rule split)
  then show ?thesis using c by simp
qed

lemma fd_okI:
  assumes "fd_ok w" "length (fd_bitmap w') = 16" "length (fd_files w') = FDTABLE_MAX_FILES"
    and "\<And>i. i < FDTABLE_MAX_FILES \<Longrightarrow> fd_files w' ! i \<noteq> 0 \<Longrightarrow> bm_bit (fd_bitmap w') i"
    and "\<And>fp. fp \<noteq> 0 \<Longrightarrow> holders w' fp \<le> f_count (w_file w' fp)"
  shows "fd_ok w'"
  using assms unfolding fd_ok_def by blast

lemma set_bit_range:
  assumes "uk_bitmap_set b i 1 = Inr b'" "i < 64 * length b"
  shows "range_is b b' i (i + 1) True"
proof -
  have "i + 1 \<le> 64 * length b" using assms(2) by simp
  from bitmap_range_spec [OF assigns_or this] show ?thesis using assms(1) unfolding uk_bitmap_set_def by (auto split: if_splits)
qed

lemma clear_bit_range:
  assumes "uk_bitmap_clear b i 1 = Inr b'" "i < 64 * length b"
  shows "range_is b b' i (i + 1) False"
proof -
  have "i + 1 \<le> 64 * length b" using assms(2) by simp
  from bitmap_range_spec [OF assigns_clear this] show ?thesis using assms(1) unfolding uk_bitmap_clear_def by (auto split: if_splits)
qed

lemma range_is_at:
  assumes "range_is b b' i (i + 1) v" "length b = 16" "j < FDTABLE_MAX_FILES"
  shows "bm_bit b' j = (if j = i then v else bm_bit b j)" "length b' = 16"
  using assms unfolding range_is_def FDTABLE_MAX_FILES_def by (auto simp: less_Suc_eq_le le_antisym)

text \<open>Setting a bit of the bitmap.\<close>

lemma set_fd_ok:
  assumes "fd_ok w" "range_is (fd_bitmap w) b i (i + 1) True" "i < FDTABLE_MAX_FILES"
  shows "fd_ok (w\<lparr>fd_bitmap := b\<rparr>)" "bm_bit b i"
proof -
  have l: "length (fd_bitmap w) = 16" using assms(1) by (simp add: fd_ok_def)
  note r = range_is_at [OF assms(2) l]
  show "bm_bit b i" using r(1) [OF assms(3)] by simp
  show "fd_ok (w\<lparr>fd_bitmap := b\<rparr>)"
    using assms(1) r(1) r(2) [OF assms(3)] unfolding fd_ok_def holders_def by simp
qed

lemma alloc_fd_spec:
  assumes "fd_ok w" "vfscore_alloc_fd w = Inr (fd, w')"
  shows "fd_ok w'"
    and "if fd = - ENFILE then w' = w \<and> (\<forall>i < FDTABLE_MAX_FILES. bm_bit (fd_bitmap w) i)
      else 0 \<le> fd \<and> fd < int FDTABLE_MAX_FILES \<and> \<not> bm_bit (fd_bitmap w) (nat fd) \<and> bm_bit (fd_bitmap w') (nat fd) \<and>
        (\<forall>i < nat fd. bm_bit (fd_bitmap w) i)"
    and "w_file w' = w_file w" "fd_files w' = fd_files w"
proof -
  let ?Q = "\<lambda>i. \<not> bm_bit (fd_bitmap w) i"
  have l: "length (fd_bitmap w) = 16" using assms(1) by (simp add: fd_ok_def)
  have sz: "FDTABLE_MAX_FILES \<le> 64 * length (fd_bitmap w)" by (simp add: l FDTABLE_MAX_FILES_def)
  obtain r where r: "uk_find_next_zero_bit (fd_bitmap w) FDTABLE_MAX_FILES 0 = Inr r"
      "min r FDTABLE_MAX_FILES = next_pos ?Q 0 FDTABLE_MAX_FILES" "r \<le> FDTABLE_MAX_FILES"
    using find_next_spec [OF reads_not sz le0] unfolding uk_find_next_zero_bit_def by auto
  note np = next_pos_spec [where Q = ?Q, OF le0 [of FDTABLE_MAX_FILES]]
  have rn: "r = next_pos ?Q 0 FDTABLE_MAX_FILES" using r(2,3) by simp
  have "fd_ok w' \<and> (if fd = - ENFILE then w' = w \<and> (\<forall>i < FDTABLE_MAX_FILES. bm_bit (fd_bitmap w) i)
      else 0 \<le> fd \<and> fd < int FDTABLE_MAX_FILES \<and> \<not> bm_bit (fd_bitmap w) (nat fd) \<and> bm_bit (fd_bitmap w') (nat fd) \<and>
        (\<forall>i < nat fd. bm_bit (fd_bitmap w) i)) \<and> w_file w' = w_file w \<and> fd_files w' = fd_files w"
  proof (cases "r = FDTABLE_MAX_FILES")
    case True
    then have "fd = - ENFILE" "w' = w" using assms(2) r(1) by (simp_all add: vfscore_alloc_fd_def)
    moreover have "\<forall>i < FDTABLE_MAX_FILES. bm_bit (fd_bitmap w) i" using np(3) [folded rn] True by blast
    ultimately show ?thesis using assms(1) by simp
  next
    case False
    then have less: "r < FDTABLE_MAX_FILES" using r(3) by simp
    obtain b where b: "uk_bitmap_set (fd_bitmap w) r 1 = Inr b" "fd = int r" "w' = w\<lparr>fd_bitmap := b\<rparr>"
      using assms(2) r(1) False by (auto simp: vfscore_alloc_fd_def res_simps)
    have "range_is (fd_bitmap w) b r (r + 1) True" using set_bit_range [OF b(1)] less sz by simp
    note s = set_fd_ok [OF assms(1) this less]
    have "\<not> bm_bit (fd_bitmap w) r" "\<forall>i < r. bm_bit (fd_bitmap w) i" using np(3,4) [folded rn] less by blast+
    then show ?thesis using s less b(2,3) by simp
  qed
  then show "fd_ok w'" "if fd = - ENFILE then w' = w \<and> (\<forall>i < FDTABLE_MAX_FILES. bm_bit (fd_bitmap w) i)
      else 0 \<le> fd \<and> fd < int FDTABLE_MAX_FILES \<and> \<not> bm_bit (fd_bitmap w) (nat fd) \<and> bm_bit (fd_bitmap w') (nat fd) \<and>
        (\<forall>i < nat fd. bm_bit (fd_bitmap w) i)" "w_file w' = w_file w" "fd_files w' = fd_files w" by blast+
qed

lemma test_bit_bounds:
  assumes "uk_test_bit fd b = Inr v" "length b = 16"
  shows "0 \<le> fd" "nat fd < FDTABLE_MAX_FILES"
proof -
  have d: "drop_bit 3 fd = fd div 8" by (simp add: drop_bit_eq_div)
  have "0 \<le> fd div 8 \<and> nat (fd div 8) div 8 < 16"
    using assms by (auto simp: uk_test_bit_def byte_of_def d res_simps split: if_splits)
  then show "0 \<le> fd" "nat fd < FDTABLE_MAX_FILES" by (auto simp: FDTABLE_MAX_FILES_def)
qed

lemma reserve_fd_ok:
  assumes "fd_ok w" "vfscore_reserve_fd fd w = Inr (r, w')"
  shows "fd_ok w'"
proof -
  have l: "length (fd_bitmap w) = 16" using assms(1) by (simp add: fd_ok_def)
  obtain v where v: "uk_test_bit fd (fd_bitmap w) = Inr v" using assms(2) by (auto simp: vfscore_reserve_fd_def res_simps)
  show ?thesis
  proof (cases v)
    case True
    then show ?thesis using assms v by (simp add: vfscore_reserve_fd_def)
  next
    case False
    then obtain b where b: "uk_bitmap_set (fd_bitmap w) (nat fd) 1 = Inr b" "w' = w\<lparr>fd_bitmap := b\<rparr>"
      using assms(2) v by (auto simp: vfscore_reserve_fd_def res_simps)
    note f = test_bit_bounds [OF v l]
    have "range_is (fd_bitmap w) b (nat fd) (nat fd + 1) True"
      using f(2) by (intro set_bit_range [OF b(1)]) (simp add: l FDTABLE_MAX_FILES_def)
    then show ?thesis unfolding b(2) using set_fd_ok(1) [OF assms(1) _ f(2)] by blast
  qed
qed

lemma fhold_ok:
  assumes "fd_ok w" "fhold fp w = Inr w'"
  shows "fd_ok w'" "holders w' fp < f_count (w_file w' fp)" "fp \<noteq> 0"
proof -
  have w': "w' = set_file fp (\<lambda>f. f\<lparr>f_count := f_count f + 1\<rparr>) w" "fp \<noteq> 0"
    using assms(2) by (auto simp: fhold_def split: if_splits)
  have le: "holders w x \<le> f_count (w_file w x)" if "x \<noteq> 0" for x using assms(1) that by (simp add: fd_ok_def)
  show "holders w' fp < f_count (w_file w' fp)" "fp \<noteq> 0" using le [of fp] w' by (simp_all add: holders_def)
  show "fd_ok w'"
  proof (rule fd_okI [OF assms(1)])
    show "holders w' x \<le> f_count (w_file w' x)" if "x \<noteq> 0" for x
      using le [OF that] by (auto simp: w'(1) holders_def)
  qed (use assms(1) in \<open>simp_all add: w'(1) fd_ok_def\<close>)
qed

lemma get_file_ok:
  assumes "fd_ok w" "vfscore_get_file fd w = Inr (fp, w')"
  shows "fd_ok w'"
proof (cases "fp = 0")
  case True
  then have "w' = w" using assms(2) by (auto simp: vfscore_get_file_def fhold_def res_simps split: if_splits)
  then show ?thesis using assms(1) by simp
next
  case False
  then have "fhold fp w = Inr w'" using assms(2) by (auto simp: vfscore_get_file_def res_simps split: if_splits)
  then show ?thesis by (rule fhold_ok(1) [OF assms(1)])
qed

lemma fdrop_ok:
  assumes "quiet E" "fd_ok w" "holders w fp < f_count (w_file w fp)" "fdrop E fp w = Inr (r, w')"
  shows "fd_ok w'"
proof (rule fd_okI [OF assms(2)])
  note d = fdrop_files [OF assms(1,4)]
  show "holders w' x \<le> f_count (w_file w' x)" if "x \<noteq> 0" for x
    using assms(2,3) that unfolding d(4) fd_ok_def by (auto simp: holders_def d(2))
qed (use assms(2) fdrop_files [OF assms(1,4)] in \<open>simp_all add: fd_ok_def\<close>)

text \<open>
  Replacing the file of a descriptor: the counts drop by the references given up for the
  descriptor.
\<close>

lemma replace_file_ok:
  assumes "fd_ok w" "i < FDTABLE_MAX_FILES" "length (fd_bitmap w') = 16" "fd_files w' = (fd_files w)[i := fp]"
    and "\<And>j. j < FDTABLE_MAX_FILES \<Longrightarrow> j \<noteq> i \<or> fp \<noteq> 0 \<Longrightarrow> bm_bit (fd_bitmap w) j \<Longrightarrow> bm_bit (fd_bitmap w') j"
    and "fp \<noteq> 0 \<Longrightarrow> bm_bit (fd_bitmap w') i" "fp \<noteq> 0 \<Longrightarrow> holders w fp < f_count (w_file w fp)"
    and "\<And>x. x \<noteq> 0 \<Longrightarrow> f_count (w_file w' x) = f_count (w_file w x) - (if x = fd_files w ! i then 1 else 0)"
  shows "fd_ok w'"
proof (rule fd_okI [OF assms(1,3)])
  have l: "length (fd_files w) = FDTABLE_MAX_FILES" using assms(1) by (simp add: fd_ok_def)
  show "length (fd_files w') = FDTABLE_MAX_FILES" by (simp add: assms(4) l)
  show "bm_bit (fd_bitmap w') j" if "j < FDTABLE_MAX_FILES" "fd_files w' ! j \<noteq> 0" for j
  proof (cases "j = i")
    case True
    then show ?thesis using that assms(2,6) l by (simp add: assms(4))
  next
    case False
    then have "bm_bit (fd_bitmap w) j" using that assms(1) by (simp add: assms(4) fd_ok_def)
    then show ?thesis using assms(5) [OF that(1)] False by blast
  qed
  show "holders w' x \<le> f_count (w_file w' x)" if "x \<noteq> 0" for x
  proof -
    have "i < length (fd_files w)" using assms(2) l by simp
    note c = count_list_update [OF this, of fp x]
    have "holders w x \<le> f_count (w_file w x)" using assms(1) that by (simp add: fd_ok_def)
    moreover have "x = fp \<Longrightarrow> holders w x < f_count (w_file w x)" using assms(7) that by simp
    ultimately show ?thesis unfolding assms(8) [OF that] using c by (auto simp: holders_def assms(4))
  qed
qed

lemma put_fd_ok:
  assumes "quiet E" "fd_ok w" "vfscore_put_fd E fd w = Inr (r, w')"
  shows "fd_ok w'"
proof -
  have l: "length (fd_bitmap w) = 16" "length (fd_files w) = FDTABLE_MAX_FILES" using assms(2) by (simp_all add: fd_ok_def)
  obtain b where b: "0 \<le> fd" "nat fd < FDTABLE_MAX_FILES" "uk_bitmap_clear (fd_bitmap w) (nat fd) 1 = Inr b"
      "fd < int FDTABLE_MAX_FILES"
    using assms(3) by (auto simp: vfscore_put_fd_def guardr_def res_simps split: if_splits)
  define fp where "fp = fd_files w ! nat fd"
  define w2 where "w2 = put_file_at fd 0 (w\<lparr>fd_bitmap := b\<rparr>)"
  have r: "(if fp \<noteq> 0 then bindr (fdrop E fp w2) (\<lambda>(_, w3). Inr (0, w3)) else Inr (0, w2)) = Inr (r, w')"
    using assms(3) b l by (auto simp: vfscore_put_fd_def fp_def w2_def guardr_def file_at_def Let_def)
  have w': "fd_bitmap w' = b \<and> fd_files w' = (fd_files w)[nat fd := 0] \<and>
      (\<forall>x. x \<noteq> 0 \<longrightarrow> f_count (w_file w' x) = f_count (w_file w x) - (if x = fp then 1 else 0))"
  proof (cases "fp = 0")
    case True
    then show ?thesis using r by (auto simp: w2_def put_file_at_def)
  next
    case False
    then obtain e where "fdrop E fp w2 = Inr (e, w')" using r by (auto simp: res_simps)
    from fdrop_files [OF assms(1) this] show ?thesis by (simp add: w2_def put_file_at_def)
  qed
  have "nat fd < 64 * length (fd_bitmap w)" using b(2) by (simp add: l FDTABLE_MAX_FILES_def)
  note bit = range_is_at [OF clear_bit_range [OF b(3) this] l(1)]
  show ?thesis
    by (rule replace_file_ok [OF assms(2) b(2), where fp = 0]) (use w' bit b(2) in \<open>auto simp: fp_def\<close>)
qed

lemma install_fd_ok:
  assumes "quiet E" "fd_ok w" "vfscore_install_fd E fd fp w = Inr (0, w')"
    and "bm_bit (fd_bitmap w) (nat fd)" "holders w fp < f_count (w_file w fp)"
  shows "fd_ok w'"
proof -
  have l: "length (fd_bitmap w) = 16" "length (fd_files w) = FDTABLE_MAX_FILES" using assms(2) by (simp_all add: fd_ok_def)
  have g: "\<not> (fd \<ge> int FDTABLE_MAX_FILES \<or> fp = 0)"
    using assms(3) by (auto simp: vfscore_install_fd_def split: if_splits)
  define w2 where "w2 = set_file fp (\<lambda>f. f\<lparr>f_fd := fd\<rparr>) (set_file fp (\<lambda>f. f\<lparr>f_count := f_count f + 1\<rparr>) w)"
  have fd: "0 \<le> fd" "nat fd < FDTABLE_MAX_FILES"
    using assms(3) g l by (auto simp: vfscore_install_fd_def fhold_def file_at_def Let_def split: if_splits)
  define orig where "orig = fd_files w ! nat fd"
  have "bindr (fdrop E fp (put_file_at fd fp w2)) (\<lambda>(_, w3).
      if orig \<noteq> 0 then bindr (fdrop E orig w3) (\<lambda>(_, w4). Inr (0, w4)) else Inr (0, w3)) = (Inr (0, w') :: (int \<times> vfs) res)"
    using assms(3) g fd l unfolding vfscore_install_fd_def w2_def orig_def by (simp add: fhold_def file_at_def Let_def)
  then obtain e w3 where d: "fdrop E fp (put_file_at fd fp w2) = Inr (e, w3)"
      and r: "(if orig \<noteq> 0 then bindr (fdrop E orig w3) (\<lambda>(_, w4). Inr (0, w4)) else Inr (0, w3)) = (Inr (0, w') :: (int \<times> vfs) res)"
    by (cases "fdrop E fp (put_file_at fd fp w2)") auto
  note d3 = fdrop_files [OF assms(1) d]
  have w3: "fd_bitmap w3 = fd_bitmap w" "fd_files w3 = (fd_files w)[nat fd := fp]"
      "f_count (w_file w3 x) = f_count (w_file w x)" for x
    using d3(1,2,4) by (simp_all add: w2_def put_file_at_def)
  have w': "fd_bitmap w' = fd_bitmap w \<and> fd_files w' = (fd_files w)[nat fd := fp] \<and>
      (\<forall>x. x \<noteq> 0 \<longrightarrow> f_count (w_file w' x) = f_count (w_file w x) - (if x = orig then 1 else 0))"
  proof (cases "orig = 0")
    case True
    then show ?thesis using r w3 by auto
  next
    case False
    then obtain e where "fdrop E orig w3 = Inr (e, w')" using r by (auto simp: res_simps)
    from fdrop_files [OF assms(1) this] show ?thesis by (simp add: w3)
  qed
  show ?thesis
    by (rule replace_file_ok [OF assms(2) fd(2), where fp = fp]) (use w' assms(4,5) l in \<open>auto simp: orig_def\<close>)
qed

lemma fdalloc_ok:
  assumes "quiet E" "fd_ok w" "fdalloc E fp w = Inr (r, fd, w')"
  shows "fd_ok w'"
proof -
  obtain w1 d w2 where h: "fhold fp w = Inr w1" and a: "vfscore_alloc_fd w1 = Inr (d, w2)"
      and i: "(if d < 0 then Inr (d, -1, w2)
       else bindr (vfscore_install_fd E d fp w2) (\<lambda>(ret, w3).
              if ret \<noteq> 0 then bindr (fdrop E fp w3) (\<lambda>(_, w4). Inr (ret, -1, w4)) else Inr (0, d, w3))) = Inr (r, fd, w')"
    using assms(3) by (auto simp: fdalloc_def res_simps)
  note w1 = fhold_ok [OF assms(2) h]
  note w2 = alloc_fd_spec [OF w1(1) a]
  have spare: "holders w2 fp < f_count (w_file w2 fp)" using w1(2) w2(3,4) by (simp add: holders_def)
  show ?thesis
  proof (cases "d < 0")
    case True
    then show ?thesis using i w2(1) by simp
  next
    case False
    then obtain ret w3 where v: "vfscore_install_fd E d fp w2 = Inr (ret, w3)"
        "(if ret \<noteq> 0 then bindr (fdrop E fp w3) (\<lambda>(_, w4). Inr (ret, -1, w4)) else Inr (0, d, w3)) = Inr (r, fd, w')"
      using i by (auto simp: res_simps)
    have d: "d < int FDTABLE_MAX_FILES" "bm_bit (fd_bitmap w2) (nat d)" using w2(2) False by (auto split: if_splits)
    have "ret = 0" using v(1) d w1(3) by (auto simp: vfscore_install_fd_def Let_def res_simps split: if_splits)
    then have "vfscore_install_fd E d fp w2 = Inr (0, w')" using v by simp
    then show ?thesis using install_fd_ok [OF assms(1) w2(1) _ d(2) spare] by blast
  qed
qed

section \<open>Sequences of operations on the table\<close>

text \<open>
  One operation on the table. A reference may be dropped by a caller that holds one besides those
  of the descriptors, and a file may be installed under a descriptor in use with such a reference.
\<close>

inductive fd_step :: "env \<Rightarrow> vfs \<Rightarrow> vfs \<Rightarrow> bool" for E where
  alloc: "vfscore_alloc_fd w = Inr (fd, w') \<Longrightarrow> fd_step E w w'"
| reserve: "vfscore_reserve_fd fd w = Inr (r, w') \<Longrightarrow> fd_step E w w'"
| get: "vfscore_get_file fd w = Inr (fp, w') \<Longrightarrow> fd_step E w w'"
| put: "vfscore_put_fd E fd w = Inr (r, w') \<Longrightarrow> fd_step E w w'"
| hold: "fhold fp w = Inr w' \<Longrightarrow> fd_step E w w'"
| drop: "holders w fp < f_count (w_file w fp) \<Longrightarrow> fdrop E fp w = Inr (r, w') \<Longrightarrow> fd_step E w w'"
| install: "bm_bit (fd_bitmap w) (nat fd) \<Longrightarrow> holders w fp < f_count (w_file w fp) \<Longrightarrow>
    vfscore_install_fd E fd fp w = Inr (0, w') \<Longrightarrow> fd_step E w w'"
| attach: "fdalloc E fp w = Inr (r, fd, w') \<Longrightarrow> fd_step E w w'"

lemma fd_step_ok:
  assumes "quiet E" "fd_step E w w'" "fd_ok w"
  shows "fd_ok w'"
  using assms(2)
proof cases
  case alloc
  show ?thesis by (rule alloc_fd_spec(1) [OF assms(3) alloc])
next
  case reserve
  show ?thesis by (rule reserve_fd_ok [OF assms(3) reserve])
next
  case get
  show ?thesis by (rule get_file_ok [OF assms(3) get])
next
  case put
  show ?thesis by (rule put_fd_ok [OF assms(1,3) put])
next
  case hold
  show ?thesis by (rule fhold_ok(1) [OF assms(3) hold])
next
  case drop
  show ?thesis by (rule fdrop_ok [OF assms(1,3) drop])
next
  case install
  show ?thesis by (rule install_fd_ok [OF assms(1,3) install(3,1,2)])
next
  case attach
  show ?thesis by (rule fdalloc_ok [OF assms(1,3) attach])
qed

lemma fd_steps_ok:
  assumes "quiet E" "(fd_step E)\<^sup>*\<^sup>* w w'" "fd_ok w"
  shows "fd_ok w'"
  using assms(2,3) by (induction rule: rtranclp_induct) (simp_all add: fd_step_ok [OF assms(1)])

lemma holders_pos:
  assumes "i < length (fd_files w)"
  shows "1 \<le> holders w (fd_files w ! i)"
proof -
  have "count_list (fd_files w) (fd_files w ! i) \<noteq> 0" using assms by (simp add: count_list_0_iff)
  then show ?thesis by (simp add: holders_def)
qed

text \<open>
  C38: through every sequence of operations on the table of descriptors (allocating and
  reserving a descriptor, taking and dropping references, installing, looking up and closing), a
  descriptor that names a file stays marked as in use, and its file keeps a reference for every
  descriptor that names it: no file behind a descriptor has been released.
\<close>

theorem fd_table_keeps_references:
  assumes "quiet E" "fd_ok w" "(fd_step E)\<^sup>*\<^sup>* w w'"
  shows "fd_ok w' \<and> (\<forall>i < FDTABLE_MAX_FILES. fd_files w' ! i \<noteq> 0 \<longrightarrow>
    bm_bit (fd_bitmap w') i \<and> 1 \<le> f_count (w_file w' (fd_files w' ! i)))"
proof -
  have ok: "fd_ok w'" by (rule fd_steps_ok [OF assms(1,3,2)])
  have "1 \<le> f_count (w_file w' (fd_files w' ! i))" if "i < FDTABLE_MAX_FILES" "fd_files w' ! i \<noteq> 0" for i
  proof -
    have "1 \<le> holders w' (fd_files w' ! i)" using ok that(1) by (intro holders_pos) (simp add: fd_ok_def)
    also have "\<dots> \<le> f_count (w_file w' (fd_files w' ! i))" using ok that(2) unfolding fd_ok_def by blast
    finally show ?thesis .
  qed
  then show ?thesis using ok unfolding fd_ok_def by blast
qed

section \<open>Duplicating a descriptor\<close>

lemma fdrop_more:
  assumes "fp \<noteq> 0" "f_count (w_file w fp) > 1"
  shows "fdrop E fp w = Inr (0, set_file fp (\<lambda>f. f\<lparr>f_count := f_count f - 1\<rparr>) w)"
  using assms by (simp add: fdrop_def Let_def)

text \<open>The last reference: the file has a dentry that others use, and is a block of the allocator.\<close>

definition closable :: "u64 \<Rightarrow> vfs \<Rightarrow> bool" where
  "closable fp w \<longleftrightarrow> fp \<noteq> 0 \<and> w_live w fp \<noteq> None \<and>
     (let dp = f_dentry (w_file w fp); vp = d_vnode (w_dentry w dp)
      in dp \<noteq> 0 \<and> 1 < d_refcnt (w_dentry w dp) \<and> vp \<noteq> 0 \<and> 0 < v_refcnt (w_vnode w vp))"

lemma fdrop_last:
  assumes "quiet E" "closable fp w" "f_count (w_file w fp) = 1"
  shows "\<exists>w'. fdrop E fp w = Inr (1, w') \<and> w_live w' fp = None"
proof -
  define w1 where "w1 = set_file fp (\<lambda>f. f\<lparr>f_count := f_count f - 1\<rparr>) w"
  define dp where "dp = f_dentry (w_file w fp)"
  define vp where "vp = d_vnode (w_dentry w dp)"
  have c: "fp \<noteq> 0" "w_live w fp \<noteq> None" "dp \<noteq> 0" "1 < d_refcnt (w_dentry w dp)" "vp \<noteq> 0" "0 < v_refcnt (w_vnode w vp)"
    using assms(2) by (simp_all add: closable_def Let_def dp_def vp_def)
  have q: "vop_close (vn_op E vp w1) vp fp w1 = Inr (0, w1)" using assms(1) by (simp add: quiet_def)
  have v: "file_vnode fp w1 = Inr vp" "vn_lock vp w1 = Inr ()" "vn_unlock vp w1 = Inr ()" "f_dentry (w_file w1 fp) = dp"
    using c by (simp_all add: w1_def file_vnode_def vp_def dp_def vn_lock_def vn_unlock_def guardr_def)
  have r: "drele i dp w1 = Inr (set_dentry dp (\<lambda>d. d\<lparr>d_refcnt := d_refcnt d - 1\<rparr>) w1)" for i
    by (subst drele.simps) (use c in \<open>simp add: w1_def Let_def\<close>)
  have "vfs_close E fp w1 = Inr (0, set_file fp (\<lambda>f. f\<lparr>f_dentry := 0\<rparr>) (set_dentry dp (\<lambda>d. d\<lparr>d_refcnt := d_refcnt d - 1\<rparr>) w1))"
    unfolding vfs_close_def locked_def v(1) bindr_Inr v(2,3) q prod.case v(4) by (simp add: r v(4))
  moreover have "w_live w1 fp \<noteq> None" using c by (simp add: w1_def)
  moreover have "\<not> (fp = 0 \<or> \<not> f_count (w_file w fp) > 0)" using c(1) assms(3) by simp
  note pos = this
  ultimately show ?thesis
    unfolding fdrop_def if_not_P [OF pos] Let_def w1_def [symmetric] using c(1) assms(3) by (simp add: free_mem_def)
qed

lemma set_bit_low:
  assumes "i < 64" "length b = 16"
  obtains b' where "uk_bitmap_set b i 1 = Inr b'" "range_is b b' i (i + 1) True"
proof -
  have "i + 1 \<le> 64 * length b" "i + 1 \<le> 64" using assms by simp_all
  then show ?thesis using bitmap_range_spec [OF assigns_or, of i 1 b] that unfolding uk_bitmap_set_def by auto
qed

lemma clear_bit_low:
  assumes "i < 64" "length b = 16"
  obtains b' where "uk_bitmap_clear b i 1 = Inr b'" "range_is b b' i (i + 1) False"
proof -
  have "i + 1 \<le> 64 * length b" "i + 1 \<le> 64" using assms by simp_all
  then show ?thesis using bitmap_range_spec [OF assigns_clear, of i 1 b] that unfolding uk_bitmap_clear_def by auto
qed

lemma fget_used:
  assumes "length (fd_bitmap w) = 16" "length (fd_files w) = FDTABLE_MAX_FILES"
    and "0 \<le> fd" "fd < int FDTABLE_MAX_FILES" "bm_bit (fd_bitmap w) (nat fd)" "fd_files w ! nat fd = fp" "fp \<noteq> 0"
  shows "vfscore_get_file fd w = Inr (fp, set_file fp (\<lambda>f. f\<lparr>f_count := f_count f + 1\<rparr>) w)"
proof -
  have "uk_test_bit fd (fd_bitmap w) = Inr True"
    using test_bit_spec [OF assms(3), of "fd_bitmap w"] assms(1,4,5) by (simp add: FDTABLE_MAX_FILES_def)
  then show ?thesis using assms by (simp add: vfscore_get_file_def guardr_def file_at_def fhold_def)
qed

lemma fget_free:
  assumes "length (fd_bitmap w) = 16" "0 \<le> fd" "fd < int FDTABLE_MAX_FILES" "\<not> bm_bit (fd_bitmap w) (nat fd)"
  shows "vfscore_get_file fd w = Inr (0, w)" "uk_test_bit fd (fd_bitmap w) = Inr False"
proof -
  show t: "uk_test_bit fd (fd_bitmap w) = Inr False"
    using test_bit_spec [OF assms(2), of "fd_bitmap w"] assms(1,3,4) by (simp add: FDTABLE_MAX_FILES_def)
  show "vfscore_get_file fd w = Inr (0, w)" using assms(3) t by (simp add: vfscore_get_file_def guardr_def)
qed

text \<open>The state after \<^verbatim>\<open>dup2\<close>.\<close>

lemma dup2_state:
  assumes ok: "fd_ok (p_vfs p)" and fd: "0 \<le> old" "old < 64" "0 \<le> new" "new < 64" "old \<noteq> new"
    and old: "bm_bit (fd_bitmap (p_vfs p)) (nat old)" "fd_files (p_vfs p) ! nat old = fp" "fp \<noteq> 0"
    and cnt: "f_count (w_file (p_vfs p) fp) = 1" and new: "\<not> bm_bit (fd_bitmap (p_vfs p)) (nat new)"
  shows "\<exists>b. range_is (fd_bitmap (p_vfs p)) b (nat new) (nat new + 1) True \<and>
    dup2 E old new p = Inr (new, p\<lparr>p_vfs := (p_vfs p)\<lparr>fd_bitmap := b,
      fd_files := (fd_files (p_vfs p))[nat new := fp],
      w_file := (w_file (p_vfs p))(fp := (w_file (p_vfs p) fp)\<lparr>f_fd := new, f_count := 1\<rparr>)\<rparr>\<rparr>)"
proof -
  let ?w = "p_vfs p"
  have l: "length (fd_bitmap ?w) = 16" "length (fd_files ?w) = FDTABLE_MAX_FILES" using ok by (simp_all add: fd_ok_def)
  have lt: "old < int FDTABLE_MAX_FILES" "new < int FDTABLE_MAX_FILES" using fd by (simp_all add: FDTABLE_MAX_FILES_def)
  have g1: "fget old ?w = Inr (0, fp, set_file fp (\<lambda>f. f\<lparr>f_count := f_count f + 1\<rparr>) ?w)" (is "_ = Inr (0, fp, ?w1)")
    using fget_used [OF l fd(1) lt(1) old] old(3) by (simp add: fget_def)
  have l1: "length (fd_bitmap ?w1) = 16" using l by simp
  have n1: "\<not> bm_bit (fd_bitmap ?w1) (nat new)" using new by simp
  have g2: "fget new ?w1 = Inr (EBADF, 0, ?w1)" using fget_free(1) [OF l1 fd(3) lt(2) n1] by (simp add: fget_def)
  have low: "nat new < 64" using fd(3,4) by simp
  obtain b where b: "uk_bitmap_set (fd_bitmap ?w) (nat new) 1 = Inr b" "range_is (fd_bitmap ?w) b (nat new) (nat new + 1) True"
    by (rule set_bit_low [OF low l(1)])
  have r: "vfscore_reserve_fd new ?w1 = Inr (0, ?w1\<lparr>fd_bitmap := b\<rparr>)"
    using fget_free(2) [OF l1 fd(3) lt(2) n1] b(1) by (simp add: vfscore_reserve_fd_def)
  have z: "fd_files ?w ! nat new = 0" using ok new lt fd(3) unfolding fd_ok_def by (metis nat_less_iff)
  have len: "nat new < length (fd_files ?w)" using l lt fd(3) by simp
  define w3 where "w3 = ?w\<lparr>fd_bitmap := b, fd_files := (fd_files ?w)[nat new := fp],
    w_file := (w_file ?w)(fp := (w_file ?w fp)\<lparr>f_fd := new, f_count := 2\<rparr>)\<rparr>"
  have i: "vfscore_install_fd E new fp (?w1\<lparr>fd_bitmap := b\<rparr>) = Inr (0, w3)"
    unfolding vfscore_install_fd_def
    using lt(2) old(3) z len fd(3) cnt by (simp add: fhold_def file_at_def put_file_at_def fdrop_more w3_def)
  have d: "fdrop E fp w3 = Inr (0, ?w\<lparr>fd_bitmap := b, fd_files := (fd_files ?w)[nat new := fp],
      w_file := (w_file ?w)(fp := (w_file ?w fp)\<lparr>f_fd := new, f_count := 1\<rparr>)\<rparr>)"
    using old(3) cnt by (simp add: fdrop_more w3_def)
  have "dup2 E old new p = Inr (new, p\<lparr>p_vfs := ?w\<lparr>fd_bitmap := b, fd_files := (fd_files ?w)[nat new := fp],
      w_file := (w_file ?w)(fp := (w_file ?w fp)\<lparr>f_fd := new, f_count := 1\<rparr>)\<rparr>\<rparr>)"
    unfolding dup2_def dup3_def if_not_P [OF fd(5)] g1 bindr_Inr prod.case g2 by (simp add: r i d finish_def)
  then show ?thesis using b(2) by blast
qed

text \<open>Closing a descriptor whose file has one reference releases the file.\<close>

lemma close_last:
  assumes "quiet E" "length (fd_bitmap (p_vfs p)) = 16" "length (fd_files (p_vfs p)) = FDTABLE_MAX_FILES" "0 \<le> fd" "fd < 64"
    and "bm_bit (fd_bitmap (p_vfs p)) (nat fd)" "fd_files (p_vfs p) ! nat fd = fp"
    and "closable fp (p_vfs p)" "f_count (w_file (p_vfs p) fp) = 1"
  shows "\<exists>p'. close E fd p = Inr (0, p') \<and> w_live (p_vfs p') fp = None \<and>
    fd_files (p_vfs p') = (fd_files (p_vfs p))[nat fd := 0] \<and>
    range_is (fd_bitmap (p_vfs p)) (fd_bitmap (p_vfs p')) (nat fd) (nat fd + 1) False"
proof -
  let ?w = "p_vfs p"
  define w1 where "w1 = set_file fp (\<lambda>f. f\<lparr>f_count := f_count f + 1\<rparr>) ?w"
  have fp: "fp \<noteq> 0" using assms(8) by (simp add: closable_def)
  have lt: "fd < int FDTABLE_MAX_FILES" "nat fd < 64" using assms(4,5) by (simp_all add: FDTABLE_MAX_FILES_def)
  have g: "vfscore_get_file fd ?w = Inr (fp, w1)"
    unfolding w1_def by (rule fget_used [OF assms(2,3,4) lt(1) assms(6,7) fp])
  obtain b where b: "uk_bitmap_clear (fd_bitmap ?w) (nat fd) 1 = Inr b" "range_is (fd_bitmap ?w) b (nat fd) (nat fd + 1) False"
    by (rule clear_bit_low [OF lt(2) assms(2)])
  define w2 where "w2 = ?w\<lparr>fd_bitmap := b, fd_files := (fd_files ?w)[nat fd := 0],
    w_file := (w_file ?w)(fp := (w_file ?w fp)\<lparr>f_count := 1\<rparr>)\<rparr>"
  have "nat fd < length (fd_files ?w)" using assms(3) lt assms(4) by simp
  then have put: "vfscore_put_fd E fd w1 = Inr (0, w2)"
    using b(1) lt assms(4,7,9) fp
    by (simp add: vfscore_put_fd_def guardr_def w1_def file_at_def put_file_at_def Let_def fdrop_more w2_def)
  have c: "closable fp w2" "f_count (w_file w2 fp) = 1" using assms(8,9) by (simp_all add: w2_def closable_def)
  obtain w3 where d: "fdrop E fp w2 = Inr (1, w3)" "w_live w3 fp = None" using fdrop_last [OF assms(1) c] by blast
  note f = fdrop_files(1,2) [OF assms(1) d(1)]
  have "close E fd p = Inr (0, p\<lparr>p_vfs := w3\<rparr>)"
    by (simp add: close_def fdclose_def g fp put d(1) finish_def)
  then show ?thesis using d(2) f b(2) by (simp add: w2_def)
qed

text \<open>
  C39: \<^verbatim>\<open>dup2\<close> does not take a reference for the new descriptor, because \<^verbatim>\<open>vfscore_install_fd\<close> drops
  the one it takes. The file of a descriptor with one reference is then behind two descriptors
  with one reference, and closing the new descriptor releases it while the old one still names it.
\<close>

theorem dup2_releases_shared_file:
  assumes "quiet E" "fd_ok (p_vfs p)" "0 \<le> old" "old < 64" "0 \<le> new" "new < 64" "old \<noteq> new"
    and "bm_bit (fd_bitmap (p_vfs p)) (nat old)" "fd_files (p_vfs p) ! nat old = fp"
    and "\<not> bm_bit (fd_bitmap (p_vfs p)) (nat new)"
    and "closable fp (p_vfs p)" "f_count (w_file (p_vfs p) fp) = 1"
  shows "\<exists>p1 p2. dup2 E old new p = Inr (new, p1) \<and> close E new p1 = Inr (0, p2) \<and>
    bm_bit (fd_bitmap (p_vfs p2)) (nat old) \<and> fd_files (p_vfs p2) ! nat old = fp \<and> w_live (p_vfs p2) fp = None"
proof -
  let ?w = "p_vfs p"
  have fp: "fp \<noteq> 0" using assms(11) by (simp add: closable_def)
  have l: "length (fd_bitmap ?w) = 16" "length (fd_files ?w) = FDTABLE_MAX_FILES" using assms(2) by (simp_all add: fd_ok_def)
  have lt: "nat old < FDTABLE_MAX_FILES" "nat new < FDTABLE_MAX_FILES" "nat old \<noteq> nat new"
    using assms(3-7) by (simp_all add: FDTABLE_MAX_FILES_def)
  obtain b where b: "range_is (fd_bitmap ?w) b (nat new) (nat new + 1) True"
      and d: "dup2 E old new p = Inr (new, p\<lparr>p_vfs := ?w\<lparr>fd_bitmap := b, fd_files := (fd_files ?w)[nat new := fp],
        w_file := (w_file ?w)(fp := (w_file ?w fp)\<lparr>f_fd := new, f_count := 1\<rparr>)\<rparr>\<rparr>)" (is "_ = Inr (new, ?p1)")
    using dup2_state [OF assms(2-9) fp assms(12,10)] by blast
  note bb = range_is_at [OF b l(1)]
  have "closable fp (p_vfs ?p1)" using assms(11) by (simp add: closable_def)
  then obtain p2 where p2: "close E new ?p1 = Inr (0, p2)" "w_live (p_vfs p2) fp = None"
      "fd_files (p_vfs p2) = (fd_files (p_vfs ?p1))[nat new := 0]"
      "range_is (fd_bitmap (p_vfs ?p1)) (fd_bitmap (p_vfs p2)) (nat new) (nat new + 1) False"
    using close_last [OF assms(1), of ?p1 new fp] bb(1) [OF lt(2)] bb(2) [OF lt(2)] l(2) lt assms(5,6,12) by auto
  have "bm_bit (fd_bitmap (p_vfs p2)) (nat old)"
    using range_is_at(1) [OF p2(4) _ lt(1)] bb(1) [OF lt(1)] bb(2) [OF lt(2)] lt(3) assms(8) by simp
  then show ?thesis using d p2 lt(3) assms(9) by auto
qed

section \<open>A table with one open file\<close>

definition ex_ramfs_env :: env where
  "ex_ramfs_env = \<lparr>e_names = add_fs, e_op = (\<lambda>_. ramfs_vfsops 0x7000), e_pad = (\<lambda>_ _. 0x7000), e_link = 0x7000, e_bsize = 512,
     e_now = \<lparr>tv_sec = 0, tv_nsec = 0\<rparr>, e_name = []\<rparr>"

definition ex_table :: vfs where
  "ex_table = ex_vfs\<lparr>fd_bitmap := 1 # replicate 15 0, fd_files := 0x5000 # replicate 1023 0, w_live := [0x5000 \<mapsto> 56],
     w_file := (w_file ex_vfs)(0x5000 := \<lparr>f_fd = 0, f_flags = 1, f_count = 1, f_offset = 0, f_data = 0, f_vfs_flags = 0, f_dentry = 0x4000\<rparr>),
     w_dentry := (w_dentry ex_vfs)(0x4000 := \<lparr>d_refcnt = 2, d_path = ''/a'', d_pathbuf = 0x4080, d_vnode = 0x1100,
       d_mount = 0x3000, d_parent = 0, d_child_list = []\<rparr>)\<rparr>"

definition ex_proc :: proc where
  "ex_proc = \<lparr>p_vfs = ex_table, p_errno = 0, global_umask = 0, t_cwd = ''/'', t_cwdfp = 0, p_dir = (\<lambda>_. 0)\<rparr>"

lemma ex_ramfs_env_quiet: "quiet ex_ramfs_env"
  by (rule ramfs_quiet [where pad = "0x7000"]) (simp add: ex_ramfs_env_def)

lemma count_list_replicate_other: "x \<noteq> y \<Longrightarrow> count_list (replicate n y) x = 0"
  by (simp add: count_list_0_iff)

lemma ex_table_ok: "fd_ok ex_table"
proof (rule fd_ok_def [THEN iffD2], intro conjI allI impI)
  show "length (fd_bitmap ex_table) = 16" "length (fd_files ex_table) = FDTABLE_MAX_FILES"
    by (simp_all add: ex_table_def FDTABLE_MAX_FILES_def)
  show "bm_bit (fd_bitmap ex_table) i" if "i < FDTABLE_MAX_FILES" "fd_files ex_table ! i \<noteq> 0" for i
  proof -
    have "i = 0" using that by (cases i) (simp_all add: ex_table_def FDTABLE_MAX_FILES_def)
    then show ?thesis by (simp add: bm_bit_def ex_table_def)
  qed
  show "holders ex_table x \<le> f_count (w_file ex_table x)" if "x \<noteq> 0" for x
    using that by (simp add: holders_def ex_table_def ex_vfs_def count_list_replicate_other)
qed

lemma ex_table_bits: "bm_bit (fd_bitmap ex_table) 0" "\<not> bm_bit (fd_bitmap ex_table) 1" "fd_files ex_table ! 0 = 0x5000"
  by (simp_all add: bm_bit_def ex_table_def)

lemma ex_table_closable: "closable 0x5000 ex_table" "f_count (w_file ex_table 0x5000) = 1"
  by (simp_all add: closable_def ex_table_def ex_vfs_def ex_vnode_def)

lemma ex_table_steps: "\<exists>w'. (fd_step ex_ramfs_env)\<^sup>*\<^sup>* ex_table w' \<and> f_count (w_file w' 0x5000) = 2"
proof -
  let ?w = "set_file 0x5000 (\<lambda>f. f\<lparr>f_count := f_count f + 1\<rparr>) ex_table"
  have "fhold 0x5000 ex_table = Inr ?w" by (simp add: fhold_def)
  then have "(fd_step ex_ramfs_env)\<^sup>*\<^sup>* ex_table ?w" using fd_step.hold r_into_rtranclp by metis
  then show ?thesis using ex_table_closable(2) by (intro exI [of _ ?w]) simp
qed

theorem fd_table_keeps_references_witness:
  "\<exists>w'. (fd_step ex_ramfs_env)\<^sup>*\<^sup>* ex_table w' \<and> f_count (w_file w' 0x5000) = 2 \<and> fd_ok w'"
  using ex_table_steps fd_table_keeps_references [OF ex_ramfs_env_quiet ex_table_ok] by blast

theorem dup2_releases_shared_file_witness:
  "\<exists>p1 p2. dup2 ex_ramfs_env 0 1 ex_proc = Inr (1, p1) \<and> close ex_ramfs_env 1 p1 = Inr (0, p2) \<and>
    bm_bit (fd_bitmap (p_vfs p2)) 0 \<and> fd_files (p_vfs p2) ! 0 = 0x5000 \<and> w_live (p_vfs p2) 0x5000 = None"
  using dup2_releases_shared_file [OF ex_ramfs_env_quiet, of ex_proc 0 1 "0x5000"] ex_table_ok ex_table_bits ex_table_closable
  by (simp add: ex_proc_def)

end
