(* ===== verification/Fd_Transfers.thy ===== *)
theory Fd_Transfers
  imports Fd_Refs Ramfs_Files
begin

text \<open>
  Transfers through descriptors (\<^verbatim>\<open>pread\<close>, \<^verbatim>\<open>pwrite\<close>) on a file of ramfs: the calls of the C library,
  the system calls, the operations on files and those of the file system together.
\<close>

section \<open>What a transfer of ramfs leaves alone\<close>

definition same_calls :: "vfs \<Rightarrow> vfs \<Rightarrow> bool" where
  "same_calls w w' \<longleftrightarrow> w_file w' = w_file w \<and> w_dentry w' = w_dentry w \<and> fd_bitmap w' = fd_bitmap w \<and> fd_files w' = fd_files w \<and>
     (\<forall>vp. v_refcnt (w_vnode w' vp) = v_refcnt (w_vnode w vp))"

lemma same_calls_refl: "same_calls w w"
  by (simp add: same_calls_def)

lemma same_calls_trans: "same_calls a b \<Longrightarrow> same_calls b c \<Longrightarrow> same_calls a c"
  by (simp add: same_calls_def)

definition keeps_live :: "u64 \<Rightarrow> vfs \<Rightarrow> vfs \<Rightarrow> bool" where
  "keeps_live b w w' \<longleftrightarrow> (\<forall>x. x \<noteq> b \<longrightarrow> w_live w x \<noteq> None \<longrightarrow> w_live w' x \<noteq> None)"

lemma write_grow_frame:
  assumes "write_grow vp e w = Inr (0, w')"
  shows "same_calls w w'" "keeps_live (rn_buf (fnode w vp)) w w'" "w_answers w' = tl (w_answers w)"
proof -
  let ?N = "align_up (word_of_int e) 4096 :: u64" and ?n = "fnode w vp"
  obtain q w1 where c: "calloc_mem 1 ?N w = (q, w1)" by fastforce
  have w1: "w_answers w1 = tl (w_answers w)" "same_calls w w1" "keeps_live b w w1" for b
    using c by (auto simp: calloc_mem_def alloc_mem_def same_calls_def keeps_live_def split: list.splits if_splits)
  have q: "q \<noteq> 0" using assms by (auto simp: write_grow_def c split: if_splits)
  obtain w2 where a: "add_ramfs_window q ?N w1 = Inr w2" using assms q by (auto simp: write_grow_def c Let_def res_simps)
  have w2: "w_answers w2 = w_answers w1" "same_calls w1 w2" "w_live w2 = w_live w1"
    using a by (auto simp: add_ramfs_window_def same_calls_def res_simps)
  obtain w4 where f: "(if rn_size ?n \<noteq> 0
        then let w3 = w2\<lparr>w_mem := memcpy q (rn_buf ?n) (word_of_int (v_size (w_vnode w vp))) (w_mem w2)\<rparr>
             in if rn_owns_buf ?n then bindr (free_mem (rn_buf ?n) w3) (remove_ramfs_window (rn_buf ?n)) else Inr w3
        else Inr w2) = Inr w4"
      and w': "w' = set_node (v_data (w_vnode w vp)) (\<lambda>n. n\<lparr>rn_buf := q, rn_bufsize := ?N\<rparr>) w4"
    using assms q unfolding write_grow_def c Let_def prod.case by (auto simp: a res_simps)
  have w4: "w_answers w4 = w_answers w2" "same_calls w2 w4" "keeps_live (rn_buf ?n) w2 w4"
    using f by (auto simp: Let_def free_mem_def remove_ramfs_window_def same_calls_def keeps_live_def res_simps split: if_splits)
  show "w_answers w' = tl (w_answers w)" by (simp add: w' w4(1) w2(1) w1(1))
  show "same_calls w w'" using w1(2) w2(2) w4(2) unfolding w' same_calls_def by simp
  show "keeps_live (rn_buf ?n) w w'" using w1(3) w2(3) w4(3) unfolding w' keeps_live_def by simp
qed

lemma write_expand_frame:
  assumes "file_ok w vp" "0 \<le> uio_offset u" "0 < uio_resid u" "uio_offset u + uio_resid u \<le> 2 ^ 61"
    and "write_expand vp u w = Inr (0, w')"
  shows "same_calls w w'" "keeps_live (rn_buf (fnode w vp)) w w'"
    "w_answers w' = (if unat (rn_bufsize (fnode w vp)) < nat (uio_offset u + uio_resid u) then tl (w_answers w) else w_answers w)"
proof -
  let ?e = "uio_offset u + uio_resid u" and ?n = "fnode w vp"
  note fb = file_bounds [OF assms(1)]
  have test: "word_of_int (uio_offset u) + word_of_int (uio_resid u) > (word_of_int (v_size (w_vnode w vp)) :: u64) \<longleftrightarrow>
      v_size (w_vnode w vp) < ?e"
    using write_test [of "uio_offset u" "uio_resid u"] assms(2-4) fb(1,2) by simp
  have small: "\<not> ?e > LONG_MAX" using assms(4) by (simp add: LONG_MAX_def)
  note d = assms(5) [unfolded write_expand_def Let_def test fb(4) if_not_P [OF small]]
  have "same_calls w w' \<and> keeps_live (rn_buf ?n) w w' \<and>
      w_answers w' = (if unat (rn_bufsize ?n) < nat ?e then tl (w_answers w) else w_answers w)"
  proof (cases "unat (rn_bufsize ?n) < nat ?e")
    case True
    then have "v_size (w_vnode w vp) < ?e" using fb(1,3) by linarith
    then obtain w1 where g: "write_grow vp ?e w = Inr (0, w1)"
        and w': "w' = set_node (v_data (w_vnode w vp)) (\<lambda>n. n\<lparr>rn_size := word_of_int ?e, rn_owns_buf := True\<rparr>)
            (set_vnode vp (\<lambda>v. v\<lparr>v_size := ?e\<rparr>) w1)"
      using d True by (auto simp: res_simps split: if_splits)
    show ?thesis using write_grow_frame [OF g] True by (simp add: w' same_calls_def keeps_live_def)
  next
    case False
    then show ?thesis using d by (auto simp: same_calls_def keeps_live_def split: if_splits)
  qed
  then show "same_calls w w'" "keeps_live (rn_buf ?n) w w'"
    "w_answers w' = (if unat (rn_bufsize ?n) < nat ?e then tl (w_answers w) else w_answers w)" by blast+
qed

lemma ramfs_write_frame:
  assumes "file_ok w vp" "0 \<le> uio_offset u" "0 < uio_resid u" "uio_offset u + uio_resid u \<le> 2 ^ 61" "ioflag AND IO_APPEND = 0"
    and "ramfs_write vp u ioflag w = Inr (0, u', w')"
  shows "same_calls w w'" "keeps_live (rn_buf (fnode w vp)) w w'"
    "w_answers w' = (if unat (rn_bufsize (fnode w vp)) < nat (uio_offset u + uio_resid u) then tl (w_answers w) else w_answers w)"
proof -
  have ty: "v_type (w_vnode w vp) = VREG" using assms(1) by (simp add: file_ok_def)
  have small: "\<not> uio_offset u \<ge> LONG_MAX" using assms(3,4) by (simp add: LONG_MAX_def)
  obtain w1 where e: "write_expand vp u w = Inr (0, w1)"
      and m: "same_calls w1 w'" "w_live w' = w_live w1" "w_answers w' = w_answers w1"
    using assms(2,3,5,6) ty small
    by (auto simp: ramfs_write_def uiomove_vfs_def Let_def same_calls_def res_simps split: if_splits)
  note f = write_expand_frame [OF assms(1-4) e]
  show "same_calls w w'" "keeps_live (rn_buf (fnode w vp)) w w'"
    "w_answers w' = (if unat (rn_bufsize (fnode w vp)) < nat (uio_offset u + uio_resid u) then tl (w_answers w) else w_answers w)"
    using f m same_calls_trans by (auto simp: keeps_live_def)
qed

lemma ramfs_read_frame:
  assumes "ramfs_read vp u w = Inr (r, u', w')"
  shows "same_calls w w'" "w_live w' = w_live w"
  using assms by (auto simp: ramfs_read_def uiomove_vfs_def Let_def same_calls_def res_simps split: if_splits)

section \<open>Transfers on an open file\<close>

text \<open>\<open>fp\<close> is a file open for reading and writing, without appending, on the vnode \<open>vp\<close>.\<close>

definition open_rw :: "u64 \<Rightarrow> u64 \<Rightarrow> vfs \<Rightarrow> bool" where
  "open_rw fp vp w \<longleftrightarrow> fp \<noteq> 0 \<and> f_flags (w_file w fp) AND UK_FREAD \<noteq> 0 \<and> f_flags (w_file w fp) AND UK_FWRITE \<noteq> 0 \<and>
     f_flags (w_file w fp) AND O_APPEND = 0 \<and> f_dentry (w_file w fp) \<noteq> 0 \<and>
     d_vnode (w_dentry w (f_dentry (w_file w fp))) = vp \<and> vp \<noteq> 0 \<and> 0 < v_refcnt (w_vnode w vp)"

lemma open_rw_same: "same_calls w w' \<Longrightarrow> open_rw fp vp w' = open_rw fp vp w"
  by (simp add: same_calls_def open_rw_def)

lemma open_rw_vnode:
  assumes "open_rw fp vp w"
  shows "file_vnode fp w = Inr vp" "vn_lock vp w = Inr ()" "vn_unlock vp w = Inr ()"
  using assms by (simp_all add: open_rw_def file_vnode_def vn_lock_def vn_unlock_def guardr_def)

lemma ramfs_vn_op: "e_op E = (\<lambda>_. ramfs_vfsops pad) \<Longrightarrow> vn_op E vp w = ramfs_vnops pad"
  by (simp add: vn_op_def fs_op_def ramfs_vfsops_def)

lemma vfs_write_ramfs:
  assumes "e_op E = (\<lambda>_. ramfs_vfsops pad)" "open_rw fp vp w"
    and "\<And>io. io AND IO_APPEND = 0 \<Longrightarrow> \<exists>u' w'. ramfs_write vp u io w = Inr (0, u', w') \<and> same_calls w w' \<and> P u' w'"
  shows "\<exists>u' w'. vfs_write E fp u FOF_OFFSET w = Inr (0, u', w') \<and> same_calls w w' \<and> P u' w'"
proof -
  define io where "io = (if f_flags (w_file w fp) AND O_APPEND \<noteq> 0 then IO_APPEND else 0) OR
    (if f_flags (w_file w fp) AND (O_DSYNC OR O_SYNC) \<noteq> 0 then IO_SYNC else 0)"
  have "io AND IO_APPEND = 0" using assms(2) by (simp add: io_def open_rw_def IO_APPEND_def IO_SYNC_def)
  then obtain u' w' where r: "ramfs_write vp u io w = Inr (0, u', w')" "same_calls w w'" "P u' w'" using assms(3) by blast
  have f: "FOF_OFFSET \<noteq> 0" "advance fp FOF_OFFSET n w' = w'" for n by (simp_all add: FOF_OFFSET_def advance_def)
  have u: "vn_unlock vp w' = Inr ()" using open_rw_vnode(3) open_rw_same [OF r(2)] assms(2) by blast
  have v: "vop_write (ramfs_vnops pad) = ramfs_write" by (simp add: ramfs_vnops_def)
  have "vfs_write E fp u FOF_OFFSET w = Inr (0, u', w')"
    unfolding vfs_write_def open_rw_vnode [OF assms(2)] bindr_Inr ramfs_vn_op [OF assms(1)] Let_def io_def [symmetric] v
    by (simp add: r(1) f u)
  then show ?thesis using r by blast
qed

lemma vfs_read_ramfs:
  assumes "e_op E = (\<lambda>_. ramfs_vfsops pad)" "open_rw fp vp w" "ramfs_read vp u w = Inr (0, u', w')"
  shows "vfs_read E fp u FOF_OFFSET w = Inr (0, u', w')"
proof -
  have f: "FOF_OFFSET \<noteq> 0" "advance fp FOF_OFFSET n w' = w'" for n by (simp_all add: FOF_OFFSET_def advance_def)
  have u: "vn_unlock vp w' = Inr ()" using open_rw_vnode(3) open_rw_same [OF ramfs_read_frame(1) [OF assms(3)]] assms(2) by blast
  have v: "vop_read (ramfs_vnops pad) vp fp u 0 w = ramfs_read vp u w" by (simp add: ramfs_vnops_def)
  show ?thesis
    unfolding vfs_read_def open_rw_vnode [OF assms(2)] bindr_Inr ramfs_vn_op [OF assms(1)] Let_def
    by (simp add: v assms(3) f u)
qed

section \<open>The system calls\<close>

lemma calloc_answer:
  assumes "w_answers w = c # ps" "c \<noteq> 0"
  shows "calloc_mem k n w = (c, w\<lparr>w_mem := memset c 0 (k * n) (w_mem w), w_answers := ps, w_live := (w_live w)(c \<mapsto> k * n)\<rparr>)"
  using assms by (simp add: calloc_mem_def alloc_mem_def)

lemma memset_outside: "x \<notin> set (span c (unat n)) \<Longrightarrow> memset c v n m x = m x"
  using in_span_iff [OF less_imp_le [OF u64_less_exp], of x c n] by (simp add: memset_def word_less_nat_alt)

definition one_vec :: "u64 \<Rightarrow> u64 \<Rightarrow> iovec list" where
  "one_vec buf count = [\<lparr>iov_base = buf, iov_len = count\<rparr>]"

definition vec_uio :: "uio_rw \<Rightarrow> u64 \<Rightarrow> u64 \<Rightarrow> int \<Rightarrow> uio" where
  "vec_uio dir buf count off =
     \<lparr>uio_iov = one_vec buf count, uio_iovcnt = 1, uio_offset = off, uio_resid = uint count, uio_dir = dir\<rparr>"

text \<open>The pages of the buffer of a file that holds a transfer.\<close>

definition pages :: "int \<Rightarrow> u64 \<Rightarrow> nat" where
  "pages off count = (nat (off + uint count) + 4095) div 4096 * 4096"

text \<open>
  A write finds the blocks it needs: \<open>c\<close> for the copy of the vectors and \<open>p\<close> for the file, if it
  has to grow. They are new blocks, apart from the data and from each other.
\<close>

definition write_ready :: "u64 \<Rightarrow> u64 \<Rightarrow> int \<Rightarrow> u64 \<Rightarrow> u64 \<Rightarrow> u64 \<Rightarrow> u64 list \<Rightarrow> vfs \<Rightarrow> bool" where
  "write_ready buf count off vp c p ps w \<longleftrightarrow> file_ok w vp \<and> buf_ok w vp \<and> 0 \<le> off \<and>
     w_answers w = c # ps \<and> c \<noteq> 0 \<and> c \<noteq> rn_buf (fnode w vp) \<and>
     (\<exists>e \<in> set (take VFS_HEAP_MAX (rt_tab (vfs_heap_tab w))). ipc_size e = 0) \<and>
     write_ok (w\<lparr>w_answers := ps\<rparr>) vp (vec_uio UIO_WRITE buf count off) off p \<and>
     set (span c 16) \<inter> (set (span buf (unat count)) \<union> set (fbytes w vp) \<union> set (span p (pages off count))) = {}"

text \<open>What a write through a file gives.\<close>

definition written :: "u64 \<Rightarrow> u64 \<Rightarrow> int \<Rightarrow> u64 \<Rightarrow> u64 \<Rightarrow> vfs \<Rightarrow> vfs \<Rightarrow> bool" where
  "written buf count off vp p w w' \<longleftrightarrow> same_calls w w' \<and> file_ok w' vp \<and> buf_ok w' vp \<and>
     fsize w' vp = max (fsize w vp) (nat off + unat count) \<and>
     (\<forall>j < unat count. fbyte w' vp (nat off + j) = w_mem w (buf + of_nat j)) \<and>
     set (fbytes w' vp) \<subseteq> set (fbytes w vp) \<union> set (span p (pages off count))"

lemma ramfs_write_ready:
  assumes "file_ok w vp" "buf_ok w vp" "0 \<le> off" "write_ok w vp (vec_uio UIO_WRITE buf count off) off p" "io AND IO_APPEND = 0"
  shows "\<exists>u' w'. ramfs_write vp (vec_uio UIO_WRITE buf count off) io w = Inr (0, u', w') \<and> same_calls w w' \<and>
    (uio_resid u' = 0 \<and> written buf count off vp p w w' \<and> keeps_live (rn_buf (fnode w vp)) w w' \<and>
     w_answers w' = (if unat (rn_bufsize (fnode w vp)) < nat (off + uint count) then tl (w_answers w) else w_answers w))"
proof -
  let ?u = "vec_uio UIO_WRITE buf count off"
  have u: "uio_offset ?u = off" "uio_resid ?u = uint count" "addrs (uio_iov ?u) = span buf (unat count)"
    by (simp_all add: vec_uio_def one_vec_def)
  have pos: "write_pos w vp ?u io = off" using assms(5) by (simp add: write_pos_def u)
  have b: "0 < uint count" "off + uint count \<le> 2 ^ 61" using assms(4) unfolding write_ok_def u by blast+
  then have lm: "uio_offset ?u < LONG_MAX" "0 \<le> uio_offset ?u" using assms(3) by (simp_all add: u LONG_MAX_def)
  have n: "nat (uio_resid ?u) = unat count" "nat off + unat count = nat (off + uint count)"
    using assms(3) by (simp_all add: u nat_add_distrib)
  have pg: "pages off count = (nat off + unat count + 4095) div 4096 * 4096" by (simp only: pages_def n(2))
  obtain u' w' where r: "ramfs_write vp ?u io w = Inr (0, u', w')" "uio_resid u' = 0" "file_ok w' vp" "buf_ok w' vp"
      "fsize w' vp = max (fsize w vp) (nat off + unat count)"
      "\<forall>i < fsize w' vp. fbyte w' vp i = (if nat off \<le> i \<and> i < nat off + unat count then w_mem w (span buf (unat count) ! (i - nat off))
         else if fsize w vp \<le> i \<and> unat (rn_bufsize (fnode w vp)) < nat off + unat count then 0 else fbyte w vp i)"
      "set (fbytes w' vp) \<subseteq> set (fbytes w vp) \<union> set (span p (pages off count))"
    by (rule ramfs_write_ok [OF assms(1,2) lm(2,1), where ioflag = io and p = p, unfolded pos u(3) n(1) pg [symmetric], OF assms(4)])
      (rule that)
  note f = ramfs_write_frame [OF assms(1) lm(2) _ _ assms(5) r(1), unfolded u(1,2), OF b]
  have "fbyte w' vp (nat off + j) = w_mem w (buf + of_nat j)" if "j < unat count" for j
    using r(6) [rule_format, of "nat off + j"] that r(5) by simp
  then show ?thesis using r f unfolding written_def by blast
qed

lemma free_window_slot:
  assumes "\<exists>e \<in> set (take VFS_HEAP_MAX (rt_tab t)). ipc_size e = 0"
  obtains t' where "vfs_ipc_add_heap t p n m = Inr t'"
proof -
  obtain i where "find_slot (\<lambda>e. ipc_size e = 0) (take VFS_HEAP_MAX (rt_tab t)) = Some i"
    using assms find_slot_None [of "\<lambda>e. ipc_size e = 0" "take VFS_HEAP_MAX (rt_tab t)"] by fastforce
  then show ?thesis by (intro that) (simp add: vfs_ipc_add_heap_def)
qed

lemma remove_window_returns: "\<exists>t'. vfs_ipc_remove_heap t p = Inr t'"
  by (simp add: vfs_ipc_remove_heap_def split: option.splits)

text \<open>Giving back the copy of the vectors does not touch the file.\<close>

lemma written_release:
  assumes "written buf count off vp p w w3" "set (span c 16) \<inter> (set (fbytes w vp) \<union> set (span p (pages off count))) = {}"
  shows "written buf count off vp p w (w3\<lparr>w_live := (w_live w3)(c := None), vfs_heap_tab := t\<rparr>)"
proof -
  have c: "c \<in> set (span c 16)" unfolding in_span by (intro exI [of _ 0]) simp
  have "rn_buf (fnode w3 vp) \<noteq> c" if "0 < unat (rn_bufsize (fnode w3 vp))"
  proof -
    have "rn_buf (fnode w3 vp) \<in> set (fbytes w3 vp)" using that unfolding fbytes_def in_span by (intro exI [of _ 0]) simp
    then show ?thesis using assms c unfolding written_def by blast
  qed
  moreover define w' where "w' = w3\<lparr>w_live := (w_live w3)(c := None), vfs_heap_tab := t\<rparr>"
  ultimately have "buf_ok w' vp" using assms(1) by (auto simp: written_def buf_ok_def windowed_def)
  moreover have "file_ok w' vp = file_ok w3 vp" "same_calls w w' = same_calls w w3" "fbyte w' vp = fbyte w3 vp" "fbytes w' vp = fbytes w3 vp"
      "fsize w' vp = fsize w3 vp"
    by (auto simp: w'_def file_ok_def same_calls_def fbyte_def fbytes_def)
  ultimately show ?thesis using assms(1) unfolding written_def w'_def by simp
qed

lemma sys_write_ready:
  assumes E: "e_op E = (\<lambda>_. ramfs_vfsops pad)" and rw: "open_rw fp vp w" and rdy: "write_ready buf count off vp c p ps w"
  shows "\<exists>w'. sys_write E fp (one_vec buf count) off w = Inr (0, Some (uint count), w') \<and> written buf count off vp p w w' \<and>
    w_answers w' = (if unat (rn_bufsize (fnode w vp)) < nat (off + uint count) then tl ps else ps)"
proof -
  let ?u = "vec_uio UIO_WRITE buf count off"
  define w1 where "w1 = (vfs_stack_window 8 (e_pad E ''sys_write'' 8) w)\<lparr>w_mem := memset c 0 16 (w_mem w), w_answers := ps,
      w_live := (w_live w)(c \<mapsto> 16)\<rparr>"
  have ok: "file_ok w vp" "buf_ok w vp" "0 \<le> off" and ans: "w_answers w = c # ps" "c \<noteq> 0" "c \<noteq> rn_buf (fnode w vp)"
    and slot: "\<exists>e \<in> set (take VFS_HEAP_MAX (rt_tab (vfs_heap_tab w))). ipc_size e = 0"
    and wr: "write_ok (w\<lparr>w_answers := ps\<rparr>) vp ?u off p"
    and apart: "set (span c 16) \<inter> (set (span buf (unat count)) \<union> set (fbytes w vp) \<union> set (span p (pages off count))) = {}"
    using rdy unfolding write_ready_def by blast+
  have b: "0 < uint count" "uint count < 2147483648" "off + uint count \<le> 2 ^ 61"
    using wr unfolding write_ok_def vec_uio_def by simp_all
  have alloc: "calloc_mem sizeof_iovec (of_nat (length (one_vec buf count))) (vfs_stack_window 8 (e_pad E ''sys_write'' 8) w) = (c, w1)"
    using calloc_answer [of "vfs_stack_window 8 (e_pad E ''sys_write'' 8) w" c ps sizeof_iovec 1] ans(1,2)
    by (simp add: w1_def vfs_stack_window_def sizeof_iovec_def one_vec_def)
  obtain tb where tb: "vfs_ipc_add_heap (vfs_heap_tab w) c 16 (bits [21, 2, 17]) = Inr tb"
    by (rule free_window_slot [OF slot])
  define w2 where "w2 = w1\<lparr>vfs_heap_tab := tb\<rparr>"
  have sc: "same_calls w w2" by (simp add: w2_def w1_def vfs_stack_window_def same_calls_def)
  have node: "fnode w2 vp = fnode w vp" "fbytes w2 vp = fbytes w vp" "v_size (w_vnode w2 vp) = v_size (w_vnode w vp)"
    by (simp_all add: w2_def w1_def vfs_stack_window_def fbytes_def)
  have ok2: "file_ok w2 vp" "buf_ok w2 vp" "write_ok w2 vp ?u off p"
    using ok wr by (simp_all add: w2_def w1_def vfs_stack_window_def file_ok_def buf_ok_def windowed_def write_ok_def can_grow_def fbytes_def)
  obtain u' w3 where v: "vfs_write E fp ?u FOF_OFFSET w2 = Inr (0, u', w3)" "same_calls w2 w3" "uio_resid u' = 0"
      "written buf count off vp p w2 w3" "keeps_live (rn_buf (fnode w2 vp)) w2 w3"
      "w_answers w3 = (if unat (rn_bufsize (fnode w2 vp)) < nat (off + uint count) then tl (w_answers w2) else w_answers w2)"
    using vfs_write_ramfs [OF E rw [folded open_rw_same [OF sc]] ramfs_write_ready [OF ok2(1,2) ok(3) ok2(3)]] by blast
  have "w_live w2 c \<noteq> None" by (simp add: w2_def w1_def)
  then have "w_live w3 c \<noteq> None" using v(5) ans(3) unfolding keeps_live_def node by blast
  then have fr: "free_mem c w3 = Inr (w3\<lparr>w_live := (w_live w3)(c := None)\<rparr>)" using ans(2) by (simp add: free_mem_def)
  obtain tc where tc: "vfs_ipc_remove_heap (vfs_heap_tab w3) c = Inr tc"
    using remove_window_returns by blast
  let ?w = "w3\<lparr>w_live := (w_live w3)(c := None), vfs_heap_tab := tc\<rparr>"
  have "w_mem w2 (buf + of_nat j) = w_mem w (buf + of_nat j)" if "j < unat count" for j
  proof -
    have "buf + of_nat j \<in> set (span buf (unat count))" using that unfolding in_span by blast
    then have "buf + of_nat j \<notin> set (span c (unat (16 :: u64)))" using apart by auto
    then show ?thesis by (simp add: w2_def w1_def memset_outside)
  qed
  then have "written buf count off vp p w w3"
    using v(4) same_calls_trans [OF sc] by (simp add: written_def node)
  then have "written buf count off vp p w ?w" by (rule written_release) (use apart in blast)
  moreover have "w_answers ?w = (if unat (rn_bufsize (fnode w vp)) < nat (off + uint count) then tl ps else ps)"
    using v(6) unfolding node by (simp add: w2_def w1_def)
  moreover have "sys_write E fp (one_vec buf count) off w = Inr (0, Some (uint count), ?w)"
  proof -
    have i: "iov_bytes (one_vec buf count) 0 = Some (uint count)" using b(2) by (simp add: one_vec_def IOSIZE_MAX_def)
    have a: "add_vfs_window c 16 (bits [21, 2, 17]) w1 = Inr w2"
      using tb by (simp add: add_vfs_window_def w2_def w1_def vfs_stack_window_def)
    have u: "\<lparr>uio_iov = one_vec buf count, uio_iovcnt = int (length (one_vec buf count)), uio_offset = off, uio_resid = uint count,
        uio_dir = UIO_WRITE\<rparr> = ?u" by (simp add: vec_uio_def one_vec_def)
    have f: "f_flags (w_file w fp) AND UK_FWRITE \<noteq> 0" "(if off = -1 then 0 else FOF_OFFSET) = FOF_OFFSET"
      using rw ok(3) by (auto simp: open_rw_def)
    have s: "sizeof_iovec * of_nat (length (one_vec buf count)) = 16" by (simp add: sizeof_iovec_def one_vec_def)
    show ?thesis
      unfolding sys_write_def if_not_P [OF f(1)] i option.case Let_def alloc prod.case u f(2) s a bindr_Inr v(1) fr
      using b(1) ans(2) v(3) by (simp add: remove_vfs_window_def tc)
  qed
  ultimately show ?thesis by blast
qed

lemma sys_read_ready:
  assumes E: "e_op E = (\<lambda>_. ramfs_vfsops pad)" and rw: "open_rw fp vp w" and ok: "file_ok w vp"
    and ans: "w_answers w = c # ps" "c \<noteq> 0" and rd: "read_ok w vp (vec_uio UIO_READ buf count off)"
    and apart: "set (span c 16) \<inter> set (fbytes w vp) = {}" and fits: "nat off + unat count \<le> fsize w vp"
  shows "\<exists>w'. sys_read E fp (one_vec buf count) off w = Inr (0, Some (uint count), w') \<and> same_calls w w' \<and>
    (\<forall>j < unat count. w_mem w' (buf + of_nat j) = fbyte w vp (nat off + j))"
proof -
  let ?u = "vec_uio UIO_READ buf count off"
  define w1 where "w1 = (vfs_stack_window 9 (e_pad E ''sys_read'' 9) w)\<lparr>w_mem := memset c 0 16 (w_mem w), w_answers := ps,
      w_live := (w_live w)(c \<mapsto> 16)\<rparr>"
  have u: "uio_offset ?u = off" "uio_resid ?u = uint count" "addrs (uio_iov ?u) = span buf (unat count)"
    by (simp_all add: vec_uio_def one_vec_def)
  have b: "0 < uint count" "uint count < 2147483648" "0 \<le> off" using rd unfolding read_ok_def u by blast+
  have alloc: "calloc_mem sizeof_iovec (of_nat (length (one_vec buf count))) (vfs_stack_window 9 (e_pad E ''sys_read'' 9) w) = (c, w1)"
    using calloc_answer [of "vfs_stack_window 9 (e_pad E ''sys_read'' 9) w" c ps sizeof_iovec 1] ans
    by (simp add: w1_def vfs_stack_window_def sizeof_iovec_def one_vec_def)
  have sc: "same_calls w w1" by (simp add: w1_def vfs_stack_window_def same_calls_def)
  have node: "fnode w1 vp = fnode w vp" "fbytes w1 vp = fbytes w vp" "fsize w1 vp = fsize w vp"
    by (simp_all add: w1_def vfs_stack_window_def fbytes_def)
  have ok1: "file_ok w1 vp" "read_ok w1 vp ?u"
    using ok rd by (simp_all add: w1_def vfs_stack_window_def file_ok_def read_ok_def fbytes_def)
  have n: "min (nat (uio_resid ?u)) (fsize w1 vp - nat off) = unat count"
    using fits unfolding node u by simp
  obtain u' w2 where r: "ramfs_read vp ?u w1 = Inr (0, u', w2)" "uio_resid u' = uio_resid ?u - int (unat count)"
      "\<forall>j < unat count. w_mem w2 (span buf (unat count) ! j) = fbyte w1 vp (nat off + j)"
    by (rule ramfs_read_ok [OF ok1, unfolded u(1,3) n]) (rule that)
  have v: "vfs_read E fp ?u FOF_OFFSET w1 = Inr (0, u', w2)"
    by (rule vfs_read_ramfs [OF E rw [folded open_rw_same [OF sc]] r(1)])
  note f = ramfs_read_frame [OF r(1)]
  have "w_live w2 c \<noteq> None" by (simp add: f(2) w1_def)
  then have fr: "free_mem c w2 = Inr (w2\<lparr>w_live := (w_live w2)(c := None)\<rparr>)" using ans(2) by (simp add: free_mem_def)
  let ?w = "w2\<lparr>w_live := (w_live w2)(c := None)\<rparr>"
  have "sys_read E fp (one_vec buf count) off w = Inr (0, Some (uint count), ?w)"
  proof -
    have i: "iov_bytes (one_vec buf count) 0 = Some (uint count)" using b(2) by (simp add: one_vec_def IOSIZE_MAX_def)
    have u': "\<lparr>uio_iov = one_vec buf count, uio_iovcnt = int (length (one_vec buf count)), uio_offset = off, uio_resid = uint count,
        uio_dir = UIO_READ\<rparr> = ?u" by (simp add: vec_uio_def one_vec_def)
    have fl: "f_flags (w_file w fp) AND UK_FREAD \<noteq> 0" "(if off = -1 then 0 else FOF_OFFSET) = FOF_OFFSET"
      using rw b(3) by (auto simp: open_rw_def)
    show ?thesis
      unfolding sys_read_def if_not_P [OF fl(1)] i option.case Let_def alloc prod.case u' fl(2) bindr_Inr v fr
      using b(1) ans(2) r(2) by (simp add: u)
  qed
  moreover have "same_calls w ?w" using same_calls_trans [OF sc f(1)] by (simp add: same_calls_def)
  moreover have "w_mem w2 (buf + of_nat j) = fbyte w vp (nat off + j)" if "j < unat count" for j
  proof -
    have "rn_buf (fnode w vp) + of_nat (nat off + j) \<in> set (fbytes w vp)"
      using that fits file_bounds(3) [OF ok] unfolding fbytes_def in_span by (intro exI [of _ "nat off + j"]) simp
    then have "rn_buf (fnode w vp) + of_nat (nat off + j) \<notin> set (span c (unat (16 :: u64)))" using apart by auto
    then have "fbyte w1 vp (nat off + j) = fbyte w vp (nat off + j)"
      unfolding fbyte_def node by (simp add: w1_def memset_outside del: of_nat_add)
    then show ?thesis using r(3) that by simp
  qed
  ultimately show ?thesis by (intro exI [of _ ?w]) simp
qed

section \<open>The calls of the C library\<close>

lemma transfer_call_ok:
  assumes "fd_ok (p_vfs p)" "0 \<le> fd" "fd < int FDTABLE_MAX_FILES" "fd_files (p_vfs p) ! nat fd = fp" "fp \<noteq> 0"
    and "f fp (set_file fp (\<lambda>x. x\<lparr>f_count := f_count x + 1\<rparr>) (p_vfs p)) = Inr (0, Some n, w')"
    and "same_calls (set_file fp (\<lambda>x. x\<lparr>f_count := f_count x + 1\<rparr>) (p_vfs p)) w'"
  shows "transfer_call E fd f p = Inr (n, p\<lparr>p_vfs := set_file fp (\<lambda>x. x\<lparr>f_count := f_count x - 1\<rparr>) w'\<rparr>)"
proof -
  let ?w = "p_vfs p"
  have l: "length (fd_bitmap ?w) = 16" "length (fd_files ?w) = FDTABLE_MAX_FILES" using assms(1) by (simp_all add: fd_ok_def)
  have i: "nat fd < FDTABLE_MAX_FILES" using assms(2,3) by simp
  have bit: "bm_bit (fd_bitmap ?w) (nat fd)" using assms(1,4,5) i unfolding fd_ok_def by blast
  have "1 \<le> holders ?w fp" using holders_pos [of "nat fd" ?w] i l(2) assms(4) by simp
  also have "\<dots> \<le> f_count (w_file ?w fp)" using assms(1,5) unfolding fd_ok_def by blast
  finally have "1 < f_count (w_file w' fp)" using assms(7) by (simp add: same_calls_def)
  then show ?thesis
    using assms(5,6) unfolding transfer_call_def fget_def fget_used [OF l assms(2,3) bit assms(4,5)]
    by (simp add: fdrop_more has_error_def)
qed

text \<open>
  A read finds a block \<open>d\<close> for the copy of the vectors, and its buffer is apart from the buffer of
  the file, the old one and the one it may have got from a write.
\<close>

definition read_ready :: "u64 \<Rightarrow> u64 \<Rightarrow> int \<Rightarrow> u64 \<Rightarrow> u64 \<Rightarrow> u64 \<Rightarrow> vfs \<Rightarrow> bool" where
  "read_ready buf count off vp d p w \<longleftrightarrow> d \<noteq> 0 \<and>
     (set (span d 16) \<union> set (span buf (unat count))) \<inter> (set (fbytes w vp) \<union> set (span p (pages off count))) = {}"

lemma write_ready_cong:
  assumes "write_ready buf count off vp c q ps w"
  shows "write_ready buf count off vp c q ps (set_file fp g w)"
  using assms by (simp add: write_ready_def file_ok_def buf_ok_def windowed_def write_ok_def can_grow_def fbytes_def)

lemma file_of_set_file:
  "file_ok (set_file fp g w) vp = file_ok w vp" "buf_ok (set_file fp g w) vp = buf_ok w vp"
  "fbytes (set_file fp g w) vp = fbytes w vp" "fbyte (set_file fp g w) vp = fbyte w vp"
  by (auto simp: file_ok_def buf_ok_def windowed_def fbytes_def fbyte_def)

lemma fd_ok_cong: "fd_bitmap w' = fd_bitmap w \<Longrightarrow> fd_files w' = fd_files w \<Longrightarrow> w_file w' = w_file w \<Longrightarrow> fd_ok w' = fd_ok w"
  by (simp add: fd_ok_def holders_def)

lemma count_up_down:
  assumes "same_calls (set_file fp (\<lambda>x. x\<lparr>f_count := f_count x + 1\<rparr>) w) w'"
  shows "same_calls w (set_file fp (\<lambda>x. x\<lparr>f_count := f_count x - 1\<rparr>) w')"
  using assms by (simp add: same_calls_def)

text \<open>A write through a descriptor, and a read through a descriptor of bytes that are in the file.\<close>

lemma pwrite_ready:
  assumes "e_op E = (\<lambda>_. ramfs_vfsops pad)" "fd_ok (p_vfs p)" "0 \<le> fd" "fd < int FDTABLE_MAX_FILES"
    and "fd_files (p_vfs p) ! nat fd = fp" "open_rw fp vp (p_vfs p)" "write_ready buf count off vp c q ps (p_vfs p)"
  obtains w' where "pwrite E fd buf count off p = Inr (uint count, p\<lparr>p_vfs := w'\<rparr>)" "written buf count off vp q (p_vfs p) w'"
    "w_answers w' = (if unat (rn_bufsize (fnode (p_vfs p) vp)) < nat (off + uint count) then tl ps else ps)"
proof -
  define w where "w = set_file fp (\<lambda>x. x\<lparr>f_count := f_count x + 1\<rparr>) (p_vfs p)"
  have fp: "fp \<noteq> 0" using assms(6) by (simp add: open_rw_def)
  have rw: "open_rw fp vp w" using assms(6) by (simp add: w_def open_rw_def)
  have rdy: "write_ready buf count off vp c q ps w" unfolding w_def by (rule write_ready_cong [OF assms(7)])
  obtain w1 where w1: "sys_write E fp (one_vec buf count) off w = Inr (0, Some (uint count), w1)" "written buf count off vp q w w1"
      "w_answers w1 = (if unat (rn_bufsize (fnode w vp)) < nat (off + uint count) then tl ps else ps)"
    using sys_write_ready [OF assms(1) rw rdy] by blast
  have sc: "same_calls w w1" using w1(2) by (simp add: written_def)
  define w' where "w' = set_file fp (\<lambda>x. x\<lparr>f_count := f_count x - 1\<rparr>) w1"
  have "pwrite E fd buf count off p = Inr (uint count, p\<lparr>p_vfs := w'\<rparr>)"
    unfolding pwrite_def one_vec_def [symmetric] w'_def
    by (rule transfer_call_ok [OF assms(2-5) fp]) (use w1(1) sc in \<open>simp_all add: w_def\<close>)
  moreover have "same_calls (p_vfs p) w'" unfolding w'_def by (rule count_up_down [OF sc [unfolded w_def]])
  then have "written buf count off vp q (p_vfs p) w'"
    using w1(2) unfolding written_def w'_def file_of_set_file by (simp add: w_def fbytes_def)
  ultimately show thesis by (rule that) (use w1(3) in \<open>simp add: w_def w'_def\<close>)
qed

lemma pread_ready:
  assumes "e_op E = (\<lambda>_. ramfs_vfsops pad)" "fd_ok (p_vfs p)" "0 \<le> fd" "fd < int FDTABLE_MAX_FILES"
    and "fd_files (p_vfs p) ! nat fd = fp" "open_rw fp vp (p_vfs p)" "file_ok (p_vfs p) vp" "w_answers (p_vfs p) = d # ds" "d \<noteq> 0"
    and "read_ok (p_vfs p) vp (vec_uio UIO_READ buf count off)" "set (span d 16) \<inter> set (fbytes (p_vfs p) vp) = {}"
    and "nat off + unat count \<le> fsize (p_vfs p) vp"
  obtains w' where "pread E fd buf count off p = Inr (uint count, p\<lparr>p_vfs := w'\<rparr>)" "same_calls (p_vfs p) w'"
    "\<forall>j < unat count. w_mem w' (buf + of_nat j) = fbyte (p_vfs p) vp (nat off + j)"
proof -
  define w where "w = set_file fp (\<lambda>x. x\<lparr>f_count := f_count x + 1\<rparr>) (p_vfs p)"
  have fp: "fp \<noteq> 0" using assms(6) by (simp add: open_rw_def)
  have rw: "open_rw fp vp w" using assms(6) by (simp add: w_def open_rw_def)
  have same: "file_ok w vp = file_ok (p_vfs p) vp" "fbytes w vp = fbytes (p_vfs p) vp" "fbyte w vp = fbyte (p_vfs p) vp"
      "fsize w vp = fsize (p_vfs p) vp" "w_answers w = w_answers (p_vfs p)"
    by (auto simp: w_def file_ok_def fbytes_def fbyte_def)
  have rd: "read_ok w vp (vec_uio UIO_READ buf count off)" using assms(10) unfolding read_ok_def same(2) .
  obtain w1 where w1: "sys_read E fp (one_vec buf count) off w = Inr (0, Some (uint count), w1)" "same_calls w w1"
      "\<forall>j < unat count. w_mem w1 (buf + of_nat j) = fbyte w vp (nat off + j)"
    using sys_read_ready [OF assms(1) rw assms(7) [folded same] assms(8) [folded same] assms(9) rd assms(11) [folded same] assms(12) [folded same]]
    by blast
  define w' where "w' = set_file fp (\<lambda>x. x\<lparr>f_count := f_count x - 1\<rparr>) w1"
  have "pread E fd buf count off p = Inr (uint count, p\<lparr>p_vfs := w'\<rparr>)"
    unfolding pread_def one_vec_def [symmetric] w'_def
    by (rule transfer_call_ok [OF assms(2-5) fp]) (use w1(1,2) in \<open>simp_all add: w_def\<close>)
  moreover have "same_calls (p_vfs p) w'" unfolding w'_def by (rule count_up_down [OF w1(2) [unfolded w_def]])
  moreover have "\<forall>j < unat count. w_mem w' (buf + of_nat j) = fbyte (p_vfs p) vp (nat off + j)"
    using w1(3) unfolding same by (simp add: w'_def)
  ultimately show thesis by (rule that)
qed

text \<open>
  C40: bytes written with \<^verbatim>\<open>pwrite\<close> through a descriptor of a file of ramfs are read back with \<^verbatim>\<open>pread\<close>
  at the same position: both calls transfer all bytes, the buffer of the reader then holds what the
  buffer of the writer held, and the table of descriptors and the open files are as before.
\<close>

theorem pread_after_pwrite:
  assumes "e_op E = (\<lambda>_. ramfs_vfsops pad)" "fd_ok (p_vfs p)" "0 \<le> fd" "fd < int FDTABLE_MAX_FILES"
    and "fd_files (p_vfs p) ! nat fd = fp" "open_rw fp vp (p_vfs p)"
    and "write_ready buf count off vp c q ps (p_vfs p)" "read_ready rbuf count off vp d q (p_vfs p)"
    and "(if unat (rn_bufsize (fnode (p_vfs p) vp)) < nat (off + uint count) then tl ps else ps) = d # ds"
  shows "\<exists>p1 p2. pwrite E fd buf count off p = Inr (uint count, p1) \<and> pread E fd rbuf count off p1 = Inr (uint count, p2) \<and>
    map (w_mem (p_vfs p2)) (span rbuf (unat count)) = map (w_mem (p_vfs p)) (span buf (unat count)) \<and>
    fd_ok (p_vfs p2) \<and> w_file (p_vfs p2) = w_file (p_vfs p)"
proof -
  obtain w1 where w1: "pwrite E fd buf count off p = Inr (uint count, p\<lparr>p_vfs := w1\<rparr>)" "written buf count off vp q (p_vfs p) w1"
      "w_answers w1 = d # ds"
    by (rule pwrite_ready [OF assms(1-7), unfolded assms(9)]) (rule that)
  let ?p = "p\<lparr>p_vfs := w1\<rparr>"
  have wr: "same_calls (p_vfs p) w1" "file_ok w1 vp" "fsize w1 vp = max (fsize (p_vfs p) vp) (nat off + unat count)"
      "\<forall>j < unat count. fbyte w1 vp (nat off + j) = w_mem (p_vfs p) (buf + of_nat j)"
      "set (fbytes w1 vp) \<subseteq> set (fbytes (p_vfs p) vp) \<union> set (span q (pages off count))"
    using w1(2) unfolding written_def by blast+
  have b: "0 \<le> off" "0 < uint count" "uint count < 2147483648"
    using assms(7) by (auto simp: write_ready_def write_ok_def vec_uio_def)
  have ok1: "fd_ok w1 = fd_ok (p_vfs p)" using wr(1) by (intro fd_ok_cong) (simp_all add: same_calls_def)
  have "distinct (span rbuf (unat count))" by (rule distinct_span [OF less_imp_le [OF u64_less_exp]])
  moreover have apart: "set (span rbuf (unat count)) \<inter> set (fbytes w1 vp) = {}" "set (span d 16) \<inter> set (fbytes w1 vp) = {}"
    using assms(8) wr(5) unfolding read_ready_def by blast+
  ultimately have rd: "read_ok w1 vp (vec_uio UIO_READ rbuf count off)"
    using b by (simp add: read_ok_def vec_uio_def one_vec_def)
  obtain w2 where w2: "pread E fd rbuf count off ?p = Inr (uint count, ?p\<lparr>p_vfs := w2\<rparr>)" "same_calls w1 w2"
      "\<forall>j < unat count. w_mem w2 (rbuf + of_nat j) = fbyte w1 vp (nat off + j)"
  proof (rule pread_ready [OF assms(1), of ?p fd fp vp d ds rbuf count off])
    show "fd_files (p_vfs ?p) ! nat fd = fp" using assms(5) wr(1) by (simp add: same_calls_def)
    show "open_rw fp vp (p_vfs ?p)" using assms(6) open_rw_same [OF wr(1)] by simp
    show "d \<noteq> 0" using assms(8) by (simp add: read_ready_def)
  qed (use that assms(2-4) ok1 wr(2,3) w1(3) rd apart(2) in simp_all)
  have "map (w_mem w2) (span rbuf (unat count)) = map (w_mem (p_vfs p)) (span buf (unat count))"
    by (rule nth_equalityI) (use w2(3) wr(4) in simp_all)
  moreover have "fd_ok w2 = fd_ok w1" using w2(2) by (intro fd_ok_cong) (simp_all add: same_calls_def)
  moreover have "w_file w2 = w_file (p_vfs p)" using same_calls_trans [OF wr(1) w2(2)] by (simp add: same_calls_def)
  ultimately show ?thesis using w1(1) w2(1) ok1 assms(2) by auto
qed

section \<open>A transfer of five bytes\<close>

definition ex_transfer :: proc where
  "ex_transfer = ex_proc\<lparr>p_vfs := ex_table\<lparr>w_answers := [0x210000, 0x200000, 0x220000],
     vfs_heap_tab := \<lparr>rt_tab = [no_window, no_window], rt_nr_real = 0\<rparr>,
     w_file := (w_file ex_table)(0x5000 := (w_file ex_table 0x5000)\<lparr>f_flags := 3\<rparr>)\<rparr>\<rparr>"

lemma ex_transfer_fields:
  "fbytes (p_vfs ex_transfer) 0x1100 = []" "rn_bufsize (fnode (p_vfs ex_transfer) 0x1100) = 0" "pages 0 5 = 4096"
  "file_ok (p_vfs ex_transfer) 0x1100" "buf_ok (p_vfs ex_transfer) 0x1100" "ramfs_heap_tab (p_vfs ex_transfer) = RAMFS_ipc_tab_heap"
  "w_answers (p_vfs ex_transfer) = [0x210000, 0x200000, 0x220000]" "rn_buf (fnode (p_vfs ex_transfer) 0x1100) = 0"
  using ex_table(1)
  by (simp_all add: ex_transfer_def ex_proc_def ex_table_def ex_vfs_def ex_vnode_def new_node_def fbytes_def file_ok_def buf_ok_def pages_def)

lemma ex_transfer_apart:
  "set (span 0x210000 16) \<inter> (set (span 0x8000 5) \<union> set (span 0x200000 4096)) = {}"
  "(set (span 0x220000 16) \<union> set (span 0x9000 5)) \<inter> set (span 0x200000 4096) = {}"
  "set (span 0x8000 5) \<inter> set (span 0x200000 4096) = {}"
  by (auto simp: in_span_iff word_less_nat_alt unat_arith_simps split: if_splits)

lemma ex_transfer_ready:
  "open_rw 0x5000 0x1100 (p_vfs ex_transfer)" "fd_ok (p_vfs ex_transfer)" "fd_files (p_vfs ex_transfer) ! nat 0 = 0x5000"
  "write_ready 0x8000 5 0 0x1100 0x210000 0x200000 [0x200000, 0x220000] (p_vfs ex_transfer)"
  "read_ready 0x9000 5 0 0x1100 0x220000 0x200000 (p_vfs ex_transfer)"
proof -
  show "open_rw 0x5000 0x1100 (p_vfs ex_transfer)"
    by (simp add: open_rw_def ex_transfer_def ex_proc_def ex_table_def ex_vfs_def ex_vnode_def UK_FREAD_def UK_FWRITE_def O_APPEND_def)
  have "fd_bitmap (p_vfs ex_transfer) = fd_bitmap ex_table" "fd_files (p_vfs ex_transfer) = fd_files ex_table"
      "holders (p_vfs ex_transfer) x = holders ex_table x"
      "f_count (w_file (p_vfs ex_transfer) x) = f_count (w_file ex_table x)" for x
    by (simp_all add: ex_transfer_def ex_proc_def holders_def)
  then show "fd_ok (p_vfs ex_transfer)" "fd_files (p_vfs ex_transfer) ! nat 0 = 0x5000"
    using ex_table_ok ex_table_bits(3) by (simp_all add: fd_ok_def)
  have "write_ok ((p_vfs ex_transfer)\<lparr>w_answers := [0x200000, 0x220000]\<rparr>) 0x1100 (vec_uio UIO_WRITE 0x8000 5 0) 0 0x200000"
    using ex_transfer_fields ex_transfer_apart(3) ex_table(2) distinct_span [of 5 "0x8000"]
    by (simp add: write_ok_def can_grow_def vec_uio_def one_vec_def fbytes_def)
  moreover have "\<exists>e \<in> set (take VFS_HEAP_MAX (rt_tab (vfs_heap_tab (p_vfs ex_transfer)))). ipc_size e = 0"
    by (simp add: ex_transfer_def VFS_HEAP_MAX_def no_window_def)
  ultimately show "write_ready 0x8000 5 0 0x1100 0x210000 0x200000 [0x200000, 0x220000] (p_vfs ex_transfer)"
    unfolding write_ready_def ex_transfer_fields using ex_transfer_apart(1) ex_transfer_fields(4,5) by simp
  show "read_ready 0x9000 5 0 0x1100 0x220000 0x200000 (p_vfs ex_transfer)"
    unfolding read_ready_def ex_transfer_fields using ex_transfer_apart(2) by simp
qed

theorem pread_after_pwrite_witness:
  "\<exists>p1 p2. pwrite ex_ramfs_env 0 0x8000 5 0 ex_transfer = Inr (5, p1) \<and> pread ex_ramfs_env 0 0x9000 5 0 p1 = Inr (5, p2) \<and>
    map (w_mem (p_vfs p2)) (span 0x9000 5) = map (w_mem (p_vfs ex_transfer)) (span 0x8000 5)"
proof -
  have e: "e_op ex_ramfs_env = (\<lambda>_. ramfs_vfsops 0x7000)" by (simp add: ex_ramfs_env_def)
  have "(if unat (rn_bufsize (fnode (p_vfs ex_transfer) 0x1100)) < nat (0 + uint (5 :: u64)) then tl [0x200000, 0x220000] else [0x200000, 0x220000])
      = [0x220000 :: u64]" unfolding ex_transfer_fields by simp
  from pread_after_pwrite [OF e ex_transfer_ready(2) _ _ ex_transfer_ready(3,1,4,5) this] show ?thesis
    by (auto simp: FDTABLE_MAX_FILES_def)
qed

end
