(* ===== verification/Spec2Isabelle.thy ===== *)
theory Spec2Isabelle
  imports Windows Crosscall Bbuddy_Alloc Ramfs_Files Paths Dentry_Cache Fd_Transfers
begin

text \<open>
  \<^bold>\<open>A verification development of CubicleOS.\<close>

  CubicleOS runs the libraries of a Unikraft system as isolated components, the \<^emph>\<open>cubicles\<close>,
  in one address space. Every cubicle has a memory protection key (MPK). Small trusted code, the
  \<^emph>\<open>monitor\<close> (\<^verbatim>\<open>kernel/loader.c\<close>), loads the cubicles, gives every page the key of its owner and
  answers the faults of a cubicle that touches a page of another one: it looks for a \<^emph>\<open>window\<close> on
  the address in a table that the owner keeps in its own memory (\<^verbatim>\<open>ipc.c\<close> of each library), and
  either gives the page the key of the accessor or stops. Calls between cubicles go through
  wrappers generated by \<^verbatim>\<open>kernel/fig.py\<close>, which switch the enabled keys, the stack and the
  current module. Above this lie the libraries: the page allocator and the allocator interface
  (\<^verbatim>\<open>lib/ukallocbbuddy\<close>, \<^verbatim>\<open>lib/ukalloc\<close>), the file system switch (\<^verbatim>\<open>lib/vfscore\<close>) and the file
  system in memory (\<^verbatim>\<open>lib/ramfs\<close>), which share their structures and buffers through windows.
  Source paths below are relative to \<^verbatim>\<open>src/\<close> and, from \<^verbatim>\<open>lib\<close>, \<^verbatim>\<open>plat\<close>, \<^verbatim>\<open>arch\<close> or \<^verbatim>\<open>include\<close>
  on, to \<^verbatim>\<open>src/unikraft/\<close>.

  \<^bold>\<open>Conventions.\<close> Definitions keep the names of the source. Code that can stop returns
  \<^verbatim>\<open>stop + 'a\<close> (\<^verbatim>\<open>Prelude\<close>): \<^verbatim>\<open>Hang\<close> is an endless loop, \<^verbatim>\<open>Exit\<close> a call of exit, \<^verbatim>\<open>Assert\<close> a failed
  UK_ASSERT, \<^verbatim>\<open>Oob\<close> an access outside an array and \<^verbatim>\<open>Undef\<close> any other undefined operation; error
  numbers are ordinary results. Addresses and sizes are 64-bit words where they can wrap
  (\<^verbatim>\<open>Mpk\<close>, \<^verbatim>\<open>Monitor\<close>, \<^verbatim>\<open>Ukalloc\<close> and the file system) and natural numbers in the buddy allocator,
  with the wrap-around written out where a sum can reach 2^64. Messages and debug dumps are left out.

  \<^bold>\<open>The monitor.\<close>
  \<^item> \<^verbatim>\<open>Modules\<close>: the tables of \<^verbatim>\<open>kernel/fig.py\<close> (modules, friends, build flavours).
  \<^item> \<^verbatim>\<open>Mpk\<close>: keys of pages, allocated keys and the PKRU register, after the manual pages of
    pkey_alloc, pkey_set and pkey_mprotect.
  \<^item> \<^verbatim>\<open>Monitor\<close>: the state of \<^verbatim>\<open>kernel/loader.c\<close> (record \<^verbatim>\<open>mon\<close>: pmap, the stacks, heap_cfg,
    mmap_cfg) and its primitives. C8: attaching a block of the heap transfers exactly its pages.
  \<^item> \<^verbatim>\<open>Monitor_Fault\<close>: the handler sig_handler on every branch. C1, C2: it returns exactly when
    the window policy allows the access, and re-keys one page only; C3, by induction on
    sequences of monitor steps: without a window no step gives a page to a stranger.
  \<^item> \<^verbatim>\<open>Monitor_Load\<close>: main of \<^verbatim>\<open>kernel/loader.c\<close> up to the first call of the platform library. C9 to
    C11: keys are distinct, the page map is faithful, isolation is established; C14: the patched
    linkage tables lead to the wrappers. What the operating system and the dynamic linker answer
    is the record \<^verbatim>\<open>loader_env\<close>.
  \<^item> \<^verbatim>\<open>Windows\<close>: the seven \<^verbatim>\<open>ipc.c\<close> files. The locales \<^verbatim>\<open>window_table\<close> and \<^verbatim>\<open>closing_table\<close> state the
    contract of a table, each interpreted on the tables of the source. C4 to C6: a window that is
    opened grants access, one that is closed does not, and the round trip; C7: in the tables of
    vfscore and ukboot the last window is never closed.
  \<^item> \<^verbatim>\<open>Crosscall\<close>: wrappers and coroutines (\<^verbatim>\<open>kernel/fig.py\<close>, \<^verbatim>\<open>kernel/coro.h\<close>); a call is split into
    its entry and its return, so that the step relation \<^verbatim>\<open>sys_step\<close> interleaves calls, returns,
    faults and window updates. C12: in every reachable state only the keys of the running module
    and its friends are enabled; C13: a call returns to its caller.

  \<^bold>\<open>Memory.\<close>
  \<^item> \<^verbatim>\<open>Bbuddy\<close>, \<^verbatim>\<open>Bbuddy_Chunks\<close>, \<^verbatim>\<open>Bbuddy_Memory\<close>: \<^verbatim>\<open>lib/ukallocbbuddy/bbuddy.c\<close>: bitmap, free lists,
    splitting and merging, adding memory, initialisation. C15 to C17: allocation and release
    against the set of free pages, with all buddies merged; C18: initialisation; C19: a region
    for which one page too many is linked.
  \<^item> \<^verbatim>\<open>Ukalloc\<close>: \<^verbatim>\<open>lib/ukalloc\<close>. The locale \<^verbatim>\<open>page_allocator\<close> states what an allocator of pages
    promises; malloc, free, realloc and posix_memalign are proved correct inside it.
    \<^verbatim>\<open>Bbuddy_Alloc\<close> interprets it on the buddy allocator and states C20 to C23; C24 is about the
    list of allocators.
  \<^item> \<^verbatim>\<open>Bitmap\<close>: \<^verbatim>\<open>include/uk/bitops.h\<close>, \<^verbatim>\<open>bitmap.h\<close>, \<^verbatim>\<open>bitcount.h\<close>. C31 to C33: word-wise searches,
    counts and range updates against bit-by-bit definitions.

  \<^bold>\<open>The file system.\<close> \<^verbatim>\<open>Vfs_State\<close> holds the joint state of vfscore and ramfs (record \<^verbatim>\<open>vfs\<close>):
  structures by address, bytes of memory, hash tables, window tables, open files.
  \<^item> \<^verbatim>\<open>Uio\<close> (\<^verbatim>\<open>uio.h\<close>, \<^verbatim>\<open>subr_uio.c\<close>), \<^verbatim>\<open>Vnode\<close> (\<^verbatim>\<open>vnode.c\<close>), \<^verbatim>\<open>Ramfs\<close> (\<^verbatim>\<open>lib/ramfs\<close>).
    \<^verbatim>\<open>Ramfs_Dirs\<close>: a directory is a linked list of nodes. C28: all walks end; C29: the operations
    refine those on a list of names. \<^verbatim>\<open>Ramfs_Files\<close>: C25, C26: write and read against the contents
    of a file; C27: a write that never returns. C30, below, joins ramfs and the monitor.
  \<^item> \<^verbatim>\<open>Paths\<close> (\<^verbatim>\<open>task.c\<close>, vfs_findroot): C34: conversion of a path against resolution of its
    components; C35, C36: its two defects.
  \<^item> \<^verbatim>\<open>Dentry\<close> (\<^verbatim>\<open>dentry.c\<close>) and \<^verbatim>\<open>Dentry_Cache\<close>, C37: the hash table implements a map.
  \<^item> \<^verbatim>\<open>Namei\<close> (\<^verbatim>\<open>lookup.c\<close>), \<^verbatim>\<open>Fdtable\<close> (\<^verbatim>\<open>file.c\<close>, \<^verbatim>\<open>fops.c\<close>, \<^verbatim>\<open>fd.c\<close>), \<^verbatim>\<open>Mount\<close> (\<^verbatim>\<open>mount.c\<close>, \<^verbatim>\<open>rootfs.c\<close>,
    ramfs_unmount), \<^verbatim>\<open>Syscalls\<close> and \<^verbatim>\<open>Syscalls_Names\<close> (\<^verbatim>\<open>syscalls.c\<close>), \<^verbatim>\<open>Posix\<close> (\<^verbatim>\<open>main.c\<close> and the
    installation of the console of \<^verbatim>\<open>stdio.c\<close>; record \<^verbatim>\<open>proc\<close>).
  \<^item> \<^verbatim>\<open>Fd_Refs\<close>: C38, by induction on sequences of operations on descriptors: a descriptor names a
    file with a reference; C39: dup2 breaks this. \<^verbatim>\<open>Fd_Transfers\<close>: C40: pread returns what
    pwrite wrote, through all layers from the C library to ramfs.

  \<^bold>\<open>Inputs of the model.\<close> The allocators of vfscore and ramfs (copies of dlmalloc) enter as the
  list \<^verbatim>\<open>w_answers\<close> of their results, of which an exhausted one is NULL; \<^verbatim>\<open>w_live\<close> are the blocks in
  use, and a theorem that needs a fresh block says so. Operations of a file system other than
  ramfs enter through the record \<^verbatim>\<open>env\<close>, as do the clock and addresses of objects on the stack.

  \<^bold>\<open>Loops and bounds.\<close> Loops over lists or counters are structural recursion or functions with
  a termination proof. Loops that follow pointers (the lists of ramfs, the list of allocators,
  the search for an area of a bitmap, the skipping of directory entries) are partial functions
  into option, where None is non-termination and becomes \<^verbatim>\<open>Hang\<close>; C28 proves that those of a
  well-formed directory return. The search for symbolic links is bounded by MAXSYMLINKS, as in
  the code. There is no other fuel.

  \<^bold>\<open>Not modelled.\<close> Vendored code (plthook, dlmalloc, mini-printf, libfdt, kconfig, the C
  libraries), assembly (context switches, \<^verbatim>\<open>arch\<close>), drivers, platforms and the network (\<^verbatim>\<open>plat\<close>,
  \<^verbatim>\<open>lib/uknetdev\<close>, \<^verbatim>\<open>lib/ukblkdev\<close>, \<^verbatim>\<open>lib/uk9p\<close>, \<^verbatim>\<open>lib/9pfs\<close>, \<^verbatim>\<open>lib/lwip\<close>), threads and locks
  (\<^verbatim>\<open>lib/uksched\<close>, \<^verbatim>\<open>lib/uklock\<close>; locks are empty in this configuration), \<^verbatim>\<open>lib/devfs\<close> behind its
  operation table, the transfers of the console, and \<^verbatim>\<open>lib/vfscore/pipe.c\<close>, which the preprocessor
  removes. Of \<^verbatim>\<open>main.c\<close> ioctl (which returns at its first statement), isatty, sendfile, statvfs,
  readdir with a static buffer and the ownership stubs are left out. Constants named after macros
  of the source and some one-line helpers have no entry of their own in the source map.
\<close>

section \<open>Files and the monitor\<close>

text \<open>
  C30 (a truncated file stays shared): truncating a file to length zero releases the block of
  its buffer, but the window on that block stays in the table: while the block is free, or
  after the allocator has handed it out again, the monitor still grants the access of a cubicle
  that the window names.
\<close>

theorem truncate_leaves_window_open:
  assumes "file_ok w vp" "buf_ok w vp" "0 < unat (rn_bufsize (fnode w vp))"
    and "e \<in> set (ramfs_heap_tab w)" "ipc_begin e = rn_buf (fnode w vp)" "grants True c addr e"
    and "heap_fault s rip rsp addr c E_RAMFS (ramfs_heap_tab w)"
  shows "\<exists>w' s'. ramfs_truncate vp 0 w = Inr (0, w') \<and> fsize w' vp = 0 \<and> w_live w' (rn_buf (fnode w vp)) = None \<and>
    heap_fault s rip rsp addr c E_RAMFS (ramfs_heap_tab w') \<and>
    sig_handler s rip rsp addr = Inr s' \<and> page_key (mpk s') (page_of addr) = Some (key_of s c)"
  using truncate_zero [OF assms(1-3)] heap_fault_granted [OF assms(7,4,6)] assms(7) by auto

definition ex_shared :: vfs where
  "ex_shared = ex_vfs\<lparr>w_live := [0x10000 \<mapsto> 4096], ramfs_heap_tab := ex_tab,
     w_node := (w_node ex_vfs)(0x2100 := (w_node ex_vfs 0x2100)\<lparr>rn_buf := 0x10000, rn_bufsize := 4096\<rparr>)\<rparr>"

lemma ex_shared_fields: "rn_buf (fnode ex_shared 0x1100) = 0x10000" "ramfs_heap_tab ex_shared = ex_tab"
  "rn_bufsize (fnode ex_shared 0x1100) = 4096"
  by (simp_all add: ex_shared_def ex_vfs_def ex_vnode_def)

lemma ex_shared_file: "file_ok ex_shared 0x1100" "buf_ok ex_shared 0x1100"
proof -
  show "file_ok ex_shared 0x1100"
    by (simp add: file_ok_def ex_shared_def ex_vfs_def ex_vnode_def new_node_def) (simp add: ex_tab_def HEAP_MAX_def)
  have "ex_window \<in> set ex_tab" by (simp add: ex_tab_def)
  then have "windowed ex_shared 0x10000" unfolding windowed_def ex_shared_fields by (rule bexI [rotated]) (simp add: ex_window_entry)
  then show "buf_ok ex_shared 0x1100"
    unfolding buf_ok_def ex_shared_fields by (simp add: ex_shared_def ex_vfs_def ex_vnode_def new_node_def)
qed

theorem truncate_leaves_window_open_witness:
  "\<exists>w' s'. ramfs_truncate 0x1100 0 ex_shared = Inr (0, w') \<and> w_live w' 0x10000 = None \<and>
    sig_handler ex_mon 0x100010 0x102800 0x10008 = Inr s' \<and> page_key (mpk s') (page_of 0x10008) = Some (key_of ex_mon 21)"
proof -
  have "\<exists>w' s'. ramfs_truncate 0x1100 0 ex_shared = Inr (0, w') \<and> fsize w' 0x1100 = 0 \<and>
    w_live w' (rn_buf (fnode ex_shared 0x1100)) = None \<and>
    heap_fault ex_mon 0x100010 0x102800 0x10008 21 E_RAMFS (ramfs_heap_tab w') \<and>
    sig_handler ex_mon 0x100010 0x102800 0x10008 = Inr s' \<and> page_key (mpk s') (page_of 0x10008) = Some (key_of ex_mon 21)"
  proof (rule truncate_leaves_window_open [OF ex_shared_file])
    show "grants True 21 0x10008 ex_window" by (simp add: grants_def ex_bit ex_window_entry covers_def)
    show "heap_fault ex_mon 0x100010 0x102800 0x10008 21 E_RAMFS (ramfs_heap_tab ex_shared)"
      using ex_heap_fault by (simp add: ex_shared_fields E_RAMFS_def)
    show "ex_window \<in> set (ramfs_heap_tab ex_shared)" by (simp add: ex_shared_fields ex_tab_def)
  qed (simp_all add: ex_shared_fields ex_window_entry)
  moreover have "rn_buf (fnode ex_shared 0x1100) = 0x10000" by (rule ex_shared_fields)
  ultimately show ?thesis by (simp only: simp_thms) blast
qed

end
